(* ===== verification/Spd_Prelude.thy ===== *)
theory Spd_Prelude
  imports Main
begin

text \<open>
  Shared vocabulary of the development: the names of the model's basic types, the fact
  collections that the component theories fill, and generic lemmas on lists and options.

  Conventions used by every component:
  \<^item> a C function that can dereference \<open>NULL\<close>, write outside a buffer or loop for ever returns
    an \<open>option\<close>; \<open>None\<close> means that the C code has no defined result there;
  \<^item> a pointer that may be \<open>NULL\<close> is an \<open>option\<close>, \<open>None\<close> being \<open>NULL\<close>;
  \<^item> an \<open>int\<close> return code of C is an \<open>int\<close>.
\<close>

type_synonym addr = nat

named_theorems spd_defs \<open>unfolding rules of the operations\<close>
named_theorems spd_inv \<open>preservation of invariants by single operations\<close>

section \<open>Lists\<close>

lemma last_snoc_butlast: "xs \<noteq> [] \<Longrightarrow> butlast xs @ [last xs] = xs"
  by simp

lemma remove1_append_notin:
  "x \<notin> set xs \<Longrightarrow> remove1 x (xs @ x # ys) = xs @ ys"
  by (simp add: remove1_append)

lemma takeWhile_dropWhile_insert_set:
  "set (takeWhile P xs @ x # dropWhile P xs) = insert x (set xs)"
proof -
  have "set xs = set (takeWhile P xs) \<union> set (dropWhile P xs)"
    by (metis set_append takeWhile_dropWhile_id)
  then show ?thesis by auto
qed

lemma dropWhile_hd_notP: "dropWhile P xs = y # ys \<Longrightarrow> \<not> P y"
  by (metis hd_dropWhile list.distinct(1) list.sel(1))

lemma take_eq_prefix: "take (length xs) ys = xs \<longleftrightarrow> (\<exists>zs. ys = xs @ zs)"
  by (metis append_eq_conv_conj append_take_drop_id)

lemma filter_eq_singleton_distinct:
  "distinct xs \<Longrightarrow> x \<in> set xs \<Longrightarrow> filter (\<lambda>y. y = x) xs = [x]"
proof (induction xs)
  case (Cons a xs)
  then show ?case
    by (cases "a = x") (auto simp: filter_empty_conv)
qed simp

text \<open>Writing the bytes \<open>t\<close> into a buffer from position \<open>n\<close> on.\<close>

definition overwrite :: "'a list \<Rightarrow> nat \<Rightarrow> 'a list \<Rightarrow> 'a list" where
  "overwrite b n t = take n b @ t @ drop (n + length t) b"

lemma overwrite_Nil [simp]: "overwrite b n [] = b"
  by (simp add: overwrite_def)

lemma length_overwrite [simp]: "n + length t \<le> length b \<Longrightarrow> length (overwrite b n t) = length b"
  by (simp add: overwrite_def)

lemma overwrite_single: "n < length b \<Longrightarrow> b[n := c] = overwrite b n [c]"
  by (simp add: overwrite_def upd_conv_take_nth_drop)

lemma overwrite_append:
  assumes "n + length (t @ u) \<le> length b"
  shows "overwrite (overwrite b n t) (n + length t) u = overwrite b n (t @ u)"
  using assms by (simp add: overwrite_def ac_simps)

lemma take_overwrite: "n \<le> length b \<Longrightarrow> take (n + length t) (overwrite b n t) = take n b @ t"
  by (simp add: overwrite_def)

lemma take_overwrite_before: "n \<le> length b \<Longrightarrow> take n (overwrite b n t) = take n b"
  by (simp add: overwrite_def)

lemma drop_overwrite: "n + length t \<le> length b \<Longrightarrow> n + length t \<le> m \<Longrightarrow> drop m (overwrite b n t) = drop m b"
  by (simp add: overwrite_def)

section \<open>Options\<close>

lemma bind_Some_iff: "Option.bind m f = Some y \<longleftrightarrow> (\<exists>x. m = Some x \<and> f x = Some y)"
  by (cases m) auto

lemma option_neq_None_iff: "x \<noteq> None \<longleftrightarrow> (\<exists>y. x = Some y)"
  by (cases x) auto

end
