(* ===== verification/Spd_CString.thy ===== *)
theory Spd_CString
  imports Spd_Prelude "HOL-Library.Word"
begin

text \<open>
  C strings and the part of \<open>string.h\<close>, \<open>strings.h\<close> and \<open>ctype.h\<close> (C locale) that the sources
  use. The value of a C string is the \<open>string\<close> of its bytes before the terminating NUL; a
  buffer is a list of bytes in which NUL bytes may occur, and \<open>cstr\<close> reads the string that
  starts at its first byte.
\<close>

abbreviation NUL :: char where "NUL \<equiv> CHR 0x00"

definition byte :: "char \<Rightarrow> nat" where
  "byte c = of_char c"

lemma byte_inj [simp]: "byte a = byte b \<longleftrightarrow> a = b"
  by (simp add: byte_def)

lemma byte_less_256 [simp]: "byte c < 256"
  by (simp add: byte_def)

lemma char_of_byte [simp]: "char_of (byte c) = c"
  by (simp add: byte_def)

lemma byte_char_of: "n < 256 \<Longrightarrow> byte (char_of n) = n"
  by (simp add: byte_def)

definition is_cstr :: "string \<Rightarrow> bool" where
  "is_cstr s \<longleftrightarrow> NUL \<notin> set s"

definition cstr :: "char list \<Rightarrow> string" where
  "cstr buf = takeWhile (\<lambda>c. c \<noteq> NUL) buf"

lemma is_cstr_Nil [simp]: "is_cstr []"
  by (simp add: is_cstr_def)

lemma is_cstr_Cons [simp]: "is_cstr (c # s) \<longleftrightarrow> c \<noteq> NUL \<and> is_cstr s"
  by (auto simp: is_cstr_def)

lemma is_cstr_append [simp]: "is_cstr (s @ t) \<longleftrightarrow> is_cstr s \<and> is_cstr t"
  by (auto simp: is_cstr_def)

lemma cstr_is_cstr [simp]: "is_cstr (cstr b)"
  by (auto simp: is_cstr_def cstr_def dest: set_takeWhileD)

lemma cstr_append_NUL: "is_cstr s \<Longrightarrow> cstr (s @ NUL # rest) = s"
  by (induction s) (auto simp: cstr_def)

lemma is_cstr_take: "is_cstr s \<Longrightarrow> is_cstr (take n s)"
  by (auto simp: is_cstr_def dest: in_set_takeD)

lemma is_cstr_drop: "is_cstr s \<Longrightarrow> is_cstr (drop n s)"
  by (auto simp: is_cstr_def dest: in_set_dropD)

section \<open>ctype.h\<close>

definition c_tolower :: "char \<Rightarrow> char" where
  "c_tolower c = (if 65 \<le> byte c \<and> byte c \<le> 90 then char_of (byte c + 32) else c)"

definition c_toupper :: "char \<Rightarrow> char" where
  "c_toupper c = (if 97 \<le> byte c \<and> byte c \<le> 122 then char_of (byte c - 32) else c)"

definition c_isdigit :: "char \<Rightarrow> bool" where
  "c_isdigit c \<longleftrightarrow> 48 \<le> byte c \<and> byte c \<le> 57"

lemma byte_c_tolower: "byte (c_tolower c) = (if 65 \<le> byte c \<and> byte c \<le> 90 then byte c + 32 else byte c)"
  by (simp add: c_tolower_def byte_char_of)

lemma c_tolower_idem [simp]: "c_tolower (c_tolower c) = c_tolower c"
  by (simp only: byte_inj [symmetric] byte_c_tolower) auto

abbreviation lower :: "string \<Rightarrow> string" where
  "lower s \<equiv> map c_tolower s"

section \<open>Comparison\<close>

text \<open>The sign of the result is all the sources look at, so -1, 0 and 1 stand for it.\<close>

fun strcmp :: "string \<Rightarrow> string \<Rightarrow> int" where
  "strcmp [] [] = 0"
| "strcmp [] (b # bs) = - 1"
| "strcmp (a # as) [] = 1"
| "strcmp (a # as) (b # bs) =
     (if a = b then strcmp as bs else if byte a < byte b then - 1 else 1)"

definition strcasecmp :: "string \<Rightarrow> string \<Rightarrow> int" where
  "strcasecmp a b = strcmp (lower a) (lower b)"

definition strncmp :: "string \<Rightarrow> string \<Rightarrow> nat \<Rightarrow> int" where
  "strncmp a b n = strcmp (take n a) (take n b)"

definition strncasecmp :: "string \<Rightarrow> string \<Rightarrow> nat \<Rightarrow> int" where
  "strncasecmp a b n = strcasecmp (take n a) (take n b)"

lemma strcmp_eq_0 [simp]: "strcmp a b = 0 \<longleftrightarrow> a = b"
  by (induction a b rule: strcmp.induct) auto

lemma strcmp_swap: "strcmp b a = - strcmp a b"
  by (induction a b rule: strcmp.induct) auto

lemma strcmp_trans_less: "strcmp a b < 0 \<Longrightarrow> strcmp b c < 0 \<Longrightarrow> strcmp a c < 0"
proof (induction a b arbitrary: c rule: strcmp.induct)
  case (2 b bs)
  then show ?case by (cases c) auto
next
  case (4 a as b bs)
  then show ?case by (cases c) (auto split: if_splits)
qed auto

lemma strcmp_trans_le: "strcmp a b \<le> 0 \<Longrightarrow> strcmp b c \<le> 0 \<Longrightarrow> strcmp a c \<le> 0"
  by (metis order_le_less strcmp_eq_0 strcmp_trans_less)

lemma strcasecmp_eq_0 [simp]: "strcasecmp a b = 0 \<longleftrightarrow> lower a = lower b"
  by (simp add: strcasecmp_def)

lemma strncasecmp_eq_0 [simp]: "strncasecmp a b n = 0 \<longleftrightarrow> lower (take n a) = lower (take n b)"
  by (simp add: strncasecmp_def)

lemma strncmp_eq_0 [simp]: "strncmp a b n = 0 \<longleftrightarrow> take n a = take n b"
  by (simp add: strncmp_def)

section \<open>Search\<close>

text \<open>
  \<open>strchr\<close> also finds the terminator: \<open>strchr (s, 0)\<close> is the address of the NUL. The index
  is relative to the start of \<open>s\<close>.
\<close>

fun index_of :: "char \<Rightarrow> string \<Rightarrow> nat option" where
  "index_of c [] = None"
| "index_of c (x # xs) = (if x = c then Some 0 else map_option Suc (index_of c xs))"

definition strchr :: "string \<Rightarrow> char \<Rightarrow> nat option" where
  "strchr s c = (if c = NUL then Some (length s) else index_of c s)"

lemma index_of_None [simp]: "index_of c s = None \<longleftrightarrow> c \<notin> set s"
  by (induction s) auto

lemma index_of_SomeD:
  "index_of c s = Some n \<Longrightarrow> n < length s \<and> s ! n = c \<and> c \<notin> set (take n s)"
  by (induction s arbitrary: n) (auto split: if_splits)

lemma index_of_split: "c \<notin> set p \<Longrightarrow> index_of c (p @ c # q) = Some (length p)"
  by (induction p) auto

lemma strchr_None: "strchr s c = None \<longleftrightarrow> c \<noteq> NUL \<and> c \<notin> set s"
  by (simp add: strchr_def)

definition is_prefix_of :: "string \<Rightarrow> string \<Rightarrow> bool" where
  "is_prefix_of p s \<longleftrightarrow> take (length p) s = p"

fun strstr :: "string \<Rightarrow> string \<Rightarrow> nat option" where
  "strstr [] sub = (if sub = [] then Some 0 else None)"
| "strstr (c # s) sub =
     (if is_prefix_of sub (c # s) then Some 0 else map_option Suc (strstr s sub))"

lemma strstr_sound: "strstr s sub = Some n \<Longrightarrow> \<exists>r. s = take n s @ sub @ r \<and> n \<le> length s"
proof (induction s arbitrary: n)
  case Nil
  then show ?case by (auto split: if_splits)
next
  case (Cons c s)
  show ?case
  proof (cases "is_prefix_of sub (c # s)")
    case True
    with Cons.prems have "n = 0" by simp
    moreover from True obtain r where "c # s = sub @ r"
      by (auto simp: is_prefix_of_def take_eq_prefix)
    ultimately show ?thesis by (metis append_Nil le0 take0)
  next
    case False
    with Cons.prems obtain m where m: "strstr s sub = Some m" "n = Suc m" by auto
    from Cons.IH [OF m(1)] obtain r where "s = take m s @ sub @ r" "m \<le> length s" by blast
    with m(2) show ?thesis by (metis Suc_le_mono append_Cons length_Cons take_Suc_Cons)
  qed
qed

lemma strstr_complete: "strstr (p @ sub @ r) sub \<noteq> None"
proof (induction p)
  case Nil
  show ?case
  proof (cases "sub @ r")
    case Nil
    then show ?thesis by simp
  next
    case (Cons c s)
    then have "is_prefix_of sub (c # s)"
      unfolding is_prefix_of_def by (metis append_eq_conv_conj)
    with Cons show ?thesis by simp
  qed
next
  case (Cons c p)
  then show ?case by auto
qed

lemma strstr_eq_None: "strstr s sub = None \<longleftrightarrow> \<not> (\<exists>p r. s = p @ sub @ r)"
proof
  assume n: "strstr s sub = None"
  show "\<not> (\<exists>p r. s = p @ sub @ r)"
  proof (intro notI, elim exE)
    fix p r assume "s = p @ sub @ r"
    with strstr_complete [of p sub r] n show False by simp
  qed
next
  assume "\<not> (\<exists>p r. s = p @ sub @ r)"
  then show "strstr s sub = None"
    using strstr_sound [of s sub] by (cases "strstr s sub") auto
qed

section \<open>Decimal output and bounded formatting\<close>

text \<open>
  What \<open>%d\<close> prints, and what \<open>snprintf\<close> leaves in a buffer of \<open>n\<close> bytes when the
  formatted text is \<open>out\<close>: at most \<open>n - 1\<close> bytes and a NUL; its return value is the length of
  the whole text. With \<open>n = 0\<close> nothing is written.
\<close>

fun nat_dec :: "nat \<Rightarrow> string" where
  "nat_dec n = (if n < 10 then [char_of (48 + n)] else nat_dec (n div 10) @ [char_of (48 + n mod 10)])"

declare nat_dec.simps [simp del]

definition int_dec :: "int \<Rightarrow> string" where
  "int_dec i = (if i < 0 then CHR ''-'' # nat_dec (nat (- i)) else nat_dec (nat i))"

definition snprintf_out :: "nat \<Rightarrow> string \<Rightarrow> string" where
  "snprintf_out n out = take (n - 1) out"

section \<open>Numbers in texts\<close>

text \<open>\<open>atoi\<close> and \<open>sscanf\<close> with \<open>%d\<close>: blanks, a sign and digits; \<open>None\<close> without a digit.\<close>

definition c_isspace :: "char \<Rightarrow> bool" where
  "c_isspace c \<longleftrightarrow> byte c = 32 \<or> (9 \<le> byte c \<and> byte c \<le> 13)"

definition digits_value :: "string \<Rightarrow> int" where
  "digits_value ds = foldl (\<lambda>n c. 10 * n + int (byte c - 48)) 0 ds"

definition scan_int :: "nat \<Rightarrow> string \<Rightarrow> int option" where
  "scan_int width s =
     (let t = take width (dropWhile c_isspace s);
          neg = (t \<noteq> [] \<and> hd t = CHR ''-'');
          t = (if t \<noteq> [] \<and> (hd t = CHR ''-'' \<or> hd t = CHR ''+'') then tl t else t);
          ds = takeWhile c_isdigit t
      in if ds = [] then None else Some (if neg then - digits_value ds else digits_value ds))"

definition c_atoi :: "string \<Rightarrow> int" where
  "c_atoi s = (case scan_int (length s) s of None \<Rightarrow> 0 | Some n \<Rightarrow> n)"

end
