(* ===== verification/Spd_Interfaces.thy ===== *)
theory Spd_Interfaces
  imports Spd_Prelude
begin

text \<open>
  The interfaces between components, as locales: what a client calls (\<open>fixes\<close>), what the
  provider promises (\<open>assumes\<close>), and what follows for every client. Each is interpreted on the
  model's own definitions in the theory of the component that provides it.
\<close>

section \<open>A first-in first-out queue\<close>

text \<open>
  \<open>rep s xs\<close> says that the concrete state \<open>s\<close> stands for the sequence \<open>xs\<close>; \<open>fresh s x\<close>
  that \<open>x\<close> may be queued. The task queue is a client (\<open>tps_queue\<close> in \<open>src/taskqueue.c\<close>).
\<close>

datatype 'e qop = Push 'e | Pop

fun pushed :: "'e qop list \<Rightarrow> 'e list" where
  "pushed [] = []"
| "pushed (Push x # ops) = x # pushed ops"
| "pushed (Pop # ops) = pushed ops"

fun fifo_run ::
  "('s \<Rightarrow> 'e \<Rightarrow> 's option) \<Rightarrow> ('s \<Rightarrow> 'e option \<times> 's) \<Rightarrow> 'e qop list \<Rightarrow> 's \<Rightarrow> ('e list \<times> 's) option" where
  "fifo_run enq deq [] s = Some ([], s)"
| "fifo_run enq deq (Push x # ops) s = Option.bind (enq s x) (fifo_run enq deq ops)"
| "fifo_run enq deq (Pop # ops) s =
     (case deq s of (r, s') \<Rightarrow>
        map_option (\<lambda>(out, t). ((case r of None \<Rightarrow> out | Some y \<Rightarrow> y # out), t))
          (fifo_run enq deq ops s'))"

locale spd_fifo =
  fixes enq :: "'s \<Rightarrow> 'e \<Rightarrow> 's option"
    and deq :: "'s \<Rightarrow> 'e option \<times> 's"
    and rep :: "'s \<Rightarrow> 'e list \<Rightarrow> bool"
    and fresh :: "'s \<Rightarrow> 'e \<Rightarrow> bool"
  assumes enq_rep: "rep s xs \<Longrightarrow> fresh s x \<Longrightarrow> x \<notin> set xs \<Longrightarrow> \<exists>s'. enq s x = Some s' \<and> rep s' (xs @ [x])"
    and enq_fresh: "rep s xs \<Longrightarrow> enq s x = Some s' \<Longrightarrow> y \<notin> set xs \<Longrightarrow> fresh s y \<Longrightarrow> fresh s' y"
    and deq_rep: "rep s xs \<Longrightarrow> rep (snd (deq s)) (tl xs)"
    and deq_ret: "rep s xs \<Longrightarrow> fst (deq s) = (if xs = [] then None else Some (hd xs))"
    and deq_fresh: "rep s xs \<Longrightarrow> fresh s y \<Longrightarrow> fresh (snd (deq s)) y"
begin

lemma fifo_run_order:
  assumes "rep s xs" "distinct (xs @ pushed ops)" "\<forall>x \<in> set (pushed ops). fresh s x"
  shows "\<exists>out rest t. fifo_run enq deq ops s = Some (out, t) \<and> rep t rest \<and> out @ rest = xs @ pushed ops"
  using assms
proof (induction ops arbitrary: s xs)
  case Nil
  then show ?case by auto
next
  case (Cons op ops)
  show ?case
  proof (cases op)
    case (Push x)
    with Cons.prems obtain s' where s': "enq s x = Some s'" "rep s' (xs @ [x])"
      using enq_rep [of s xs x] by auto
    have "\<forall>y \<in> set (pushed ops). fresh s' y"
      using Cons.prems Push enq_fresh [OF Cons.prems(1) s'(1)] by auto
    with Cons.IH [OF s'(2)] Cons.prems Push s' show ?thesis by auto
  next
    case Pop
    obtain r s' where d: "deq s = (r, s')" by (cases "deq s")
    with deq_rep [OF Cons.prems(1)] deq_ret [OF Cons.prems(1)]
    have s': "rep s' (tl xs)" and r: "r = (if xs = [] then None else Some (hd xs))" by auto
    have "distinct (tl xs @ pushed ops)" "\<forall>x \<in> set (pushed ops). fresh s' x"
      using Cons.prems Pop d deq_fresh [OF Cons.prems(1)] by (cases xs; auto)+
    from Cons.IH [OF s' this] obtain out rest t where
      "fifo_run enq deq ops s' = Some (out, t)" "rep t rest" "out @ rest = tl xs @ pushed ops"
      by blast
    with d r Pop show ?thesis by (cases xs) auto
  qed
qed

end

section \<open>Keyed hash tables\<close>

text \<open>
  What a hash container relies on: keys that compare equal have equal hashes. Then a search in
  the bucket of the key is a search in the whole table.
\<close>

locale spd_keyed =
  fixes hash :: "'k \<Rightarrow> int"
    and same :: "'k \<Rightarrow> 'k \<Rightarrow> bool"
  assumes same_hash: "same a b \<Longrightarrow> hash a = hash b"
    and same_refl: "same a a"
    and same_sym: "same a b \<Longrightarrow> same b a"
    and same_trans: "same a b \<Longrightarrow> same b c \<Longrightarrow> same a c"
begin

definition bucketed :: "(int \<Rightarrow> nat) \<Rightarrow> ('e \<Rightarrow> 'k) \<Rightarrow> 'e list list \<Rightarrow> bool" where
  "bucketed ix key bs \<longleftrightarrow> (\<forall>i < length bs. \<forall>e \<in> set (bs ! i). ix (hash (key e)) = i)"

lemma bucket_of_match:
  "bucketed ix key bs \<Longrightarrow> j < length bs \<Longrightarrow> e \<in> set (bs ! j) \<Longrightarrow> same (key e) k \<Longrightarrow> j = ix (hash k)"
  using same_hash [of "key e" k] unfolding bucketed_def by metis

lemma absent_everywhere:
  assumes "bucketed ix key bs" "\<forall>e \<in> set (bs ! ix (hash k)). \<not> same (key e) k"
  shows "\<forall>e \<in> set (concat bs). \<not> same (key e) k"
proof (intro ballI notI)
  fix e assume e: "e \<in> set (concat bs)" "same (key e) k"
  then obtain j where j: "j < length bs" "e \<in> set (bs ! j)" by (auto simp: in_set_conv_nth [of _ bs])
  from bucket_of_match [OF assms(1) j e(2)] j e(2) assms(2) show False by auto
qed

lemma same_class: "same a k \<Longrightarrow> same b k \<Longrightarrow> same a b"
  using same_sym same_trans by blast

end

section \<open>A lock\<close>

text \<open>
  \<open>acquire t m\<close> has a result when thread \<open>t\<close> gets the lock at once, \<open>release t m\<close> when it may give it back;
  \<open>holds m t\<close> is how many times \<open>t\<close> holds it. A lock may allow its holder to take it again or not.
\<close>

datatype lock_op = Acquire | Release

fun lock_run ::
  "(nat \<Rightarrow> 'm \<Rightarrow> 'm option) \<Rightarrow> (nat \<Rightarrow> 'm \<Rightarrow> 'm option) \<Rightarrow> (nat \<times> lock_op) list \<Rightarrow> 'm \<Rightarrow> 'm option" where
  "lock_run acq rel [] m = Some m"
| "lock_run acq rel ((t, Acquire) # ops) m = Option.bind (acq t m) (lock_run acq rel ops)"
| "lock_run acq rel ((t, Release) # ops) m = Option.bind (rel t m) (lock_run acq rel ops)"

text \<open>How many times a thread holds the lock after a run, from how many times it did before.\<close>

fun balance :: "nat \<Rightarrow> (nat \<times> lock_op) list \<Rightarrow> nat \<Rightarrow> nat" where
  "balance t [] n = n"
| "balance t ((u, Acquire) # ops) n = balance t ops (if u = t then n + 1 else n)"
| "balance t ((u, Release) # ops) n = balance t ops (if u = t then n - 1 else n)"

locale spd_lock =
  fixes acquire :: "nat \<Rightarrow> 'm \<Rightarrow> 'm option"
    and release :: "nat \<Rightarrow> 'm \<Rightarrow> 'm option"
    and holds :: "'m \<Rightarrow> nat \<Rightarrow> nat"
  assumes acquire_holds: "acquire t m = Some m' \<Longrightarrow> holds m' = (holds m)(t := Suc (holds m t))"
    and acquire_excl: "acquire t m = Some m' \<Longrightarrow> u \<noteq> t \<Longrightarrow> holds m u = 0"
    and release_holds: "release t m = Some m' \<Longrightarrow> holds m' = (holds m)(t := holds m t - 1)"
    and release_possible: "0 < holds m t \<Longrightarrow> \<exists>m'. release t m = Some m'"
begin

lemma run_balance: "lock_run acquire release ops m = Some m' \<Longrightarrow> holds m' t = balance t ops (holds m t)"
proof (induction ops arbitrary: m)
  case (Cons x ops)
  obtain u k where "x = (u, k)" by fastforce
  with Cons show ?case
    by (cases k) (auto simp: bind_Some_iff dest!: acquire_holds release_holds)
qed simp

lemma run_excludes:
  assumes "lock_run acquire release ops m = Some m'" "\<forall>a b. 0 < holds m a \<longrightarrow> 0 < holds m b \<longrightarrow> a = b"
  shows "\<forall>a b. 0 < holds m' a \<longrightarrow> 0 < holds m' b \<longrightarrow> a = b"
  using assms
proof (induction ops arbitrary: m)
  case (Cons x ops)
  obtain t k where x: "x = (t, k)" by fastforce
  obtain m1 where m1: "k = Acquire \<and> acquire t m = Some m1 \<or> k = Release \<and> release t m = Some m1"
      "lock_run acquire release ops m1 = Some m'"
    using Cons.prems(1) x by (cases k) (auto simp: bind_Some_iff)
  have "\<forall>a b. 0 < holds m1 a \<longrightarrow> 0 < holds m1 b \<longrightarrow> a = b"
    using m1(1)
  proof
    assume "k = Acquire \<and> acquire t m = Some m1"
    then have "holds m1 = (holds m)(t := Suc (holds m t))" "\<And>u. u \<noteq> t \<Longrightarrow> holds m u = 0"
      using acquire_holds acquire_excl by blast+
    then show ?thesis by (auto split: if_splits)
  next
    assume "k = Release \<and> release t m = Some m1"
    then have "holds m1 = (holds m)(t := holds m t - 1)" using release_holds by blast
    then have "\<And>a. 0 < holds m1 a \<Longrightarrow> 0 < holds m a" by (auto split: if_splits)
    then show ?thesis using Cons.prems(2) by blast
  qed
  then show ?case using Cons.IH [OF m1(2)] by blast
qed simp

end

text \<open>
  Threads that work on shared data under a lock: the events of all of them in the order in which they
  happen; a thread that has to wait has no event yet. Each thread keeps to the discipline that it trace_acts
  only between entering and leaving, and enters only from outside.
\<close>

datatype 'a guarded = Enter | Act 'a | Leave

fun guard_run ::
  "(nat \<Rightarrow> 'm \<Rightarrow> 'm option) \<Rightarrow> (nat \<Rightarrow> 'm \<Rightarrow> 'm option) \<Rightarrow> ('a \<Rightarrow> 's \<Rightarrow> 's option) \<Rightarrow>
   (nat \<times> 'a guarded) list \<Rightarrow> 'm \<Rightarrow> 's \<Rightarrow> ('m \<times> 's) option" where
  "guard_run acq rel apply [] m s = Some (m, s)"
| "guard_run acq rel apply ((t, Enter) # tr) m s = Option.bind (acq t m) (\<lambda>m. guard_run acq rel apply tr m s)"
| "guard_run acq rel apply ((t, Leave) # tr) m s = Option.bind (rel t m) (\<lambda>m. guard_run acq rel apply tr m s)"
| "guard_run acq rel apply ((t, Act a) # tr) m s = Option.bind (apply a s) (guard_run acq rel apply tr m)"

fun guard_inside :: "bool \<Rightarrow> 'a guarded list \<Rightarrow> bool option" where
  "guard_inside b [] = Some b"
| "guard_inside b (Enter # xs) = (if b then None else guard_inside True xs)"
| "guard_inside b (Act a # xs) = (if b then guard_inside b xs else None)"
| "guard_inside b (Leave # xs) = (if b then guard_inside False xs else None)"

definition events_of :: "nat \<Rightarrow> (nat \<times> 'a guarded) list \<Rightarrow> 'a guarded list" where
  "events_of t tr = map snd (filter (\<lambda>e. fst e = t) tr)"

definition guard_section :: "nat \<times> 'a list \<Rightarrow> (nat \<times> 'a guarded) list" where
  "guard_section s = (fst s, Enter) # map (\<lambda>a. (fst s, Act a)) (snd s) @ [(fst s, Leave)]"

lemma events_of_simps [simp]:
  "events_of t [] = []" "events_of t ((u, e) # tr) = (if u = t then e # events_of t tr else events_of t tr)"
  by (simp_all add: events_of_def)

fun trace_acts :: "(nat \<times> 'a guarded) list \<Rightarrow> 'a list" where
  "trace_acts [] = []"
| "trace_acts ((t, Act a) # tr) = a # trace_acts tr"
| "trace_acts (_ # tr) = trace_acts tr"

lemma trace_acts_append: "trace_acts (xs @ ys) = trace_acts xs @ trace_acts ys"
  by (induction xs rule: trace_acts.induct) auto

lemma trace_acts_sections: "trace_acts (concat (map guard_section ss)) = concat (map snd ss)"
proof -
  have "trace_acts (map (\<lambda>a. (t, Act a)) os) = os" for t and os :: "'a list" by (induction os) simp_all
  then show ?thesis by (induction ss) (simp_all add: guard_section_def trace_acts_append)
qed

context spd_lock
begin

text \<open>The holder \<open>h\<close> is guard_inside, everybody else is outside.\<close>

definition held_by :: "'m \<Rightarrow> nat option \<Rightarrow> bool" where
  "held_by m h \<longleftrightarrow> (\<forall>u. holds m u = (if h = Some u then 1 else 0))"

lemma guard_serial_from:
  assumes "guard_run acquire release apply tr m s = Some r" "held_by m h" "\<forall>t. guard_inside (h = Some t) (events_of t tr) = Some False"
  shows "case h of
       None \<Rightarrow> \<exists>ss. tr = concat (map guard_section ss)
     | Some t \<Rightarrow> \<exists>os ss. tr = map (\<lambda>a. (t, Act a)) os @ (t, Leave) # concat (map guard_section ss)"
  using assms
proof (induction tr arbitrary: m s h)
  case Nil
  then show ?case by (cases h) (auto intro: exI [of _ "[]"])
next
  case (Cons x tr)
  obtain t e where x: "x = (t, e)" by fastforce
  have d: "guard_inside (h = Some t) (e # events_of t tr) = Some False" "\<And>u. u \<noteq> t \<Longrightarrow> guard_inside (h = Some u) (events_of u tr) = Some False"
    using Cons.prems(3) x by (auto dest: spec [of _ t]) (metis (full_types))
  show ?case
  proof (cases e)
    case Enter
    then obtain m1 where m1: "acquire t m = Some m1" "guard_run acquire release apply tr m1 s = Some r"
      using Cons.prems(1) x by (auto simp: bind_Some_iff)
    have "h \<noteq> Some t" "guard_inside True (events_of t tr) = Some False" using d(1) Enter by (auto split: if_splits)
    then have h: "h = None" using acquire_excl [OF m1(1)] Cons.prems(2) by (cases h) (fastforce simp: held_by_def)+
    have "held_by m1 (Some t)" using acquire_holds [OF m1(1)] Cons.prems(2) h by (simp add: held_by_def)
    moreover have "\<forall>u. guard_inside (Some t = Some u) (events_of u tr) = Some False"
      using d(2) h \<open>guard_inside True (events_of t tr) = Some False\<close> by (metis (full_types) option.distinct(1) option.inject)
    ultimately obtain os ss where "tr = map (\<lambda>a. (t, Act a)) os @ (t, Leave) # concat (map guard_section ss)"
      using Cons.IH [OF m1(2)] by fastforce
    then have "x # tr = concat (map guard_section ((t, os) # ss))" using x Enter by (simp add: guard_section_def)
    then show ?thesis using h by (simp only: option.case) blast
  next
    case Leave
    then obtain m1 where m1: "release t m = Some m1" "guard_run acquire release apply tr m1 s = Some r"
      using Cons.prems(1) x by (auto simp: bind_Some_iff)
    have h: "h = Some t" "guard_inside False (events_of t tr) = Some False" using d(1) Leave by (auto split: if_splits)
    have "held_by m1 None" using release_holds [OF m1(1)] Cons.prems(2) h(1) by (simp add: held_by_def)
    from Cons.IH [OF m1(2) this] obtain ss where "tr = concat (map guard_section ss)" using d(2) h by fastforce
    then have "x # tr = map (\<lambda>a. (t, Act a)) [] @ (t, Leave) # concat (map guard_section ss)" using x Leave by simp
    then show ?thesis using h(1) by (simp only: option.case) blast
  next
    case (Act a)
    then obtain s1 where s1: "guard_run acquire release apply tr m s1 = Some r"
      using Cons.prems(1) x by (auto simp: bind_Some_iff)
    have h: "h = Some t" "guard_inside True (events_of t tr) = Some False" using d(1) Act by (auto split: if_splits)
    have "\<forall>u. guard_inside (h = Some u) (events_of u tr) = Some False" using d(2) h by (metis (full_types))
    from Cons.IH [OF s1 Cons.prems(2) this] h(1) obtain os ss where
      "tr = map (\<lambda>a. (t, Act a)) os @ (t, Leave) # concat (map guard_section ss)" by auto
    then have "x # tr = map (\<lambda>a. (t, Act a)) (a # os) @ (t, Leave) # concat (map guard_section ss)" using x Act by simp
    then show ?thesis using h(1) by (simp only: option.case) blast
  qed
qed

lemma guard_serial:
  assumes "guard_run acquire release apply tr m s = Some r" "\<forall>u. holds m u = 0" "\<forall>t. guard_inside False (events_of t tr) = Some False"
  shows "\<exists>ss. tr = concat (map guard_section ss)"
  using guard_serial_from [OF assms(1), of None] assms(2, 3) by (simp add: held_by_def)

end

text \<open>A lock that can also be tried: the attempt succeeds exactly if the lock can be had at once.\<close>

locale spd_try_lock = spd_lock acquire release holds
  for acquire :: "nat \<Rightarrow> 'm \<Rightarrow> 'm option" and release holds +
  fixes attempt :: "nat \<Rightarrow> 'm \<Rightarrow> bool \<times> 'm"
  assumes attempt_result: "attempt t m = (case acquire t m of None \<Rightarrow> (False, m) | Some m' \<Rightarrow> (True, m'))"
begin

lemma attempt_excludes: "attempt t m = (True, m') \<Longrightarrow> u \<noteq> t \<Longrightarrow> holds m' u = 0"
  using acquire_excl acquire_holds by (fastforce simp: attempt_result split: option.splits)

end

section \<open>A store\<close>

text \<open>
  Values under keys: \<open>rep s m\<close> says that the state \<open>s\<close> stands for the map \<open>m\<close>, as far as keys and values
  are ones that the store takes.
\<close>

datatype ('k, 'v) store_op = Get 'k | Put 'k 'v | Del 'k

fun store_run ::
  "('s \<Rightarrow> 'k \<Rightarrow> 'v option) \<Rightarrow> ('s \<Rightarrow> 'k \<Rightarrow> 'v \<Rightarrow> 's option) \<Rightarrow> ('s \<Rightarrow> 'k \<Rightarrow> 's option) \<Rightarrow>
   ('k, 'v) store_op list \<Rightarrow> 's \<Rightarrow> ('v option list \<times> 's) option" where
  "store_run get put del [] s = Some ([], s)"
| "store_run get put del (Get k # ops) s = map_option (\<lambda>(out, t). (get s k # out, t)) (store_run get put del ops s)"
| "store_run get put del (Put k v # ops) s = Option.bind (put s k v) (store_run get put del ops)"
| "store_run get put del (Del k # ops) s = Option.bind (del s k) (store_run get put del ops)"

fun map_run :: "('k, 'v) store_op list \<Rightarrow> ('k \<rightharpoonup> 'v) \<Rightarrow> 'v option list \<times> ('k \<rightharpoonup> 'v)" where
  "map_run [] m = ([], m)"
| "map_run (Get k # ops) m = (case map_run ops m of (out, m') \<Rightarrow> (m k # out, m'))"
| "map_run (Put k v # ops) m = map_run ops (m(k \<mapsto> v))"
| "map_run (Del k # ops) m = map_run ops (m(k := None))"

fun op_ok :: "('k \<Rightarrow> bool) \<Rightarrow> ('v \<Rightarrow> bool) \<Rightarrow> ('k, 'v) store_op \<Rightarrow> bool" where
  "op_ok kok vok (Get k) \<longleftrightarrow> kok k"
| "op_ok kok vok (Put k v) \<longleftrightarrow> kok k \<and> vok v"
| "op_ok kok vok (Del k) \<longleftrightarrow> kok k"

locale spd_store =
  fixes get :: "'s \<Rightarrow> 'k \<Rightarrow> 'v option"
    and put :: "'s \<Rightarrow> 'k \<Rightarrow> 'v \<Rightarrow> 's option"
    and del :: "'s \<Rightarrow> 'k \<Rightarrow> 's option"
    and rep :: "'s \<Rightarrow> ('k \<rightharpoonup> 'v) \<Rightarrow> bool"
    and key_ok :: "'k \<Rightarrow> bool"
    and val_ok :: "'v \<Rightarrow> bool"
  assumes get_rep: "rep s m \<Longrightarrow> key_ok k \<Longrightarrow> get s k = m k"
    and put_rep: "rep s m \<Longrightarrow> key_ok k \<Longrightarrow> val_ok v \<Longrightarrow> put s k v = Some s' \<Longrightarrow> rep s' (m(k \<mapsto> v))"
    and del_rep: "rep s m \<Longrightarrow> key_ok k \<Longrightarrow> del s k = Some s' \<Longrightarrow> rep s' (m(k := None))"
begin

text \<open>A run of operations gives the answers of the map.\<close>

lemma run_refines:
  "rep s m \<Longrightarrow> list_all (op_ok key_ok val_ok) ops \<Longrightarrow> store_run get put del ops s = Some (out, s') \<Longrightarrow>
   out = fst (map_run ops m) \<and> rep s' (snd (map_run ops m))"
proof (induction ops arbitrary: s m out)
  case (Cons x ops)
  show ?case
  proof (cases x)
    case (Get k)
    then obtain out1 where o: "store_run get put del ops s = Some (out1, s')" "out = get s k # out1"
      using Cons.prems(3) by auto
    then show ?thesis using Cons.IH [OF Cons.prems(1) _ o(1)] Cons.prems(1, 2) Get get_rep
      by (auto split: prod.splits)
  next
    case (Put k v)
    then obtain s1 where s1: "put s k v = Some s1" "store_run get put del ops s1 = Some (out, s')"
      using Cons.prems(3) by (auto simp: bind_Some_iff)
    have ok: "key_ok k" "val_ok v" "list_all (op_ok key_ok val_ok) ops" using Cons.prems(2) Put by auto
    show ?thesis using Cons.IH [OF put_rep [OF Cons.prems(1) ok(1, 2) s1(1)] ok(3) s1(2)] unfolding Put map_run.simps .
  next
    case (Del k)
    then obtain s1 where s1: "del s k = Some s1" "store_run get put del ops s1 = Some (out, s')"
      using Cons.prems(3) by (auto simp: bind_Some_iff)
    have ok: "key_ok k" "list_all (op_ok key_ok val_ok) ops" using Cons.prems(2) Del by auto
    show ?thesis using Cons.IH [OF del_rep [OF Cons.prems(1) ok(1) s1(1)] ok(2) s1(2)] unfolding Del map_run.simps .
  qed
qed simp

end

end
