(* ===== verification/Spd_LinkedList.thy ===== *)
theory Spd_LinkedList
  imports Spd_CString Spd_Interfaces
begin

text \<open>
  The intrusive, singly linked lists of \<open>src/linkedlist.h\<close>, at the level of pointers: a head
  with a \<open>first\<close> and a \<open>last\<close> pointer, and a store that gives the \<open>next\<close> link of every entry.
  Each macro is one definition that performs the assignments of the macro in their order.
  Loops over links are \<open>partial_function (option)\<close>: on a cyclic chain they have no result.
  The lemmas relate every macro to the operation on HOL lists that it is meant to be.
\<close>

section \<open>Heads and links\<close>

record lhead =
  lh_first :: "addr option"
  lh_last :: "addr option"

type_synonym links = "addr \<Rightarrow> addr option"

definition SPD_LIST_HEAD_INIT :: lhead where
  "SPD_LIST_HEAD_INIT = \<lparr>lh_first = None, lh_last = None\<rparr>"

definition SPD_LIST_HEAD_SET :: "addr option \<Rightarrow> lhead" where
  "SPD_LIST_HEAD_SET entry = \<lparr>lh_first = entry, lh_last = entry\<rparr>"

definition SPD_LIST_EMPTY :: "lhead \<Rightarrow> bool" where
  "SPD_LIST_EMPTY h = (lh_first h = None)"

section \<open>Insertion\<close>

definition SPD_LIST_INSERT_AFTER :: "lhead \<Rightarrow> links \<Rightarrow> addr \<Rightarrow> addr \<Rightarrow> lhead \<times> links" where
  "SPD_LIST_INSERT_AFTER h nx cur nextel =
     (let nx1 = nx(nextel := nx cur);
          nx2 = nx1(cur := Some nextel);
          h1 = (if lh_last h = Some cur then h\<lparr>lh_last := Some nextel\<rparr> else h)
      in (h1, nx2))"

definition SPD_LIST_INSERT_HEAD :: "lhead \<Rightarrow> links \<Rightarrow> addr \<Rightarrow> lhead \<times> links" where
  "SPD_LIST_INSERT_HEAD h nx cur =
     (let nx1 = nx(cur := lh_first h);
          h1 = h\<lparr>lh_first := Some cur\<rparr>;
          h2 = (if lh_last h1 = None then h1\<lparr>lh_last := Some cur\<rparr> else h1)
      in (h2, nx1))"

text \<open>The else branch follows \<open>head->last\<close>, which must not be \<open>NULL\<close>.\<close>

definition SPD_LIST_INSERT_TAIL :: "lhead \<Rightarrow> links \<Rightarrow> addr \<Rightarrow> (lhead \<times> links) option" where
  "SPD_LIST_INSERT_TAIL h nx cur =
     (if lh_first h = None then Some (\<lparr>lh_first = Some cur, lh_last = Some cur\<rparr>, nx)
      else case lh_last h of
             None \<Rightarrow> None
           | Some l \<Rightarrow> Some (h\<lparr>lh_last := Some cur\<rparr>, nx(l := Some cur)))"

text \<open>
  The alphabetical insertion: \<open>key\<close> is the \<open>sortfield\<close> of an entry. The scan is the
  \<open>while\<close> loop of the macro; it returns the final \<open>cur\<close> and \<open>prev\<close>.
\<close>

partial_function (option) sortalpha_scan ::
  "links \<Rightarrow> (addr \<Rightarrow> string) \<Rightarrow> addr \<Rightarrow> addr option \<Rightarrow> addr option
     \<Rightarrow> (addr option \<times> addr option) option" where
  "sortalpha_scan nx key elm cur prev =
     (case cur of
        None \<Rightarrow> Some (None, prev)
      | Some c \<Rightarrow>
          if strcmp (key c) (key elm) < 0 then sortalpha_scan nx key elm (nx c) (Some c)
          else Some (cur, prev))"

definition SPD_LIST_INSERT_SORTALPHA ::
  "lhead \<Rightarrow> links \<Rightarrow> (addr \<Rightarrow> string) \<Rightarrow> addr \<Rightarrow> (lhead \<times> links) option" where
  "SPD_LIST_INSERT_SORTALPHA h nx key elm =
     (if lh_first h = None then Some (\<lparr>lh_first = Some elm, lh_last = Some elm\<rparr>, nx)
      else case sortalpha_scan nx key elm (lh_first h) None of
             None \<Rightarrow> None
           | Some (cur, prev) \<Rightarrow>
               (case prev of
                  None \<Rightarrow> Some (SPD_LIST_INSERT_HEAD h nx elm)
                | Some p \<Rightarrow>
                    if cur = None then SPD_LIST_INSERT_TAIL h nx elm
                    else Some (SPD_LIST_INSERT_AFTER h nx p elm)))"

text \<open>Whole lists: the result is the changed head, the changed (emptied) source head, the links.\<close>

definition SPD_LIST_APPEND_LIST :: "lhead \<Rightarrow> lhead \<Rightarrow> links \<Rightarrow> (lhead \<times> lhead \<times> links) option" where
  "SPD_LIST_APPEND_LIST h lst nx =
     (if lh_first lst = None then Some (h, lst, nx)
      else if lh_first h = None
      then Some (\<lparr>lh_first = lh_first lst, lh_last = lh_last lst\<rparr>, SPD_LIST_HEAD_INIT, nx)
      else case lh_last h of
             None \<Rightarrow> None
           | Some l \<Rightarrow> Some (h\<lparr>lh_last := lh_last lst\<rparr>, SPD_LIST_HEAD_INIT, nx(l := lh_first lst)))"

definition SPD_LIST_INSERT_LIST_AFTER ::
  "lhead \<Rightarrow> lhead \<Rightarrow> links \<Rightarrow> addr \<Rightarrow> (lhead \<times> lhead \<times> links) option" where
  "SPD_LIST_INSERT_LIST_AFTER h lst nx elm =
     (case lh_last lst of
        None \<Rightarrow> None
      | Some l \<Rightarrow>
          (let nx1 = nx(l := nx elm);
               nx2 = nx1(elm := lh_first lst);
               h1 = (if lh_last h = Some elm then h\<lparr>lh_last := lh_last lst\<rparr> else h)
           in Some (h1, SPD_LIST_HEAD_INIT, nx2)))"

section \<open>Removal\<close>

definition SPD_LIST_REMOVE_HEAD :: "lhead \<Rightarrow> links \<Rightarrow> addr option \<times> lhead \<times> links" where
  "SPD_LIST_REMOVE_HEAD h nx =
     (case lh_first h of
        None \<Rightarrow> (None, h, nx)
      | Some c \<Rightarrow>
          (let h1 = h\<lparr>lh_first := nx c\<rparr>;
               nx1 = nx(c := None);
               h2 = (if lh_last h1 = Some c then h1\<lparr>lh_last := None\<rparr> else h1)
           in (Some c, h2, nx1)))"

partial_function (option) remove_scan :: "links \<Rightarrow> addr \<Rightarrow> addr option \<Rightarrow> addr option option" where
  "remove_scan nx elm curelm =
     (case curelm of
        None \<Rightarrow> Some None
      | Some c \<Rightarrow> if nx c \<noteq> Some elm then remove_scan nx elm (nx c) else Some (Some c))"

definition SPD_LIST_REMOVE :: "lhead \<Rightarrow> links \<Rightarrow> addr \<Rightarrow> (addr option \<times> lhead \<times> links) option" where
  "SPD_LIST_REMOVE h nx elm =
     (if lh_first h = Some elm then
        (let h1 = h\<lparr>lh_first := nx elm\<rparr>;
             h2 = (if lh_last h1 = Some elm then h1\<lparr>lh_last := None\<rparr> else h1)
         in Some (Some elm, h2, nx(elm := None)))
      else case remove_scan nx elm (lh_first h) of
             None \<Rightarrow> None
           | Some None \<Rightarrow> Some (None, h, nx(elm := None))
           | Some (Some c) \<Rightarrow>
               (let nx1 = nx(c := nx elm);
                    h1 = (if lh_last h = Some elm then h\<lparr>lh_last := Some c\<rparr> else h)
                in Some (Some elm, h1, nx1(elm := None))))"

section \<open>Traversal\<close>

text \<open>\<open>SPD_LIST_TRAVERSE\<close>: the entries in the order the loop visits them.\<close>

partial_function (option) SPD_LIST_TRAVERSE :: "links \<Rightarrow> addr option \<Rightarrow> addr list option" where
  "SPD_LIST_TRAVERSE nx cur =
     (case cur of
        None \<Rightarrow> Some []
      | Some c \<Rightarrow> Option.bind (SPD_LIST_TRAVERSE nx (nx c)) (\<lambda>xs. Some (c # xs)))"

text \<open>
  The safe traversal keeps four variables: \<open>cur\<close>, \<open>__list_next\<close>, \<open>__list_prev\<close> and
  \<open>__new_prev\<close>.
\<close>

record safe_iter =
  si_cur :: "addr option"
  si_next :: "addr option"
  si_prev :: "addr option"
  si_new_prev :: "addr option"

definition SPD_LIST_TRAVERSE_SAFE_BEGIN :: "lhead \<Rightarrow> links \<Rightarrow> safe_iter" where
  "SPD_LIST_TRAVERSE_SAFE_BEGIN h nx =
     \<lparr>si_cur = lh_first h,
      si_next = (case lh_first h of None \<Rightarrow> None | Some c \<Rightarrow> nx c),
      si_prev = None,
      si_new_prev = lh_first h\<rparr>"

definition safe_advance :: "links \<Rightarrow> safe_iter \<Rightarrow> safe_iter" where
  "safe_advance nx it =
     \<lparr>si_cur = si_next it,
      si_next = (case si_next it of None \<Rightarrow> None | Some c \<Rightarrow> nx c),
      si_prev = si_new_prev it,
      si_new_prev = si_next it\<rparr>"

definition SPD_LIST_REMOVE_CURRENT ::
  "lhead \<Rightarrow> links \<Rightarrow> safe_iter \<Rightarrow> (lhead \<times> links \<times> safe_iter) option" where
  "SPD_LIST_REMOVE_CURRENT h nx it =
     (case si_new_prev it of
        None \<Rightarrow> None
      | Some np \<Rightarrow>
          (let nx1 = nx(np := None);
               it1 = it\<lparr>si_new_prev := si_prev it\<rparr>;
               (h2, nx2) = (case si_prev it of
                               Some p \<Rightarrow> (h, nx1(p := si_next it))
                             | None \<Rightarrow> (h\<lparr>lh_first := si_next it\<rparr>, nx1));
               h3 = (if si_next it = None then h2\<lparr>lh_last := si_prev it\<rparr> else h2)
           in Some (h3, nx2, it1)))"

text \<open>
  The entry goes to the end of another list, with the head \<open>t\<close>. (In the source the name of the entry
  is misspelt and the removal lacks its head; no file uses the macro.)
\<close>

definition SPD_LIST_MOVE_CURRENT ::
  "lhead \<Rightarrow> lhead \<Rightarrow> links \<Rightarrow> safe_iter \<Rightarrow> (lhead \<times> lhead \<times> links \<times> safe_iter) option" where
  "SPD_LIST_MOVE_CURRENT h t nx it =
     (case si_new_prev it of
        None \<Rightarrow> None
      | Some list_cur \<Rightarrow>
          (case SPD_LIST_REMOVE_CURRENT h nx it of
             None \<Rightarrow> None
           | Some (h, nx, it) \<Rightarrow> map_option (\<lambda>(t, nx). (h, t, nx, it)) (SPD_LIST_INSERT_TAIL t nx list_cur)))"

definition SPD_LIST_INSERT_BEFORE_CURRENT ::
  "lhead \<Rightarrow> links \<Rightarrow> safe_iter \<Rightarrow> addr \<Rightarrow> lhead \<times> links \<times> safe_iter" where
  "SPD_LIST_INSERT_BEFORE_CURRENT h nx it elm =
     (case si_prev it of
        Some p \<Rightarrow> (h, (nx(elm := nx p))(p := Some elm), it\<lparr>si_prev := Some elm\<rparr>)
      | None \<Rightarrow> (h\<lparr>lh_first := Some elm\<rparr>, nx(elm := lh_first h), it\<lparr>si_prev := Some elm\<rparr>))"

text \<open>
  The two idioms in which the sources use the safe traversal: remove the first entry that
  satisfies a test and stop, and insert an entry before the first one that satisfies a test
  or, when there is none, at the tail.
\<close>

partial_function (option) remove_first_loop ::
  "lhead \<Rightarrow> links \<Rightarrow> (addr \<Rightarrow> bool) \<Rightarrow> safe_iter \<Rightarrow> (addr option \<times> lhead \<times> links) option" where
  "remove_first_loop h nx P it =
     (case si_cur it of
        None \<Rightarrow> Some (None, h, nx)
      | Some c \<Rightarrow>
          if P c
          then (case SPD_LIST_REMOVE_CURRENT h nx it of
                  None \<Rightarrow> None
                | Some (h', nx', _) \<Rightarrow> Some (Some c, h', nx'))
          else remove_first_loop h nx P (safe_advance nx it))"

definition list_remove_first ::
  "lhead \<Rightarrow> links \<Rightarrow> (addr \<Rightarrow> bool) \<Rightarrow> (addr option \<times> lhead \<times> links) option" where
  "list_remove_first h nx P = remove_first_loop h nx P (SPD_LIST_TRAVERSE_SAFE_BEGIN h nx)"

partial_function (option) insert_before_loop ::
  "lhead \<Rightarrow> links \<Rightarrow> (addr \<Rightarrow> bool) \<Rightarrow> addr \<Rightarrow> safe_iter \<Rightarrow> (lhead \<times> links) option" where
  "insert_before_loop h nx P elm it =
     (case si_cur it of
        None \<Rightarrow> SPD_LIST_INSERT_TAIL h nx elm
      | Some c \<Rightarrow>
          if P c
          then (case SPD_LIST_INSERT_BEFORE_CURRENT h nx it elm of (h', nx', _) \<Rightarrow> Some (h', nx'))
          else insert_before_loop h nx P elm (safe_advance nx it))"

definition list_insert_before ::
  "lhead \<Rightarrow> links \<Rightarrow> (addr \<Rightarrow> bool) \<Rightarrow> addr \<Rightarrow> (lhead \<times> links) option" where
  "list_insert_before h nx P elm =
     insert_before_loop h nx P elm (SPD_LIST_TRAVERSE_SAFE_BEGIN h nx)"

section \<open>Chains\<close>

fun path :: "links \<Rightarrow> addr option \<Rightarrow> addr list \<Rightarrow> addr option \<Rightarrow> bool" where
  "path nx p [] q \<longleftrightarrow> p = q"
| "path nx p (x # xs) q \<longleftrightarrow> p = Some x \<and> path nx (nx x) xs q"

definition is_list :: "lhead \<Rightarrow> links \<Rightarrow> addr list \<Rightarrow> bool" where
  "is_list h nx xs \<longleftrightarrow>
     path nx (lh_first h) xs None \<and> lh_last h = (if xs = [] then None else Some (last xs))"

lemma path_append: "path nx p (xs @ ys) q \<longleftrightarrow> (\<exists>r. path nx p xs r \<and> path nx r ys q)"
  by (induction xs arbitrary: p) auto

lemma path_upd [simp]: "x \<notin> set xs \<Longrightarrow> path (nx(x := v)) p xs q = path nx p xs q"
  by (induction xs arbitrary: p) auto

lemma path_unique: "path nx p xs None \<Longrightarrow> path nx p ys None \<Longrightarrow> xs = ys"
proof (induction xs arbitrary: p ys)
  case Nil
  then show ?case by (cases ys) auto
next
  case (Cons x xs)
  then show ?case by (cases ys) auto
qed

lemma path_None_iff [simp]: "path nx None xs q \<longleftrightarrow> xs = [] \<and> q = None"
  by (cases xs) auto

lemma path_tail_notin: "path nx (nx x) xs None \<Longrightarrow> x \<notin> set xs"
proof
  assume p: "path nx (nx x) xs None" and "x \<in> set xs"
  then obtain us vs where xs: "xs = us @ x # vs" by (auto simp: in_set_conv_decomp)
  with p have "path nx (nx x) vs None" by (auto simp: path_append)
  from path_unique [OF p this] xs show False by simp
qed

lemma path_distinct: "path nx p xs None \<Longrightarrow> distinct xs"
  by (induction xs arbitrary: p) (auto dest: path_tail_notin)

lemma path_last_next: "path nx p xs None \<Longrightarrow> xs \<noteq> [] \<Longrightarrow> nx (last xs) = None"
  by (induction xs arbitrary: p) auto

lemma path_snocI: "path nx p xs (Some x) \<Longrightarrow> nx x = q \<Longrightarrow> path nx p (xs @ [x]) q"
  by (simp add: path_append)

text \<open>The link that leads into the rest of a chain can be redirected.\<close>

lemma path_redirect:
  assumes "path nx p xs r" "xs \<noteq> []" "distinct xs"
  shows "path (nx(last xs := q)) p xs q"
  using assms
proof (induction xs arbitrary: p)
  case (Cons x xs)
  then show ?case by (cases "xs = []") auto
qed simp

lemma is_list_distinct: "is_list h nx xs \<Longrightarrow> distinct xs"
  by (auto simp: is_list_def dest: path_distinct)

lemma is_list_unique: "is_list h nx xs \<Longrightarrow> is_list h nx ys \<Longrightarrow> xs = ys"
  by (auto simp: is_list_def dest: path_unique)

lemma is_list_frame: "is_list h nx xs \<Longrightarrow> x \<notin> set xs \<Longrightarrow> is_list h (nx(x := v)) xs"
  by (simp add: is_list_def)

lemma is_list_first: "is_list h nx xs \<Longrightarrow> lh_first h = (case xs of [] \<Rightarrow> None | x # _ \<Rightarrow> Some x)"
  by (cases xs) (auto simp: is_list_def)

lemma is_list_Nil: "is_list h nx [] \<longleftrightarrow> lh_first h = None \<and> lh_last h = None"
  by (auto simp: is_list_def)

lemma is_list_middle:
  assumes "is_list h nx (us @ x # vs)"
  shows "path nx (lh_first h) us (Some x)" "path nx (nx x) vs None"
  using assms by (auto simp: is_list_def path_append)

lemma is_list_empty: "is_list h nx xs \<Longrightarrow> SPD_LIST_EMPTY h \<longleftrightarrow> xs = []"
  by (cases xs) (auto simp: is_list_def SPD_LIST_EMPTY_def)

lemma list_head_init: "is_list SPD_LIST_HEAD_INIT nx []"
  by (simp add: is_list_Nil SPD_LIST_HEAD_INIT_def)

lemma list_head_set: "nx e = None \<Longrightarrow> is_list (SPD_LIST_HEAD_SET (Some e)) nx [e]"
  by (simp add: is_list_def SPD_LIST_HEAD_SET_def)

section \<open>Insertion macros insert\<close>

lemma insert_head_list:
  assumes "is_list h nx xs" "x \<notin> set xs"
  shows "case SPD_LIST_INSERT_HEAD h nx x of (h', nx') \<Rightarrow> is_list h' nx' (x # xs)"
  using assms by (auto simp: SPD_LIST_INSERT_HEAD_def is_list_def Let_def)

lemma insert_tail_list:
  assumes l: "is_list h nx xs" and x: "x \<notin> set xs" "nx x = None"
  shows "\<exists>h' nx'. SPD_LIST_INSERT_TAIL h nx x = Some (h', nx') \<and> is_list h' nx' (xs @ [x])
           \<and> (\<forall>y. y \<notin> set xs \<longrightarrow> nx' y = nx y)"
proof (cases "xs = []")
  case True
  with l x show ?thesis
    by (auto simp: SPD_LIST_INSERT_TAIL_def is_list_def)
next
  case False
  with l have f: "lh_first h \<noteq> None" "lh_last h = Some (last xs)"
    by (auto simp: is_list_def neq_Nil_conv)
  have "path (nx(last xs := Some x)) (lh_first h) xs (Some x)"
    using l False by (intro path_redirect) (auto simp: is_list_def dest: path_distinct)
  moreover have "x \<noteq> last xs" using x(1) False by auto
  ultimately have "path (nx(last xs := Some x)) (lh_first h) (xs @ [x]) None"
    using x(2) by (auto simp: path_append)
  with f False show ?thesis
    by (auto simp: SPD_LIST_INSERT_TAIL_def is_list_def)
qed

lemma insert_after_list:
  assumes l: "is_list h nx (us @ c # vs)" and x: "x \<notin> set (us @ c # vs)"
  shows "case SPD_LIST_INSERT_AFTER h nx c x of (h', nx') \<Rightarrow> is_list h' nx' (us @ c # x # vs)"
proof -
  have d: "distinct (us @ c # vs)" using l by (rule is_list_distinct)
  have p: "path nx (lh_first h) us (Some c)" "path nx (nx c) vs None"
    using is_list_middle [OF l] by auto
  let ?nx = "nx(x := nx c, c := Some x)"
  have "path ?nx (lh_first h) us (Some c)" "path ?nx (nx c) vs None"
    using p d x by auto
  then have "path ?nx (lh_first h) (us @ c # x # vs) None"
    using x by (auto simp: path_append)
  moreover have "lh_last h = Some c \<longleftrightarrow> vs = []"
    using l d by (auto simp: is_list_def)
  ultimately show ?thesis
    using l by (auto simp: SPD_LIST_INSERT_AFTER_def is_list_def Let_def)
qed

lemma sortalpha_scan_path:
  assumes "path nx cur xs None"
  shows "sortalpha_scan nx key e cur prev =
     Some (case dropWhile (\<lambda>y. strcmp (key y) (key e) < 0) xs of [] \<Rightarrow> None | y # _ \<Rightarrow> Some y,
           case takeWhile (\<lambda>y. strcmp (key y) (key e) < 0) xs of
             [] \<Rightarrow> prev | y # ys \<Rightarrow> Some (last (y # ys)))"
  using assms
proof (induction xs arbitrary: cur prev)
  case Nil
  then show ?case by (subst sortalpha_scan.simps) simp
next
  case (Cons x xs)
  then have c: "cur = Some x" and p: "path nx (nx x) xs None" by auto
  show ?case
  proof (cases "strcmp (key x) (key e) < 0")
    case True
    with c Cons.IH [OF p, of "Some x"] show ?thesis
      by (subst sortalpha_scan.simps) (auto split: list.splits)
  next
    case False
    with c show ?thesis by (subst sortalpha_scan.simps) simp
  qed
qed

lemma insert_sortalpha_list:
  assumes l: "is_list h nx xs" and x: "x \<notin> set xs" "nx x = None"
    and lt: "lt = (\<lambda>y. strcmp (key y) (key x) < 0)"
  shows "\<exists>h' nx'. SPD_LIST_INSERT_SORTALPHA h nx key x = Some (h', nx') \<and>
           is_list h' nx' (takeWhile lt xs @ x # dropWhile lt xs)"
proof (cases "xs = []")
  case True
  with l x show ?thesis by (auto simp: SPD_LIST_INSERT_SORTALPHA_def is_list_def)
next
  case False
  with l have f: "lh_first h \<noteq> None" by (auto simp: is_list_def neq_Nil_conv)
  have sc: "sortalpha_scan nx key x (lh_first h) None =
     Some (case dropWhile lt xs of [] \<Rightarrow> None | y # _ \<Rightarrow> Some y,
           case takeWhile lt xs of [] \<Rightarrow> None | y # ys \<Rightarrow> Some (last (y # ys)))"
    using sortalpha_scan_path [of nx "lh_first h" xs key x None] l by (simp add: is_list_def lt)
  show ?thesis
  proof (cases "takeWhile lt xs = []")
    case True
    then have "dropWhile lt xs = xs" by (metis append_Nil takeWhile_dropWhile_id)
    with True sc f insert_head_list [OF l x(1)] show ?thesis
      by (auto simp: SPD_LIST_INSERT_SORTALPHA_def split: prod.splits)
  next
    case tw: False
    then obtain us c where us: "takeWhile lt xs = us @ [c]" by (metis rev_exhaust)
    then have prev: "(case takeWhile lt xs of [] \<Rightarrow> None | y # ys \<Rightarrow> Some (last (y # ys))) = Some c"
      by (cases us) auto
    show ?thesis
    proof (cases "dropWhile lt xs = []")
      case True
      then have tw: "takeWhile lt xs = xs" by (metis append_Nil2 takeWhile_dropWhile_id)
      from sc True have "sortalpha_scan nx key x (lh_first h) None = Some (None, Some c)"
        unfolding prev by simp
      with f insert_tail_list [OF l x] show ?thesis
        unfolding tw True by (auto simp: SPD_LIST_INSERT_SORTALPHA_def)
    next
      case dw: False
      have xs: "xs = us @ c # dropWhile lt xs"
        using takeWhile_dropWhile_id [of lt xs] us by simp
      have "case SPD_LIST_INSERT_AFTER h nx c x of (h', nx') \<Rightarrow>
              is_list h' nx' (us @ c # x # dropWhile lt xs)"
        using insert_after_list [of h nx us c "dropWhile lt xs" x] l x(1) xs by metis
      moreover obtain y ys where y: "dropWhile lt xs = y # ys" using dw by (cases "dropWhile lt xs") auto
      with sc have "sortalpha_scan nx key x (lh_first h) None = Some (Some y, Some c)"
        unfolding prev by simp
      ultimately show ?thesis
        using f us by (auto simp: SPD_LIST_INSERT_SORTALPHA_def split: prod.splits)
    qed
  qed
qed

section \<open>Whole-list macros append and splice\<close>

lemma append_list_list:
  assumes h: "is_list h nx xs" and l: "is_list lst nx ys" and d: "set xs \<inter> set ys = {}"
  shows "\<exists>h' nx'. SPD_LIST_APPEND_LIST h lst nx = Some (h', SPD_LIST_HEAD_INIT, nx') \<and>
           is_list h' nx' (xs @ ys)"
proof (cases "xs = [] \<or> ys = []")
  case True
  with h l show ?thesis
    by (cases ys) (auto simp: SPD_LIST_APPEND_LIST_def SPD_LIST_HEAD_INIT_def is_list_def)
next
  case False
  with h l have f: "lh_first h \<noteq> None" "lh_last h = Some (last xs)" "lh_first lst \<noteq> None"
    by (auto simp: is_list_def neq_Nil_conv)
  let ?nx = "nx(last xs := lh_first lst)"
  have "path ?nx (lh_first h) xs (lh_first lst)"
    using h False by (intro path_redirect) (auto simp: is_list_def dest: path_distinct)
  moreover have "last xs \<in> set xs" using False by simp
  with d have "last xs \<notin> set ys" by blast
  then have "path ?nx (lh_first lst) ys None" using l by (simp add: is_list_def)
  ultimately have "path ?nx (lh_first h) (xs @ ys) None" by (auto simp: path_append)
  with f l False show ?thesis
    by (auto simp: SPD_LIST_APPEND_LIST_def is_list_def)
qed

lemma insert_list_after_list:
  assumes h: "is_list h nx (us @ e # vs)" and l: "is_list lst nx ys"
    and d: "set (us @ e # vs) \<inter> set ys = {}" and ne: "ys \<noteq> []"
  shows "\<exists>h' nx'. SPD_LIST_INSERT_LIST_AFTER h lst nx e = Some (h', SPD_LIST_HEAD_INIT, nx') \<and>
           is_list h' nx' (us @ e # ys @ vs)"
proof -
  have dx: "distinct (us @ e # vs)" "distinct ys"
    using is_list_distinct [OF h] is_list_distinct [OF l] by blast+
  have p: "path nx (lh_first h) us (Some e)" "path nx (nx e) vs None"
    using is_list_middle [OF h] by auto
  have ll: "lh_last lst = Some (last ys)" using l ne by (simp add: is_list_def)
  let ?nx = "nx(last ys := nx e, e := lh_first lst)"
  have ly: "last ys \<in> set ys" using ne by simp
  with d have ly': "last ys \<noteq> e" "last ys \<notin> set us" "last ys \<notin> set vs" "e \<notin> set ys" by auto
  have "path (nx(last ys := nx e)) (lh_first lst) ys (nx e)"
    using l ne dx(2) by (intro path_redirect) (auto simp: is_list_def)
  then have "path ?nx (lh_first lst) ys (nx e)" using ly' by auto
  moreover have "path ?nx (lh_first h) us (Some e)" "path ?nx (nx e) vs None"
    using p dx ly' by auto
  ultimately have "path ?nx (lh_first h) (us @ e # ys @ vs) None"
    using ly' by (auto simp: path_append)
  moreover have "lh_last h = Some e \<longleftrightarrow> vs = []"
    using h dx(1) by (auto simp: is_list_def)
  ultimately show ?thesis
    using h ll ne by (auto simp: SPD_LIST_INSERT_LIST_AFTER_def is_list_def Let_def)
qed

section \<open>Removal macros remove\<close>

lemma remove_head_list:
  assumes "is_list h nx xs"
  shows "case SPD_LIST_REMOVE_HEAD h nx of (r, h', nx') \<Rightarrow>
           (case xs of [] \<Rightarrow> r = None \<and> is_list h' nx' []
            | y # ys \<Rightarrow> r = Some y \<and> is_list h' nx' ys \<and> nx' = nx(y := None))"
proof (cases xs)
  case Nil
  with assms show ?thesis by (simp add: SPD_LIST_REMOVE_HEAD_def is_list_def)
next
  case (Cons y ys)
  then have "y \<notin> set ys" using is_list_distinct [OF assms] by simp
  then have "ys \<noteq> [] \<Longrightarrow> last ys \<noteq> y" by auto
  with \<open>y \<notin> set ys\<close> Cons assms show ?thesis
    by (auto simp: SPD_LIST_REMOVE_HEAD_def is_list_def Let_def)
qed

lemma remove_scan_path:
  assumes "path nx cur (us @ c # e # vs) None" "e \<notin> set (us @ [c])"
  shows "remove_scan nx e cur = Some (Some c)"
  using assms
proof (induction us arbitrary: cur)
  case Nil
  then show ?case by (subst remove_scan.simps) simp
next
  case (Cons u us)
  then have "cur = Some u" "nx u \<noteq> Some e" by (cases us; auto)+
  with Cons show ?case by (subst remove_scan.simps) simp
qed

lemma remove_scan_absent:
  assumes "path nx cur xs None" "e \<notin> set xs"
  shows "remove_scan nx e cur = Some None"
  using assms
proof (induction xs arbitrary: cur)
  case Nil
  then show ?case by (subst remove_scan.simps) simp
next
  case (Cons x xs)
  then have "cur = Some x" "nx x \<noteq> Some e" by (cases xs; auto)+
  with Cons show ?case by (subst remove_scan.simps) simp
qed

lemma remove_list_present:
  assumes l: "is_list h nx (us @ e # vs)"
  shows "\<exists>h' nx'. SPD_LIST_REMOVE h nx e = Some (Some e, h', nx') \<and> is_list h' nx' (us @ vs)
           \<and> nx' e = None"
proof -
  have d: "distinct (us @ e # vs)" using l by (rule is_list_distinct)
  have p: "path nx (lh_first h) us (Some e)" "path nx (nx e) vs None"
    using is_list_middle [OF l] by auto
  have last: "lh_last h = Some e \<longleftrightarrow> vs = []" using l d by (auto simp: is_list_def)
  show ?thesis
  proof (cases us rule: rev_cases)
    case Nil
    with l p last d show ?thesis
      by (auto simp: SPD_LIST_REMOVE_def is_list_def Let_def)
  next
    case (snoc ws c)
    have ne: "lh_first h \<noteq> Some e" using l d snoc by (cases ws) (auto simp: is_list_def)
    have sc: "remove_scan nx e (lh_first h) = Some (Some c)"
      using l d snoc by (intro remove_scan_path [of nx _ ws c e vs]) (auto simp: is_list_def)
    let ?nx = "nx(c := nx e, e := None)"
    have "path (nx(last us := nx e)) (lh_first h) us (nx e)"
      using p d snoc by (intro path_redirect) auto
    then have "path ?nx (lh_first h) us (nx e)" using snoc d by auto
    moreover have "path ?nx (nx e) vs None" using p d snoc by auto
    ultimately have "path ?nx (lh_first h) (us @ vs) None" by (auto simp: path_append)
    with l last sc ne snoc show ?thesis
      by (auto simp: SPD_LIST_REMOVE_def is_list_def Let_def)
  qed
qed

lemma remove_list_absent:
  assumes l: "is_list h nx xs" and e: "e \<notin> set xs"
  shows "SPD_LIST_REMOVE h nx e = Some (None, h, nx(e := None))"
proof -
  have "lh_first h \<noteq> Some e" using l e by (cases xs) (auto simp: is_list_def)
  moreover have "remove_scan nx e (lh_first h) = Some None"
    using l e by (intro remove_scan_absent) (auto simp: is_list_def)
  ultimately show ?thesis by (simp add: SPD_LIST_REMOVE_def)
qed

section \<open>Traversals visit the list\<close>

lemma traverse_path: "path nx p xs None \<Longrightarrow> SPD_LIST_TRAVERSE nx p = Some xs"
proof (induction xs arbitrary: p)
  case Nil
  then show ?case by (subst SPD_LIST_TRAVERSE.simps) simp
next
  case (Cons x xs)
  then show ?case by (subst SPD_LIST_TRAVERSE.simps) simp
qed

lemma traverse_list: "is_list h nx xs \<Longrightarrow> SPD_LIST_TRAVERSE nx (lh_first h) = Some xs"
  by (simp add: is_list_def traverse_path)

text \<open>A traversal that returns has seen a finite chain; a cyclic chain gives no result.\<close>

lemma traverse_sound:
  assumes "SPD_LIST_TRAVERSE nx p = Some xs"
  shows "path nx p xs None"
proof (rule SPD_LIST_TRAVERSE.raw_induct [where P = "\<lambda>nx p xs. path nx p xs None", OF _ assms])
  fix trav nx p xs
  assume IH: "\<And>nx p xs. trav nx p = Some xs \<Longrightarrow> path nx p xs None"
    and eq: "(case p of None \<Rightarrow> Some []
              | Some c \<Rightarrow> Option.bind (trav nx (nx c)) (\<lambda>xs. Some (c # xs))) = Some xs"
  show "path nx p xs None"
  proof (cases p)
    case None
    with eq show ?thesis by simp
  next
    case (Some c)
    with eq obtain ys where "trav nx (nx c) = Some ys" "xs = c # ys"
      by (auto simp: bind_Some_iff)
    with IH Some show ?thesis by simp
  qed
qed

text \<open>The position of a safe traversal: \<open>us\<close> already visited, \<open>vs\<close> still to come.\<close>

definition iter_at :: "links \<Rightarrow> safe_iter \<Rightarrow> addr list \<Rightarrow> addr list \<Rightarrow> bool" where
  "iter_at nx it us vs \<longleftrightarrow>
     si_cur it = (case vs of [] \<Rightarrow> None | v # _ \<Rightarrow> Some v) \<and> si_new_prev it = si_cur it \<and>
     si_next it = (case vs of [] \<Rightarrow> None | v # _ \<Rightarrow> nx v) \<and>
     si_prev it = (if us = [] then None else Some (last us))"

lemma iter_at_begin: "is_list h nx xs \<Longrightarrow> iter_at nx (SPD_LIST_TRAVERSE_SAFE_BEGIN h nx) [] xs"
  by (cases xs) (auto simp: iter_at_def SPD_LIST_TRAVERSE_SAFE_BEGIN_def is_list_def)

lemma iter_at_advance:
  assumes "is_list h nx (us @ v # vs)" "iter_at nx it us (v # vs)"
  shows "iter_at nx (safe_advance nx it) (us @ [v]) vs"
proof -
  have "path nx (nx v) vs None" using is_list_middle [OF assms(1)] by auto
  with assms(2) show ?thesis
    by (cases vs) (auto simp: iter_at_def safe_advance_def)
qed

lemma remove_current_list:
  assumes l: "is_list h nx (us @ v # vs)" and i: "iter_at nx it us (v # vs)"
  shows "\<exists>h' nx' it'. SPD_LIST_REMOVE_CURRENT h nx it = Some (h', nx', it') \<and>
           is_list h' nx' (us @ vs) \<and> nx' v = None"
proof -
  have d: "distinct (us @ v # vs)" using l by (rule is_list_distinct)
  have p: "path nx (lh_first h) us (Some v)" "path nx (nx v) vs None"
    using is_list_middle [OF l] by auto
  have nxt: "nx v = None \<longleftrightarrow> vs = []" using p by (cases vs) auto
  show ?thesis
  proof (cases us rule: rev_cases)
    case Nil
    with i l p nxt d show ?thesis
      by (auto simp: SPD_LIST_REMOVE_CURRENT_def iter_at_def is_list_def Let_def)
  next
    case (snoc ws u)
    let ?nx = "nx(v := None, u := nx v)"
    have "path (nx(last us := nx v)) (lh_first h) us (nx v)"
      using p d snoc by (intro path_redirect) auto
    then have "path (nx(u := nx v, v := None)) (lh_first h) us (nx v)" using snoc d by auto
    then have "path ?nx (lh_first h) us (nx v)" using snoc d by (simp add: fun_upd_twist)
    moreover have "path ?nx (nx v) vs None" using p d snoc by auto
    ultimately have "path ?nx (lh_first h) (us @ vs) None" by (auto simp: path_append)
    with i l nxt snoc d show ?thesis
      by (auto simp: SPD_LIST_REMOVE_CURRENT_def iter_at_def is_list_def Let_def)
  qed
qed

lemma remove_current_frame:
  assumes "iter_at nx it us (v # vs)" "SPD_LIST_REMOVE_CURRENT h nx it = Some (h', nx', it')" "y \<notin> set (us @ [v])"
  shows "nx' y = nx y"
  using assms by (cases us rule: rev_cases) (auto simp: SPD_LIST_REMOVE_CURRENT_def iter_at_def Let_def)

lemma is_list_cong: "is_list h nx xs \<Longrightarrow> (\<And>y. y \<in> set xs \<Longrightarrow> nx' y = nx y) \<Longrightarrow> is_list h nx' xs"
proof -
  have "path nx p xs q \<Longrightarrow> (\<And>y. y \<in> set xs \<Longrightarrow> nx' y = nx y) \<Longrightarrow> path nx' p xs q" for p q
    by (induction xs arbitrary: p) auto
  then show "is_list h nx xs \<Longrightarrow> (\<And>y. y \<in> set xs \<Longrightarrow> nx' y = nx y) \<Longrightarrow> is_list h nx' xs"
    by (auto simp: is_list_def)
qed

text \<open>Moving takes the entry out of one list and puts it at the end of the other.\<close>

lemma move_current_list:
  assumes l: "is_list h nx (us @ v # vs)" "iter_at nx it us (v # vs)"
    and t: "is_list t nx ys" "set ys \<inter> set (us @ v # vs) = {}"
  shows "\<exists>h' t' nx' it'. SPD_LIST_MOVE_CURRENT h t nx it = Some (h', t', nx', it') \<and>
     is_list h' nx' (us @ vs) \<and> is_list t' nx' (ys @ [v])"
proof -
  obtain h1 nx1 it1 where r: "SPD_LIST_REMOVE_CURRENT h nx it = Some (h1, nx1, it1)" "is_list h1 nx1 (us @ vs)" "nx1 v = None"
    using remove_current_list [OF l] by blast
  have "is_list t nx1 ys"
  proof (rule is_list_cong [OF t(1)])
    fix y assume "y \<in> set ys"
    with t(2) have "y \<notin> set (us @ [v])" by auto
    then show "nx1 y = nx y" by (rule remove_current_frame [OF l(2) r(1)])
  qed
  from insert_tail_list [OF this _ r(3)] t(2) obtain t2 nx2 where
    i: "SPD_LIST_INSERT_TAIL t nx1 v = Some (t2, nx2)" "is_list t2 nx2 (ys @ [v])" "\<forall>y. y \<notin> set ys \<longrightarrow> nx2 y = nx1 y"
    by auto
  have "is_list h1 nx2 (us @ vs)"
    by (rule is_list_cong [OF r(2)]) (use i(3) t(2) in auto)
  with r(1) i(1,2) l(2) show ?thesis by (simp add: SPD_LIST_MOVE_CURRENT_def iter_at_def)
qed

lemma insert_before_current_list:
  assumes l: "is_list h nx (us @ v # vs)" and i: "iter_at nx it us (v # vs)"
    and e: "e \<notin> set (us @ v # vs)"
  shows "\<exists>h' nx' it'. SPD_LIST_INSERT_BEFORE_CURRENT h nx it e = (h', nx', it') \<and>
           is_list h' nx' (us @ e # v # vs)"
proof -
  have d: "distinct (us @ v # vs)" using l by (rule is_list_distinct)
  have p: "path nx (lh_first h) us (Some v)" "path nx (nx v) vs None"
    using is_list_middle [OF l] by auto
  show ?thesis
  proof (cases us rule: rev_cases)
    case Nil
    with i l p e show ?thesis
      by (auto simp: SPD_LIST_INSERT_BEFORE_CURRENT_def iter_at_def is_list_def)
  next
    case (snoc ws u)
    have nu: "nx u = Some v" using p(1) snoc by (simp add: path_append)
    let ?nx = "nx(e := nx u, u := Some e)"
    have "path (nx(last us := Some e)) (lh_first h) us (Some e)"
      using p d snoc by (intro path_redirect) auto
    then have "path (nx(u := Some e, e := nx u)) (lh_first h) us (Some e)" using snoc e by auto
    then have "path ?nx (lh_first h) us (Some e)" using snoc e by (simp add: fun_upd_twist)
    moreover have "path ?nx (Some v) (v # vs) None" using p d e snoc by auto
    ultimately have "path ?nx (lh_first h) (us @ e # v # vs) None"
      using nu snoc e by (auto simp: path_append)
    with i l snoc show ?thesis
      by (auto simp: SPD_LIST_INSERT_BEFORE_CURRENT_def iter_at_def is_list_def)
  qed
qed

lemma remove_first_loop_list:
  assumes "is_list h nx (us @ vs)" "iter_at nx it us vs"
  shows "\<exists>h' nx'. remove_first_loop h nx P it = Some (find P vs, h', nx') \<and>
     is_list h' nx' (us @ takeWhile (\<lambda>y. \<not> P y) vs @ tl (dropWhile (\<lambda>y. \<not> P y) vs))"
  using assms
proof (induction vs arbitrary: us it)
  case Nil
  then show ?case by (subst remove_first_loop.simps) (simp add: iter_at_def)
next
  case (Cons v vs)
  then have c: "si_cur it = Some v" by (simp add: iter_at_def)
  show ?case
  proof (cases "P v")
    case True
    with c remove_current_list [OF Cons.prems] show ?thesis
      by (subst remove_first_loop.simps) auto
  next
    case False
    have "iter_at nx (safe_advance nx it) (us @ [v]) vs"
      using Cons.prems by (rule iter_at_advance)
    with Cons.IH [of "us @ [v]" "safe_advance nx it"] Cons.prems c False show ?thesis
      by (subst remove_first_loop.simps) auto
  qed
qed

lemma list_remove_first_list:
  assumes "is_list h nx xs"
  shows "\<exists>h' nx'. list_remove_first h nx P = Some (find P xs, h', nx') \<and>
     is_list h' nx' (takeWhile (\<lambda>y. \<not> P y) xs @ tl (dropWhile (\<lambda>y. \<not> P y) xs))"
  using remove_first_loop_list [of h nx "[]" xs _ P, OF _ iter_at_begin] assms
  by (simp add: list_remove_first_def)

lemma insert_before_loop_list:
  assumes "is_list h nx (us @ vs)" "iter_at nx it us vs" "e \<notin> set (us @ vs)" "nx e = None"
  shows "\<exists>h' nx'. insert_before_loop h nx P e it = Some (h', nx') \<and>
     is_list h' nx' (us @ takeWhile (\<lambda>y. \<not> P y) vs @ e # dropWhile (\<lambda>y. \<not> P y) vs)"
  using assms
proof (induction vs arbitrary: us it)
  case Nil
  then show ?case
    using insert_tail_list [of h nx us e]
    by (subst insert_before_loop.simps) (auto simp: iter_at_def)
next
  case (Cons v vs)
  then have c: "si_cur it = Some v" by (simp add: iter_at_def)
  show ?case
  proof (cases "P v")
    case True
    with c insert_before_current_list [OF Cons.prems(1-3)] show ?thesis
      by (subst insert_before_loop.simps) auto
  next
    case False
    have "iter_at nx (safe_advance nx it) (us @ [v]) vs"
      using Cons.prems(1,2) by (rule iter_at_advance)
    with Cons.IH [of "us @ [v]" "safe_advance nx it"] Cons.prems c False show ?thesis
      by (subst insert_before_loop.simps) auto
  qed
qed

lemma list_insert_before_list:
  assumes "is_list h nx xs" "e \<notin> set xs" "nx e = None"
  shows "\<exists>h' nx'. list_insert_before h nx P e = Some (h', nx') \<and>
     is_list h' nx' (takeWhile (\<lambda>y. \<not> P y) xs @ e # dropWhile (\<lambda>y. \<not> P y) xs)"
  using insert_before_loop_list [of h nx "[]" xs _ e P, OF _ iter_at_begin] assms
  by (simp add: list_insert_before_def)

section \<open>The macros as a queue\<close>

definition ll_enq :: "lhead \<times> links \<Rightarrow> addr \<Rightarrow> (lhead \<times> links) option" where
  "ll_enq s x = SPD_LIST_INSERT_TAIL (fst s) (snd s) x"

definition ll_deq :: "lhead \<times> links \<Rightarrow> addr option \<times> lhead \<times> links" where
  "ll_deq s = SPD_LIST_REMOVE_HEAD (fst s) (snd s)"

definition ll_rep :: "lhead \<times> links \<Rightarrow> addr list \<Rightarrow> bool" where
  "ll_rep s xs = is_list (fst s) (snd s) xs"

definition ll_fresh :: "lhead \<times> links \<Rightarrow> addr \<Rightarrow> bool" where
  "ll_fresh s x \<longleftrightarrow> snd s x = None"

lemma ll_enq_rep:
  assumes "ll_rep s xs" "ll_fresh s x" "x \<notin> set xs"
  shows "\<exists>s'. ll_enq s x = Some s' \<and> ll_rep s' (xs @ [x])"
  using insert_tail_list [of "fst s" "snd s" xs x] assms
  by (auto simp: ll_enq_def ll_rep_def ll_fresh_def)

lemma ll_enq_fresh:
  assumes "ll_rep s xs" "ll_enq s x = Some s'" "y \<notin> set xs" "ll_fresh s y"
  shows "ll_fresh s' y"
  using assms
  by (auto simp: ll_enq_def ll_rep_def ll_fresh_def SPD_LIST_INSERT_TAIL_def is_list_def
      split: if_splits option.splits)

lemma ll_deq_rep:
  assumes "ll_rep s xs"
  shows "ll_rep (snd (ll_deq s)) (tl xs)"
    and "fst (ll_deq s) = (if xs = [] then None else Some (hd xs))"
  using remove_head_list [of "fst s" "snd s" xs] assms
  by (auto simp: ll_deq_def ll_rep_def split: prod.splits list.splits)

lemma ll_deq_fresh: "ll_rep s xs \<Longrightarrow> ll_fresh s y \<Longrightarrow> ll_fresh (snd (ll_deq s)) y"
  by (auto simp: ll_deq_def ll_fresh_def SPD_LIST_REMOVE_HEAD_def Let_def split: option.splits)

interpretation llq: spd_fifo ll_enq ll_deq ll_rep ll_fresh
  by (unfold_locales; blast intro: ll_enq_rep ll_enq_fresh ll_deq_rep ll_deq_fresh)

section \<open>Properties\<close>

text \<open>
  C6: entries appended with \<open>SPD_LIST_INSERT_TAIL\<close> and taken with
  \<open>SPD_LIST_REMOVE_HEAD\<close>, in any interleaving, come out in the order they went in: no operation
  follows a \<open>NULL\<close> pointer, and what came out followed by what is still linked is what was there
  followed by what was appended.
\<close>

theorem linked_list_fifo:
  assumes "is_list h nx xs" "distinct (xs @ pushed ops)" "\<forall>x \<in> set (pushed ops). nx x = None"
  shows "\<exists>out rest h' nx'. fifo_run ll_enq ll_deq ops (h, nx) = Some (out, (h', nx')) \<and>
           is_list h' nx' rest \<and> out @ rest = xs @ pushed ops"
  using llq.fifo_run_order [of "(h, nx)" xs ops] assms by (simp add: ll_rep_def ll_fresh_def)

theorem linked_list_fifo_witness:
  "\<exists>out rest h' nx'. fifo_run ll_enq ll_deq [Push 4, Push 7, Pop, Push 5, Pop]
       (SPD_LIST_HEAD_INIT, \<lambda>_. None) = Some (out, (h', nx')) \<and> is_list h' nx' rest \<and>
       out @ rest = [4, 7, 5]"
  using linked_list_fifo [of SPD_LIST_HEAD_INIT "\<lambda>_. None" "[]" "[Push 4, Push 7, Pop, Push 5, Pop]"]
  by (simp add: list_head_init)

lemma sortalpha_sorted:
  assumes "sorted_wrt (\<lambda>a b. strcmp (key a) (key b) \<le> 0) xs"
  shows "sorted_wrt (\<lambda>a b. strcmp (key a) (key b) \<le> 0)
     (takeWhile (\<lambda>y. strcmp (key y) (key x) < 0) xs @ x # dropWhile (\<lambda>y. strcmp (key y) (key x) < 0) xs)"
proof -
  let ?lt = "\<lambda>y. strcmp (key y) (key x) < 0"
  let ?ys = "takeWhile ?lt xs" and ?zs = "dropWhile ?lt xs"
  have s: "sorted_wrt (\<lambda>a b. strcmp (key a) (key b) \<le> 0) (?ys @ ?zs)" using assms by simp
  have lo: "\<forall>y \<in> set ?ys. strcmp (key y) (key x) \<le> 0" by (auto dest: set_takeWhileD)
  have hi: "\<forall>z \<in> set ?zs. strcmp (key x) (key z) \<le> 0"
  proof (cases ?zs)
    case Nil
    show ?thesis unfolding Nil by simp
  next
    case (Cons z zs)
    then have "\<not> ?lt z" by (rule dropWhile_hd_notP)
    then have xz: "strcmp (key x) (key z) \<le> 0" by (simp add: strcmp_swap [of "key x"])
    have "\<forall>z' \<in> set zs. strcmp (key z) (key z') \<le> 0"
      using s Cons by (simp add: sorted_wrt_append)
    with xz Cons show ?thesis by (auto intro: strcmp_trans_le)
  qed
  from s [unfolded sorted_wrt_append] lo hi show ?thesis
    unfolding sorted_wrt_append by simp
qed

text \<open>
  \<open>SPD_LIST_INSERT_SORTALPHA\<close> puts an unlinked entry into a list that
  is sorted by \<open>strcmp\<close> on the sort field, at a place that keeps it sorted; the entries of the
  list are the old ones and the new one, and nothing else. Entries with an equal field come
  after the new one.
\<close>

lemma linked_list_sortalpha:
  assumes "is_list h nx xs" "x \<notin> set xs" "nx x = None"
    and "sorted_wrt (\<lambda>a b. strcmp (key a) (key b) \<le> 0) xs"
  shows "\<exists>h' nx' ys zs. SPD_LIST_INSERT_SORTALPHA h nx key x = Some (h', nx') \<and>
           is_list h' nx' (ys @ x # zs) \<and> xs = ys @ zs \<and>
           sorted_wrt (\<lambda>a b. strcmp (key a) (key b) \<le> 0) (ys @ x # zs)"
  using insert_sortalpha_list [OF assms(1-3) refl, of key] sortalpha_sorted [OF assms(4), of x]
  by (metis takeWhile_dropWhile_id)

theorem linked_list_sortalpha_witness:
  "\<exists>h' nx' ys zs. SPD_LIST_INSERT_SORTALPHA (SPD_LIST_HEAD_SET (Some 1)) (\<lambda>_. None)
        (\<lambda>a. if a = 1 then ''/b/'' else ''/a/'') 2 = Some (h', nx') \<and>
      is_list h' nx' (ys @ 2 # zs) \<and> [1] = ys @ zs \<and>
      sorted_wrt (\<lambda>a b. strcmp (if a = 1 then ''/b/'' else ''/a/'')
                               (if b = 1 then ''/b/'' else ''/a/'') \<le> 0) (ys @ 2 # zs)"
  using linked_list_sortalpha [of "SPD_LIST_HEAD_SET (Some 1)" "\<lambda>_. None" "[1]" 2
      "\<lambda>a. if a = 1 then ''/b/'' else ''/a/''"]
  by (simp add: list_head_set)

text \<open>
  \<open>SPD_LIST_REMOVE\<close> is removal from a list: it returns the entry exactly
  when the entry was linked, the list keeps its other entries in their order, and the link of
  the entry is cleared in both cases.
\<close>

lemma linked_list_remove:
  assumes "is_list h nx xs"
  shows "\<exists>h' nx'. SPD_LIST_REMOVE h nx e = Some ((if e \<in> set xs then Some e else None), h', nx') \<and>
           is_list h' nx' (remove1 e xs) \<and> nx' e = None"
proof (cases "e \<in> set xs")
  case True
  then obtain us vs where xs: "xs = us @ e # vs" "e \<notin> set us" by (metis split_list_first)
  with assms True remove_list_present [of h nx us e vs] show ?thesis
    by (auto simp: remove1_append_notin)
next
  case False
  with assms remove_list_absent [OF assms False] show ?thesis
    by (auto simp: is_list_frame remove1_idem)
qed

theorem linked_list_remove_witness:
  "\<exists>h' nx'. SPD_LIST_REMOVE \<lparr>lh_first = Some 3, lh_last = Some 9\<rparr> ((\<lambda>_. None)(3 := Some 9)) 9
      = Some (Some 9, h', nx') \<and> is_list h' nx' [3] \<and> nx' 9 = None"
  using linked_list_remove [of "\<lparr>lh_first = Some 3, lh_last = Some 9\<rparr>" "(\<lambda>_. None)(3 := Some 9)"
      "[3, 9]" 9]
  by (simp add: is_list_def)

end
