(* ===== verification/Spd_Strings.thy ===== *)
theory Spd_Strings
  imports Spd_CString
begin

unbundle bit_operations_syntax

text \<open>
  The string helpers of \<open>src/strings.c\<close> and \<open>src/strings.h\<close>. A routine that changes its
  argument in place works on the buffer, the list of bytes from the pointer on; a returned
  pointer into the buffer is the list of bytes from there. A read-only routine works on the
  string. \<open>None\<close> as a result marks a write outside the buffer or through \<open>NULL\<close>.
\<close>

section \<open>Hexadecimal digits\<close>

definition HEX :: string where
  "HEX = ''0123456789abcdef''"

definition spd_b10tob16 :: "char \<Rightarrow> char" where
  "spd_b10tob16 c = HEX ! (byte c AND 15)"

definition spd_b16tob10 :: "char \<Rightarrow> char" where
  "spd_b16tob10 c =
     char_of (nat ((if c_isdigit c then int (byte c) - int (byte (CHR ''0''))
                    else int (byte (c_tolower c)) - int (byte (CHR ''a'')) + 10) mod 256))"

lemma byte_AND_15: "byte c AND 15 = byte c mod 16"
proof -
  have "byte c AND mask 4 = byte c mod 2 ^ 4"
    by (simp only: take_bit_eq_mask [symmetric] take_bit_eq_mod)
  moreover have "mask 4 = (15::nat)" by (simp add: mask_eq_exp_minus_1)
  ultimately show ?thesis by simp
qed

lemma b10_b16_nat: "n < 16 \<Longrightarrow> spd_b16tob10 (HEX ! n) = char_of n"
proof -
  assume "n < 16"
  then have "n \<in> {0, 1, 2, 3, 4, 5, 6, 7, 8, 9, 10, 11, 12, 13, 14, 15}"
    by (simp only: insert_iff empty_iff) arith
  then show ?thesis
    by (elim insertE emptyE) (simp_all add: HEX_def spd_b16tob10_def c_isdigit_def c_tolower_def byte_def)
qed

section \<open>Duplicates\<close>

text \<open>
  \<open>spd_calloc\<close> is taken to succeed for every size that is not negative; a negative \<open>rlen\<close>
  is a huge \<open>size_t\<close>, the allocation fails and \<open>memcpy\<close> writes through \<open>NULL\<close>. The result is
  the new buffer.
\<close>

definition spd_strndup :: "string option \<Rightarrow> int \<Rightarrow> char list option option" where
  "spd_strndup str sz =
     (case str of
        None \<Rightarrow> Some None
      | Some s \<Rightarrow>
          if sz = 0 then Some None
          else (let len = int (length s);
                    rlen = (if sz > len then len else sz)
                in if rlen < 0 then None else Some (Some (take (nat rlen) s))))"

definition u_spd_strdup :: "string option \<Rightarrow> string option" where
  "u_spd_strdup str = str"

definition spd_strlen_zero :: "string option \<Rightarrow> bool" where
  "spd_strlen_zero s = (case s of None \<Rightarrow> True | Some t \<Rightarrow> t = [])"

definition F_OR :: "string option \<Rightarrow> string option \<Rightarrow> string option" where
  "F_OR a b = (if \<not> spd_strlen_zero a then a else b)"

section \<open>Blanks\<close>

fun digitstring_loop :: "string \<Rightarrow> int" where
  "digitstring_loop [] = 0"
| "digitstring_loop (c # s) = (if byte c < 48 \<or> byte c > 57 then - 1 else digitstring_loop s)"

definition spd_is_digitstring :: "string option \<Rightarrow> int" where
  "spd_is_digitstring s = (case s of None \<Rightarrow> 0 | Some t \<Rightarrow> digitstring_loop t)"

fun spd_skip_blanks :: "char list \<Rightarrow> char list" where
  "spd_skip_blanks [] = []"
| "spd_skip_blanks (c # s) = (if c \<noteq> NUL \<and> byte c < 33 then spd_skip_blanks s else c # s)"

fun spd_skip_nonblanks :: "char list \<Rightarrow> char list" where
  "spd_skip_nonblanks [] = []"
| "spd_skip_nonblanks (c # s) = (if c \<noteq> NUL \<and> byte c > 32 then spd_skip_nonblanks s else c # s)"

text \<open>The loop of \<open>spd_trim_blanks\<close>; the counter is \<open>tmp - s + 1\<close>.\<close>

fun trim_loop :: "char list \<Rightarrow> nat \<Rightarrow> char list" where
  "trim_loop b 0 = b"
| "trim_loop b (Suc k) = (if byte (b ! k) < 33 then trim_loop (b[k := NUL]) k else b)"

definition spd_trim_blanks :: "char list \<Rightarrow> char list" where
  "spd_trim_blanks b = trim_loop b (length (cstr b))"

definition spd_strip :: "char list \<Rightarrow> char list" where
  "spd_strip b = spd_trim_blanks (spd_skip_blanks b)"

text \<open>
  The stripped buffer and the buffer of \<open>first_quote\<close>: the assignment \<open>*pb = 0\<close> goes to the
  list of opening quotes, not to the end of the string. \<open>None\<close> is a read past the end of
  \<open>last_quote\<close>.
\<close>

definition spd_strip_quoted :: "char list \<Rightarrow> string \<Rightarrow> string \<Rightarrow> (char list \<times> string) option" where
  "spd_strip_quoted b first_quote last_quote =
     (let s = spd_strip b in
      case s of
        [] \<Rightarrow> None
      | c # rest \<Rightarrow>
          (case strchr first_quote c of
             None \<Rightarrow> Some (s, first_quote)
           | Some pb \<Rightarrow>
               if pb = length first_quote then Some (s, first_quote)
               else if pb > length last_quote then None
               else if last (cstr s) = (last_quote @ [NUL]) ! pb
               then Some (rest, take pb first_quote)
               else Some (s, first_quote)))"

function spd_unescape_semicolon :: "string \<Rightarrow> string" where
  "spd_unescape_semicolon pw =
     (case index_of CHR '';'' pw of
        None \<Rightarrow> pw
      | Some pe \<Rightarrow>
          if pe > 0 \<and> pw ! (pe - 1) = CHR 0x5C
          then take (pe - 1) pw @ CHR '';'' # spd_unescape_semicolon (drop (pe + 1) pw)
          else take (pe + 1) pw @ spd_unescape_semicolon (drop (pe + 1) pw))"
  by pat_completeness auto
termination
  by (relation "measure length") (auto dest: index_of_SomeD)

declare spd_unescape_semicolon.simps [simp del]

section \<open>Copies\<close>

text \<open>
  \<open>size\<close> is what is left of the limit, \<open>i\<close> the position of \<open>dst\<close>. With a limit of 0 the code
  steps to \<open>dst - 1\<close> and writes there.
\<close>

fun copy_loop :: "char list \<Rightarrow> nat \<Rightarrow> string \<Rightarrow> nat \<Rightarrow> char list option" where
  "copy_loop dst i [] sz =
     (if sz = 0 then (if i = 0 then None else Some (dst[i - 1 := NUL]))
      else if i < length dst then Some (dst[i := NUL]) else None)"
| "copy_loop dst i (c # src) sz =
     (if sz = 0 then (if i = 0 then None else Some (dst[i - 1 := NUL]))
      else if i < length dst then copy_loop (dst[i := c]) (i + 1) src (sz - 1) else None)"

definition spd_copy_string :: "char list \<Rightarrow> string \<Rightarrow> nat \<Rightarrow> char list option" where
  "spd_copy_string dst src sz = copy_loop dst 0 src sz"

definition spd_stringindex :: "string option \<Rightarrow> int \<Rightarrow> string option \<Rightarrow> int" where
  "spd_stringindex str sz substr =
     (case (str, substr) of
        (Some s, Some t) \<Rightarrow>
          (case strstr s t of
             None \<Rightarrow> - 1
           | Some substart \<Rightarrow> if int substart < sz then int substart else - 1)
      | _ \<Rightarrow> - 1)"

definition spd_strcontains :: "string option \<Rightarrow> int \<Rightarrow> string option \<Rightarrow> bool" where
  "spd_strcontains str sz substr \<longleftrightarrow> spd_stringindex str sz substr \<ge> 0"

text \<open>
  \<open>spd_safe_free (src)\<close> frees the caller's pointer variable and sets the parameter to \<open>NULL\<close>;
  the assignment to \<open>*src\<close> that follows has no target.
\<close>

definition spd_strupdate :: "addr option \<Rightarrow> string option \<Rightarrow> (addr \<Rightarrow> string option) \<Rightarrow> (addr \<Rightarrow> string option) option" where
  "spd_strupdate src newval store =
     (let src1 = (if src \<noteq> None then None else src)
      in case src1 of None \<Rightarrow> None | Some p \<Rightarrow> Some (store(p := u_spd_strdup newval)))"

section \<open>Joining\<close>

fun join_word :: "char list \<Rightarrow> nat \<Rightarrow> nat \<Rightarrow> string \<Rightarrow> char list \<times> nat" where
  "join_word s len ofs [] = (s, ofs)"
| "join_word s len ofs (c # src) =
     (if ofs < len then join_word (s[ofs := c]) len (ofs + 1) src else (s, ofs))"

fun join_loop :: "char list \<Rightarrow> nat \<Rightarrow> nat \<Rightarrow> nat \<Rightarrow> string list \<Rightarrow> char list \<times> nat" where
  "join_loop s len x ofs [] = (s, ofs)"
| "join_loop s len x ofs (w # ws) =
     (if ofs < len then
        (let (s1, ofs1) = (if x > 0 then (s[ofs := CHR '' ''], ofs + 1) else (s, ofs));
             (s2, ofs2) = join_word s1 len ofs1 w
         in join_loop s2 len (x + 1) ofs2 ws)
      else (s, ofs))"

text \<open>The buffer must hold \<open>len\<close> bytes; with \<open>len = 0\<close> the terminator goes to \<open>s[-1]\<close>.\<close>

definition spd_str_join :: "char list \<Rightarrow> nat \<Rightarrow> string list \<Rightarrow> char list option" where
  "spd_str_join s len w =
     (if length s < len then None
      else (let (s1, ofs) = join_loop s len 0 0 w
            in if ofs = len then (if ofs = 0 then None else Some (s1[ofs - 1 := NUL]))
               else Some (s1[ofs := NUL])))"

section \<open>Tokens\<close>

text \<open>
  The pointers are positions in the buffer. \<open>strchr (sep, c)\<close> also finds the terminator of
  \<open>sep\<close>, but the loops test \<open>c\<close> first.
\<close>

function skip_seps :: "char list \<Rightarrow> string \<Rightarrow> nat \<Rightarrow> nat" where
  "skip_seps b sep p =
     (if p < length b \<and> b ! p \<noteq> NUL \<and> strchr sep (b ! p) \<noteq> None then skip_seps b sep (p + 1) else p)"
  by pat_completeness auto
termination by (relation "measure (\<lambda>(b, _, p). length b - p)") auto

function skip_token :: "char list \<Rightarrow> string \<Rightarrow> nat \<Rightarrow> nat" where
  "skip_token b sep p =
     (if p < length b \<and> b ! p \<noteq> NUL \<and> strchr sep (b ! p) = None then skip_token b sep (p + 1) else p)"
  by pat_completeness auto
termination by (relation "measure (\<lambda>(b, _, p). length b - p)") auto

declare skip_seps.simps [simp del] skip_token.simps [simp del]

definition spd_strtok ::
  "char list \<Rightarrow> nat option \<Rightarrow> string \<Rightarrow> nat \<Rightarrow> nat option \<times> char list \<times> nat" where
  "spd_strtok b str sep lst =
     (let p0 = (case str of None \<Rightarrow> lst | Some p \<Rightarrow> p);
          p = skip_seps b sep p0
      in if b ! p = NUL then (None, b, lst)
         else (let e = skip_token b sep (p + 1)
               in if b ! e \<noteq> NUL then (Some p, b[e := NUL], e + 1) else (Some p, b, e)))"

text \<open>The loop in which a token string is consumed: one call with the string, then calls with \<open>NULL\<close>.\<close>

fun strtok_all :: "nat \<Rightarrow> char list \<Rightarrow> nat option \<Rightarrow> string \<Rightarrow> nat \<Rightarrow> string list option" where
  "strtok_all 0 b str sep lst = None"
| "strtok_all (Suc fuel) b str sep lst =
     (case spd_strtok b str sep lst of
        (None, _, _) \<Rightarrow> Some []
      | (Some p, b', lst') \<Rightarrow>
          map_option (\<lambda>ts. cstr (drop p b') # ts) (strtok_all fuel b' None sep lst'))"

section \<open>Case-insensitive hash\<close>

definition schar :: "char \<Rightarrow> int" where
  "schar c = (if byte c < 128 then int (byte c) else int (byte c) - 256)"

fun case_hash_loop :: "32 word \<Rightarrow> string \<Rightarrow> 32 word" where
  "case_hash_loop hash [] = hash"
| "case_hash_loop hash (c # name) = case_hash_loop ((hash * 33) XOR word_of_int (schar (c_tolower c))) name"

text \<open>The macro \<open>abs\<close> of \<open>utils.h\<close>; \<open>-INT_MIN\<close> wraps to \<open>INT_MIN\<close>.\<close>

definition abs32 :: "32 word \<Rightarrow> 32 word" where
  "abs32 x = (if 0 \<le> sint x then x else - x)"

definition spd_str_case_hash :: "string \<Rightarrow> int" where
  "spd_str_case_hash name = sint (abs32 (case_hash_loop 5381 name))"

section \<open>Blanks are stripped\<close>

abbreviation is_blank :: "char \<Rightarrow> bool" where
  "is_blank c \<equiv> byte c < 33"

definition rtrim :: "string \<Rightarrow> string" where
  "rtrim s = rev (dropWhile is_blank (rev s))"

lemma rtrim_snoc: "rtrim (s @ [c]) = (if is_blank c then rtrim s else s @ [c])"
  by (simp add: rtrim_def)

lemma trim_loop_rtrim: "\<exists>z'. trim_loop (s @ NUL # z) (length s) = rtrim s @ NUL # z'"
proof (induction s arbitrary: z rule: rev_induct)
  case Nil
  then show ?case by (simp add: rtrim_def)
next
  case (snoc c s)
  from snoc [of "NUL # z"] show ?case
    by (simp add: rtrim_snoc nth_append list_update_append)
qed

lemma trim_blanks_cstr: "is_cstr s \<Longrightarrow> cstr (spd_trim_blanks (s @ NUL # z)) = rtrim s"
proof -
  assume s: "is_cstr s"
  from trim_loop_rtrim [of s z] obtain z' where "trim_loop (s @ NUL # z) (length s) = rtrim s @ NUL # z'"
    by blast
  moreover from s have "is_cstr (rtrim s)"
    by (auto simp: rtrim_def is_cstr_def dest: set_dropWhileD)
  ultimately show ?thesis using s by (simp add: spd_trim_blanks_def cstr_append_NUL)
qed

lemma skip_blanks_dropWhile:
  "is_cstr s \<Longrightarrow> spd_skip_blanks (s @ NUL # z) = dropWhile is_blank s @ NUL # z"
  by (induction s) auto

lemma is_cstr_dropWhile: "is_cstr s \<Longrightarrow> is_cstr (dropWhile P s)"
  by (auto simp: is_cstr_def dest: set_dropWhileD)

lemma strip_cstr: "is_cstr s \<Longrightarrow> cstr (spd_strip (s @ NUL # z)) = rtrim (dropWhile is_blank s)"
  by (simp add: spd_strip_def skip_blanks_dropWhile trim_blanks_cstr is_cstr_dropWhile)

lemma rtrim_split: "\<exists>r. s = rtrim s @ r \<and> (\<forall>c \<in> set r. is_blank c)"
proof -
  have "s = rtrim s @ rev (takeWhile is_blank (rev s))"
    by (metis rev_append rev_rev_ident rtrim_def takeWhile_dropWhile_id)
  then show ?thesis by (metis set_rev set_takeWhileD)
qed

lemma rtrim_last: "rtrim s \<noteq> [] \<Longrightarrow> \<not> is_blank (last (rtrim s))"
  by (metis hd_dropWhile hd_rev last_rev rev.simps(1) rtrim_def)

lemma rtrim_hd: "rtrim s \<noteq> [] \<Longrightarrow> hd (rtrim s) = hd s"
  by (metis hd_append2 rtrim_split)

section \<open>Copies are bounded\<close>

lemma copy_loop_result:
  assumes "i + sz \<le> length dst" "0 < i + sz"
  shows "copy_loop dst i src sz =
    (let k = min (i + length src) (i + sz - 1)
     in Some (take k (take i dst @ src) @ NUL # drop (k + 1) dst))"
  using assms
proof (induction dst i src sz rule: copy_loop.induct)
  case (1 dst i sz)
  then show ?case
    by (cases "sz = 0") (auto simp: Let_def upd_conv_take_nth_drop min_def)
next
  case (2 dst i c src sz)
  show ?case
  proof (cases "sz = 0")
    case True
    with 2(2,3) show ?thesis by (auto simp: Let_def upd_conv_take_nth_drop)
  next
    case False
    let ?d = "dst[i := c]" and ?k = "min (i + length (c # src)) (i + sz - 1)"
    have "copy_loop dst i (c # src) sz = copy_loop ?d (i + 1) src (sz - 1)"
      using False 2(2) by simp
    also have "\<dots> = (let k = min (i + 1 + length src) (i + 1 + (sz - 1) - 1)
        in Some (take k (take (i + 1) ?d @ src) @ NUL # drop (k + 1) ?d))"
      using 2(2) False by (intro 2(1)) auto
    also have "i + 1 + length src = i + length (c # src)" by simp
    also have "i + 1 + (sz - 1) - 1 = i + sz - 1" using False by simp
    also have "take (i + 1) ?d @ src = take i dst @ c # src"
      using 2(2) False by (simp add: take_Suc_conv_app_nth)
    also have "(let k = ?k in Some (take k (take i dst @ c # src) @ NUL # drop (k + 1) ?d)) =
        (let k = ?k in Some (take k (take i dst @ c # src) @ NUL # drop (k + 1) dst))"
      using False by (simp add: Let_def)
    finally show ?thesis .
  qed
qed

section \<open>Joining concatenates\<close>

fun join_text :: "nat \<Rightarrow> string list \<Rightarrow> string" where
  "join_text x [] = []"
| "join_text x (w # ws) = (if x > 0 then '' '' else []) @ w @ join_text (x + 1) ws"

lemma join_word_result:
  assumes "ofs \<le> len" "len \<le> length s"
  shows "join_word s len ofs src =
     (overwrite s ofs (take (len - ofs) src), ofs + length (take (len - ofs) src))"
  using assms
proof (induction src arbitrary: s ofs)
  case (Cons c src)
  show ?case
  proof (cases "ofs < len")
    case True
    with Cons obtain m where m: "len - ofs = Suc m" "len - Suc ofs = m" by (metis Suc_diff_Suc)
    have "overwrite (overwrite s ofs [c]) (ofs + length [c]) (take m src) = overwrite s ofs ([c] @ take m src)"
      using m Cons.prems by (intro overwrite_append) auto
    with Cons True m show ?thesis by (simp add: overwrite_single)
  qed (use Cons.prems in auto)
qed simp

lemma join_loop_result:
  assumes "ofs \<le> len" "len \<le> length s"
  shows "join_loop s len x ofs ws =
     (overwrite s ofs (take (len - ofs) (join_text x ws)), ofs + length (take (len - ofs) (join_text x ws)))"
  using assms
proof (induction ws arbitrary: s x ofs)
  case (Cons w ws)
  show ?case
  proof (cases "ofs < len")
    case True
    define sp where "sp = (if x > 0 then '' '' else [])"
    have sp: "length sp \<le> len - ofs" using True by (auto simp: sp_def)
    let ?s1 = "overwrite s ofs sp" and ?o1 = "ofs + length sp"
    let ?w = "take (len - ?o1) w" let ?s2 = "overwrite ?s1 ?o1 ?w" and ?o2 = "?o1 + length ?w"
    let ?t = "take (len - ?o2) (join_text (x + 1) ws)"
    have "join_loop s len x ofs (w # ws) = join_loop ?s2 len (x + 1) ?o2 ws"
      using True Cons.prems sp
      by (auto simp: sp_def overwrite_single join_word_result)
    also have "\<dots> = (overwrite ?s2 ?o2 ?t, ?o2 + length ?t)"
      using Cons.prems sp by (intro Cons.IH) auto
    also have "overwrite ?s2 ?o2 ?t = overwrite ?s1 ?o1 (?w @ ?t)"
      using Cons.prems sp by (intro overwrite_append) auto
    also have "overwrite ?s1 ?o1 (?w @ ?t) = overwrite s ofs (sp @ ?w @ ?t)"
      using Cons.prems sp by (intro overwrite_append) auto
    also have "sp @ ?w @ ?t = take (len - ofs) (join_text x (w # ws))"
      using sp
      by (cases "length w \<le> len - ?o1") (auto simp: sp_def diff_diff_left add.commute)
    finally show ?thesis using sp by (auto simp: sp_def)
  qed (use Cons.prems in auto)
qed simp

section \<open>Tokens are the runs between separators\<close>

function tokens :: "string \<Rightarrow> string \<Rightarrow> string list" where
  "tokens sep s =
     (let t = dropWhile (\<lambda>c. c \<in> set sep) s
      in if t = [] then []
         else takeWhile (\<lambda>c. c \<notin> set sep) t # tokens sep (dropWhile (\<lambda>c. c \<notin> set sep) t))"
  by pat_completeness auto
termination
proof (relation "measure (\<lambda>(_, s). length s)", goal_cases)
  case (2 sep s t)
  then have "t \<noteq> []" "hd t \<notin> set sep" using hd_dropWhile [of "\<lambda>c. c \<in> set sep" s] by auto
  then have "length (dropWhile (\<lambda>c. c \<notin> set sep) t) < length t"
    by (cases t) (auto simp: length_dropWhile_le le_imp_less_Suc)
  moreover have "length t \<le> length s" using 2 by (simp add: length_dropWhile_le)
  ultimately show ?case by simp
qed simp

declare tokens.simps [simp del]

lemma tokens_skip_sep: "c \<in> set sep \<Longrightarrow> tokens sep (c # s) = tokens sep s"
  by (subst (1 2) tokens.simps) simp

lemma skip_seps_pos:
  "is_cstr s \<Longrightarrow> skip_seps (p @ s @ NUL # r) sep (length p) =
     length p + length (takeWhile (\<lambda>c. c \<in> set sep) s)"
proof (induction s arbitrary: p)
  case Nil
  then show ?case by (subst skip_seps.simps) simp
next
  case (Cons c s)
  from Cons.IH [of "p @ [c]"] Cons.prems show ?case
    by (subst skip_seps.simps) (simp add: strchr_None)
qed

lemma skip_token_pos:
  "is_cstr s \<Longrightarrow> skip_token (p @ s @ NUL # r) sep (length p) =
     length p + length (takeWhile (\<lambda>c. c \<notin> set sep) s)"
proof (induction s arbitrary: p)
  case Nil
  then show ?case by (subst skip_token.simps) simp
next
  case (Cons c s)
  from Cons.IH [of "p @ [c]"] Cons.prems show ?case
    by (subst skip_token.simps) (simp add: strchr_None)
qed

text \<open>One call, at position \<open>length p\<close> of a buffer whose string from there is \<open>s\<close>.\<close>

lemma strtok_none:
  assumes "is_cstr s" "\<forall>c \<in> set s. c \<in> set sep"
    and "p0 = length p" "case str of None \<Rightarrow> lst = p0 | Some q \<Rightarrow> q = p0"
  shows "spd_strtok (p @ s @ NUL # r) str sep lst = (None, p @ s @ NUL # r, lst)"
proof -
  have "takeWhile (\<lambda>c. c \<in> set sep) s = s" using assms(2) by (simp add: takeWhile_eq_all_conv)
  with skip_seps_pos [OF assms(1), of p r sep] assms show ?thesis
    by (cases str) (auto simp: spd_strtok_def Let_def nth_append)
qed

lemma strtok_token:
  assumes s: "is_cstr s" "s = u @ c # t @ v" "\<forall>x \<in> set u. x \<in> set sep" "c \<notin> set sep"
    and t: "\<forall>x \<in> set t. x \<notin> set sep" "v = [] \<or> hd v \<in> set sep"
    and p0: "p0 = length p" "case str of None \<Rightarrow> lst = p0 | Some q \<Rightarrow> q = p0"
  shows "spd_strtok (p @ s @ NUL # r) str sep lst =
    (if v = [] then (Some (length (p @ u)), p @ s @ NUL # r, length (p @ s))
     else (Some (length (p @ u)), p @ u @ c # t @ NUL # tl v @ NUL # r, length (p @ u @ c # t) + 1))"
proof -
  let ?b = "p @ s @ NUL # r"
  have "takeWhile (\<lambda>x. x \<in> set sep) s = u" using s by (auto simp: takeWhile_append)
  with skip_seps_pos [OF s(1), of p r sep] have sk: "skip_seps ?b sep (length p) = length (p @ u)" by simp
  have "is_cstr (t @ v)" using s(1,2) by simp
  from skip_token_pos [OF this, of "p @ u @ [c]" r sep]
  have "skip_token ?b sep (length (p @ u @ [c])) =
      length (p @ u @ [c]) + length (takeWhile (\<lambda>x. x \<notin> set sep) (t @ v))"
    by (simp add: s(2))
  moreover have "takeWhile (\<lambda>x. x \<notin> set sep) (t @ v) = t"
    using t by (cases v) (auto simp: takeWhile_append)
  ultimately have st: "skip_token ?b sep (length (p @ u) + 1) = length (p @ u @ c # t)" by simp
  have c: "?b ! length (p @ u) = c" "c \<noteq> NUL"
    using s(1,2) by (auto simp: nth_append)
  have e: "?b ! length (p @ u @ c # t) = (if v = [] then NUL else hd v)"
    using s(2) by (cases v) (auto simp: nth_append)
  have hv: "v \<noteq> [] \<Longrightarrow> hd v \<noteq> NUL" using s(1,2) by (cases v) auto
  have up: "v \<noteq> [] \<Longrightarrow> ?b[length (p @ u @ c # t) := NUL] = p @ u @ c # t @ NUL # tl v @ NUL # r"
    using s(2) by (cases v) (auto simp: list_update_append)
  have ls: "v = [] \<Longrightarrow> length (p @ u @ c # t) = length (p @ s)" using s(2) by simp
  have start: "(case str of None \<Rightarrow> lst | Some q \<Rightarrow> q) = length p" using p0 by (cases str) auto
  show ?thesis
    unfolding spd_strtok_def Let_def start sk c(1) st e
    using c(2) hv up ls by (cases "v = []") simp_all
qed

lemma strtok_all_tokens:
  assumes "is_cstr s" "length s < fuel"
    and "case str of None \<Rightarrow> lst = length p | Some q \<Rightarrow> q = length p"
  shows "strtok_all fuel (p @ s @ NUL # r) str sep lst = Some (tokens sep s)"
  using assms
proof (induction fuel arbitrary: s p str lst r)
  case (Suc fuel)
  define u where "u = takeWhile (\<lambda>x. x \<in> set sep) s"
  define w where "w = dropWhile (\<lambda>x. x \<in> set sep) s"
  have sw: "s = u @ w" by (simp add: u_def w_def)
  have u: "\<forall>x \<in> set u. x \<in> set sep" unfolding u_def by (auto dest: set_takeWhileD)
  show ?case
  proof (cases w)
    case Nil
    with sw u have "\<forall>c \<in> set s. c \<in> set sep" by simp
    from strtok_none [OF Suc.prems(1) this refl Suc.prems(3)] Nil show ?thesis
      by (subst tokens.simps) (simp add: w_def [symmetric])
  next
    case (Cons c w')
    have c: "c \<notin> set sep" using Cons w_def by (metis dropWhile_hd_notP)
    define t where "t = takeWhile (\<lambda>x. x \<notin> set sep) w'"
    define v where "v = dropWhile (\<lambda>x. x \<notin> set sep) w'"
    have tv: "w' = t @ v" by (simp add: t_def v_def)
    have t: "\<forall>x \<in> set t. x \<notin> set sep" unfolding t_def by (auto dest: set_takeWhileD)
    have v: "v = [] \<or> hd v \<in> set sep" unfolding v_def
      using hd_dropWhile by (metis (mono_tags, lifting))
    have s: "s = u @ c # t @ v" using sw Cons tv by simp
    have tok: "tokens sep s = (c # t) # tokens sep v"
      using Cons c by (subst tokens.simps) (simp add: w_def [symmetric] t_def v_def)
    note one = strtok_token [OF Suc.prems(1) s u c t v refl Suc.prems(3), of r]
    have ct: "is_cstr (c # t)" "is_cstr v" using Suc.prems(1) s by simp_all
    show ?thesis
    proof (cases v)
      case Nil
      have "strtok_all fuel (p @ s @ NUL # r) None sep (length (p @ s)) = Some (tokens sep [])"
        using Suc.IH [of "[]" "length (p @ s)" "p @ s" None r] Suc.prems(2) s by simp
      with one Nil tok ct s show ?thesis by (simp add: cstr_append_NUL [of "c # t", simplified])
    next
      case (Cons x v')
      have "strtok_all fuel ((p @ u @ c # t @ [NUL]) @ v' @ NUL # r) None sep (length (p @ u @ c # t) + 1) =
          Some (tokens sep v')"
        using Suc.prems(2) s Cons ct by (intro Suc.IH) simp_all
      moreover have "tokens sep v = tokens sep v'"
        using v Cons by (simp add: tokens_skip_sep)
      ultimately show ?thesis
        using one Cons tok ct by (simp add: cstr_append_NUL [of "c # t", simplified])
    qed
  qed
qed simp

section \<open>Semicolons\<close>

text \<open>The escaping that \<open>spd_unescape_semicolon\<close> undoes.\<close>

fun escape_semicolon :: "string \<Rightarrow> string" where
  "escape_semicolon [] = []"
| "escape_semicolon (c # s) =
     (if c = CHR '';'' then [CHR 0x5C, CHR '';''] else [c]) @ escape_semicolon s"

lemma escape_no_semicolon: "CHR '';'' \<notin> set s \<Longrightarrow> escape_semicolon s = s"
  by (induction s) auto

lemma escape_append: "escape_semicolon (s @ t) = escape_semicolon s @ escape_semicolon t"
  by (induction s) auto

lemma unescape_step:
  "CHR '';'' \<notin> set p \<Longrightarrow>
   spd_unescape_semicolon (p @ CHR 0x5C # CHR '';'' # q) = p @ CHR '';'' # spd_unescape_semicolon q"
  using index_of_split [of "CHR '';''" "p @ [CHR 0x5C]" q]
  by (subst spd_unescape_semicolon.simps) (simp add: nth_append)

section \<open>Hash\<close>

lemma case_hash_loop_lower: "case_hash_loop h s = case_hash_loop h (lower s)"
  by (induction s arbitrary: h) auto

lemma spd_str_case_hash_cong: "lower a = lower b \<Longrightarrow> spd_str_case_hash a = spd_str_case_hash b"
  by (metis case_hash_loop_lower spd_str_case_hash_def)

section \<open>Properties\<close>

text \<open>
  \<open>spd_b10tob16\<close> gives the hexadecimal digit of the low four bits and
  \<open>spd_b16tob10\<close> reads it back.
\<close>

theorem hex_digit_roundtrip: "spd_b16tob10 (spd_b10tob16 c) = char_of (byte c mod 16)"
  by (simp add: spd_b10tob16_def byte_AND_15 b10_b16_nat)

text \<open>
  \<open>spd_strip\<close> returns the string without its leading and trailing blanks
  (bytes up to 32): what it drops on either side is blank, and what is left neither starts nor
  ends with a blank.
\<close>

lemma strip_correct:
  assumes "is_cstr s"
  shows "\<exists>l r. s = l @ cstr (spd_strip (s @ NUL # rest)) @ r \<and> (\<forall>c \<in> set l \<union> set r. byte c < 33) \<and>
     (cstr (spd_strip (s @ NUL # rest)) = [] \<or>
        33 \<le> byte (hd (cstr (spd_strip (s @ NUL # rest)))) \<and>
        33 \<le> byte (last (cstr (spd_strip (s @ NUL # rest)))))"
proof -
  let ?m = "dropWhile is_blank s"
  from rtrim_split [of ?m] obtain r where r: "?m = rtrim ?m @ r" "\<forall>c \<in> set r. is_blank c" by blast
  have "s = takeWhile is_blank s @ rtrim ?m @ r" using r(1) by (metis takeWhile_dropWhile_id)
  moreover have "\<forall>c \<in> set (takeWhile is_blank s). is_blank c" by (auto dest: set_takeWhileD)
  moreover have "rtrim ?m \<noteq> [] \<Longrightarrow> \<not> is_blank (hd (rtrim ?m)) \<and> \<not> is_blank (last (rtrim ?m))"
    using rtrim_last [of ?m] rtrim_hd [of ?m] hd_dropWhile [of is_blank s] r(1) by fastforce
  ultimately show ?thesis
    using r(2) unfolding strip_cstr [OF assms]
    by (intro exI [of _ "takeWhile is_blank s"] exI [of _ r]) (auto simp: not_less)
qed

theorem strip_correct_witness:
  "\<exists>l r. '' a b '' = l @ ''a b'' @ r \<and> (\<forall>c \<in> set l \<union> set r. byte c < 33)"
proof -
  have "cstr (spd_strip ('' a b '' @ NUL # [])) = ''a b''"
    using strip_cstr [of "'' a b ''" "[]"] by (simp add: byte_def rtrim_def)
  with strip_correct [of "'' a b ''" "[]"] show ?thesis by auto
qed

text \<open>
  with a limit that is positive and within the destination,
  \<open>spd_copy_string\<close> leaves the longest prefix of the source that fits with its terminator, and
  writes nothing from position \<open>sz\<close> on.
\<close>

lemma copy_string_bounded:
  assumes "is_cstr src" "0 < sz" "sz \<le> length dst"
  shows "\<exists>d. spd_copy_string dst src sz = Some d \<and> length d = length dst \<and>
           cstr d = take (sz - 1) src \<and> drop sz d = drop sz dst"
proof -
  let ?k = "min (length src) (sz - 1)"
  have "spd_copy_string dst src sz = Some (take ?k src @ NUL # drop (?k + 1) dst)"
    using assms by (simp add: spd_copy_string_def copy_loop_result Let_def)
  moreover have "cstr (take ?k src @ NUL # drop (?k + 1) dst) = take (sz - 1) src"
    by (subst cstr_append_NUL) (auto simp: is_cstr_take assms min_def)
  moreover have "?k + 1 \<le> sz" "?k \<le> length src" using assms by auto
  ultimately show ?thesis using assms(3)
    by (auto simp: drop_Cons' diff_diff_left)
qed

theorem copy_string_bounded_witness:
  "\<exists>d. spd_copy_string ''xxxx'' ''hello'' 3 = Some d \<and> cstr d = ''he'' \<and> drop 3 d = ''x''"
  using copy_string_bounded [of "''hello''" 3 "''xxxx''"] by auto

text \<open>
  \<open>spd_str_join\<close> writes the words with one space between them, cut to
  \<open>len - 1\<close> bytes and terminated, into a buffer of at least \<open>len > 0\<close> bytes, and nothing behind
  \<open>len\<close>.
\<close>

lemma str_join_correct:
  assumes "0 < len" "len \<le> length s" "\<forall>w \<in> set ws. is_cstr w"
  shows "\<exists>s'. spd_str_join s len ws = Some s' \<and>
     cstr s' = take (len - 1) (join_text 0 ws) \<and> length s' = length s \<and> drop len s' = drop len s"
proof -
  let ?t = "take len (join_text 0 ws)"
  have j: "\<And>x. is_cstr (join_text x ws)" using assms(3) by (induction ws) auto
  have l: "join_loop s len 0 0 ws = (overwrite s 0 ?t, length ?t)"
    using join_loop_result [of 0 len s 0 ws] assms by simp
  let ?k = "if length ?t = len then len - 1 else length ?t"
  have "spd_str_join s len ws = Some ((overwrite s 0 ?t)[?k := NUL])"
    using assms(1,2) by (simp add: spd_str_join_def l)
  moreover have k: "?k < len" "?k \<le> length ?t" using assms(1) by auto
  moreover have "(overwrite s 0 ?t)[?k := NUL] = take ?k ?t @ NUL # drop (?k + 1) (overwrite s 0 ?t)"
    using k assms(2) by (simp add: upd_conv_take_nth_drop overwrite_def)
  moreover have "cstr (take ?k ?t @ NUL # drop (?k + 1) (overwrite s 0 ?t)) = take (len - 1) (join_text 0 ws)"
    using assms(1) by (subst cstr_append_NUL) (auto simp: is_cstr_take j min_def)
  moreover have "drop len ((overwrite s 0 ?t)[?k := NUL]) = drop len s"
    using k(1) assms(2) by (simp add: drop_overwrite)
  ultimately show ?thesis using assms(2) by (simp del: take_append)
qed

theorem str_join_correct_witness:
  "\<exists>s'. spd_str_join ''xxxxxxxx'' 6 [''ab'', ''cde''] = Some s' \<and> cstr s' = ''ab cd'' \<and> drop 6 s' = ''xx''"
  using str_join_correct [of 6 "''xxxxxxxx''" "[''ab'', ''cde'']"] by (auto simp: numeral_eq_Suc)

text \<open>
  C40: calling \<open>spd_strtok\<close> on a string and then with \<open>NULL\<close> until it returns
  \<open>NULL\<close> gives the maximal runs of characters that are no separators, in order; one call per
  token and one more are enough.
\<close>

theorem strtok_correct:
  assumes "is_cstr s" "length s < fuel"
  shows "strtok_all fuel (s @ NUL # rest) (Some 0) sep lst = Some (tokens sep s)"
  using strtok_all_tokens [of s fuel lst "[]" "Some 0" rest sep] assms by simp

theorem strtok_correct_witness:
  "strtok_all 9 (''a,,bc;'' @ NUL # []) (Some 0) '',;'' 0 = Some [''a'', ''bc'']"
  using strtok_correct [of "''a,,bc;''" 9 "[]" "'',;''" 0] by (simp add: tokens.simps)

text \<open>
  \<open>spd_unescape_semicolon\<close> undoes the escaping of semicolons with
  backslashes, whatever other backslashes the string holds.
\<close>

lemma semicolon_roundtrip: "spd_unescape_semicolon (escape_semicolon s) = s"
proof (induction s rule: measure_induct_rule [where f = length])
  case (less s)
  show ?case
  proof (cases "CHR '';'' \<in> set s")
    case False
    then show ?thesis
      by (subst spd_unescape_semicolon.simps) (simp add: escape_no_semicolon index_of_None [THEN iffD2])
  next
    case True
    then obtain p q where pq: "s = p @ CHR '';'' # q" "CHR '';'' \<notin> set p" by (metis split_list_first)
    with less [of q] show ?thesis
      by (simp add: escape_append escape_no_semicolon unescape_step)
  qed
qed

text \<open>
  For a string in matching quotes \<open>spd_strip_quoted\<close>
  removes the opening quote but writes the terminator into the list of opening quotes, which is
  cut at that quote; the closing quote stays.
\<close>

theorem strip_quoted_keeps_closing_quote:
  assumes "spd_strip b = a # t @ [z] @ NUL # rest" "is_cstr (a # t @ [z])"
    and "index_of a fq = Some i" "i < length lq" "lq ! i = z"
  shows "\<exists>b'. spd_strip_quoted b fq lq = Some (b', take i fq) \<and> cstr b' = t @ [z]"
proof -
  have "cstr (a # t @ [z] @ NUL # rest) = a # t @ [z]" "cstr (t @ z # NUL # rest) = t @ [z]"
    using cstr_append_NUL [of "a # t @ [z]" rest] cstr_append_NUL [of "t @ [z]" rest] assms(2) by simp_all
  with assms index_of_SomeD [OF assms(3)] show ?thesis
    by (auto simp: spd_strip_quoted_def strchr_def Let_def nth_append)
qed

theorem strip_quoted_keeps_closing_quote_witness:
  "\<exists>b'. spd_strip_quoted (''[ab}'' @ [NUL]) ''[{'' ''})'' = Some (b', []) \<and> cstr b' = ''ab}''"
  using strip_quoted_keeps_closing_quote
    [of "''[ab}'' @ [NUL]" "CHR ''[''" "''ab''" "CHR ''}''" "[]" "''[{''" 0 "''})''"]
  by (simp add: spd_strip_def spd_trim_blanks_def byte_def cstr_def numeral_eq_Suc)

end
