(* ===== verification/Spd_Times.thy ===== *)
theory Spd_Times
  imports Spd_Prelude "HOL-Library.Word" "HOL-Library.Signed_Division"
begin

text \<open>
  The \<open>struct timeval\<close> arithmetic of \<open>src/times.h\<close> and \<open>src/utils.c\<close>. The two fields are 64-bit
  longs whose values stay far from their bounds and are modelled as \<open>int\<close>; division is C's,
  which truncates towards 0. The arguments of \<open>spd_samp2tv\<close> are 32-bit unsigned words.
\<close>

datatype timeval = TV (tv_sec: int) (tv_usec: int)

definition ONE_MILLION :: int where
  "ONE_MILLION = 1000000"

section \<open>Operations\<close>

definition spd_tvdiff_sec :: "timeval \<Rightarrow> timeval \<Rightarrow> int" where
  "spd_tvdiff_sec e s =
     (let result = tv_sec e - tv_sec s
      in if result > 0 \<and> tv_usec e < tv_usec s then result - 1
         else if result < 0 \<and> tv_usec e > tv_usec s then result + 1
         else result)"

definition spd_tvdiff_us :: "timeval \<Rightarrow> timeval \<Rightarrow> int" where
  "spd_tvdiff_us e s = (tv_sec e - tv_sec s) * 1000000 + tv_usec e - tv_usec s"

definition spd_tvdiff_ms :: "timeval \<Rightarrow> timeval \<Rightarrow> int" where
  "spd_tvdiff_ms e s =
     (tv_sec e - tv_sec s) * 1000 + (((1000000 + tv_usec e - tv_usec s) sdiv 1000) - 1000)"

definition spd_tvzero :: "timeval \<Rightarrow> bool" where
  "spd_tvzero t \<longleftrightarrow> tv_sec t = 0 \<and> tv_usec t = 0"

definition spd_tvcmp :: "timeval \<Rightarrow> timeval \<Rightarrow> int" where
  "spd_tvcmp a b =
     (if tv_sec a < tv_sec b then - 1
      else if tv_sec a > tv_sec b then 1
      else if tv_usec a < tv_usec b then - 1
      else if tv_usec a > tv_usec b then 1
      else 0)"

definition spd_tveq :: "timeval \<Rightarrow> timeval \<Rightarrow> bool" where
  "spd_tveq a b \<longleftrightarrow> tv_sec a = tv_sec b \<and> tv_usec a = tv_usec b"

definition spd_tv :: "int \<Rightarrow> int \<Rightarrow> timeval" where
  "spd_tv sec su = TV sec su"

text \<open>A rate of 0 divides by zero.\<close>

definition spd_samp2tv :: "32 word \<Rightarrow> 32 word \<Rightarrow> timeval option" where
  "spd_samp2tv nsamp rate =
     (if rate = 0 then None
      else Some (spd_tv (uint (nsamp div rate)) (uint ((nsamp mod rate) * (1000000 div rate)))))"

definition tvfix :: "timeval \<Rightarrow> timeval" where
  "tvfix a =
     (if tv_usec a \<ge> ONE_MILLION
      then TV (tv_sec a + tv_usec a sdiv ONE_MILLION) (tv_usec a smod ONE_MILLION)
      else if tv_usec a < 0 then TV (tv_sec a) 0
      else a)"

definition spd_tvadd :: "timeval \<Rightarrow> timeval \<Rightarrow> timeval" where
  "spd_tvadd a b =
     (let a = tvfix a; b = tvfix b; sec = tv_sec a + tv_sec b; usec = tv_usec a + tv_usec b
      in if usec \<ge> ONE_MILLION then TV (sec + 1) (usec - ONE_MILLION) else TV sec usec)"

definition spd_tvsub :: "timeval \<Rightarrow> timeval \<Rightarrow> timeval" where
  "spd_tvsub a b =
     (let a = tvfix a; b = tvfix b; sec = tv_sec a - tv_sec b; usec = tv_usec a - tv_usec b
      in if usec < 0 then TV (sec - 1) (usec + ONE_MILLION) else TV sec usec)"

section \<open>Normal forms\<close>

definition tv_ok :: "timeval \<Rightarrow> bool" where
  "tv_ok t \<longleftrightarrow> 0 \<le> tv_usec t \<and> tv_usec t < 1000000"

definition to_us :: "timeval \<Rightarrow> int" where
  "to_us t = tv_sec t * 1000000 + tv_usec t"

lemma to_us_inj: "tv_ok a \<Longrightarrow> tv_ok b \<Longrightarrow> to_us a = to_us b \<longleftrightarrow> a = b"
proof
  assume o: "tv_ok a" "tv_ok b" "to_us a = to_us b"
  have "\<not> tv_sec a < tv_sec b" "\<not> tv_sec b < tv_sec a"
    using o unfolding tv_ok_def to_us_def by linarith+
  then have "tv_sec a = tv_sec b" by simp
  with o(3) show "a = b" by (simp add: to_us_def timeval.expand)
qed simp

lemma sdiv_pos: "0 \<le> (a::int) \<Longrightarrow> 0 < b \<Longrightarrow> a sdiv b = a div b"
  by (cases "a = 0") (simp_all add: signed_divide_int_def)

lemma smod_pos: "0 \<le> (a::int) \<Longrightarrow> 0 < b \<Longrightarrow> a smod b = a mod b"
  by (cases "a = 0") (simp_all add: signed_modulo_int_def)

lemma tvfix_ok: "tv_ok (tvfix a)"
  by (auto simp: tvfix_def tv_ok_def ONE_MILLION_def smod_pos)

lemma tvfix_id: "tv_ok a \<Longrightarrow> tvfix a = a"
  by (auto simp: tvfix_def tv_ok_def ONE_MILLION_def)

lemma tvfix_us: "0 \<le> tv_usec a \<Longrightarrow> to_us (tvfix a) = to_us a"
  by (auto simp: tvfix_def to_us_def ONE_MILLION_def smod_pos sdiv_pos algebra_simps)

lemma tvadd_ok: "tv_ok (spd_tvadd a b)"
  using tvfix_ok [of a] tvfix_ok [of b] by (auto simp: spd_tvadd_def Let_def tv_ok_def ONE_MILLION_def)

lemma tvsub_ok: "tv_ok (spd_tvsub a b)"
  using tvfix_ok [of a] tvfix_ok [of b] by (auto simp: spd_tvsub_def Let_def tv_ok_def ONE_MILLION_def)

lemma tvadd_us: "to_us (spd_tvadd a b) = to_us (tvfix a) + to_us (tvfix b)"
  by (auto simp: spd_tvadd_def Let_def to_us_def ONE_MILLION_def)

lemma tvsub_us: "to_us (spd_tvsub a b) = to_us (tvfix a) - to_us (tvfix b)"
  by (auto simp: spd_tvsub_def Let_def to_us_def ONE_MILLION_def)

lemma tvdiff_us_us: "spd_tvdiff_us e s = to_us e - to_us s"
  by (simp add: spd_tvdiff_us_def to_us_def algebra_simps)

lemma spd_tvcmp_us:
  "tv_ok a \<Longrightarrow> tv_ok b \<Longrightarrow>
   spd_tvcmp a b = (if to_us a < to_us b then - 1 else if to_us a > to_us b then 1 else 0)"
  by (auto simp: spd_tvcmp_def tv_ok_def to_us_def)

text \<open>Times are ordered by \<open>spd_tvcmp\<close>; the scheduler's list is sorted in this order.\<close>

instantiation timeval :: linorder
begin

definition less_eq_timeval :: "timeval \<Rightarrow> timeval \<Rightarrow> bool" where
  "less_eq_timeval a b \<longleftrightarrow> spd_tvcmp a b \<le> 0"

definition less_timeval :: "timeval \<Rightarrow> timeval \<Rightarrow> bool" where
  "less_timeval a b \<longleftrightarrow> spd_tvcmp a b < 0"

instance
  by standard
    (auto simp: less_eq_timeval_def less_timeval_def spd_tvcmp_def timeval.expand split: if_splits)

end

section \<open>Properties\<close>

text \<open>
  \<open>spd_tvadd\<close> and \<open>spd_tvsub\<close> always give a microsecond field in
  0..999999; on times whose microseconds are not negative they add and subtract the number of
  microseconds, and on normal times \<open>spd_tvsub\<close> takes back what \<open>spd_tvadd\<close> added.
\<close>

lemma tv_arith_correct:
  assumes "0 \<le> tv_usec a" "0 \<le> tv_usec b"
  shows "tv_ok (spd_tvadd a b) \<and> to_us (spd_tvadd a b) = to_us a + to_us b \<and>
     tv_ok (spd_tvsub a b) \<and> to_us (spd_tvsub a b) = to_us a - to_us b \<and>
     spd_tvsub (spd_tvadd a b) b = tvfix a"
proof -
  have "to_us (spd_tvsub (spd_tvadd a b) b) = to_us (tvfix a)"
    by (simp add: tvsub_us tvfix_id tvadd_ok tvadd_us)
  then have "spd_tvsub (spd_tvadd a b) b = tvfix a"
    by (simp add: to_us_inj tvsub_ok tvfix_ok)
  with assms show ?thesis by (simp add: tvadd_ok tvsub_ok tvadd_us tvsub_us tvfix_us)
qed

theorem tv_arith_correct_witness:
  "spd_tvadd (TV 3 900000) (TV 1 200000) = TV 5 100000 \<and>
   spd_tvsub (spd_tvadd (TV 3 900000) (TV 1 200000)) (TV 1 200000) = TV 3 900000"
  using tv_arith_correct [of "TV 3 900000" "TV 1 200000"]
  by (simp add: tvfix_def ONE_MILLION_def spd_tvadd_def)

text \<open>
  on normal times \<open>spd_tvdiff_ms\<close> is the difference in microseconds divided
  by 1000 and rounded down, also when the difference is negative; its sign never disagrees with
  \<open>spd_tvcmp\<close>.
\<close>

lemma tvdiff_ms_floor:
  assumes "tv_ok e" "tv_ok s"
  shows "spd_tvdiff_ms e s = spd_tvdiff_us e s div 1000 \<and>
     (spd_tvdiff_ms e s < 0 \<longleftrightarrow> spd_tvcmp e s = - 1)"
proof -
  have "(1000000 + tv_usec e - tv_usec s) sdiv 1000 = (1000000 + tv_usec e - tv_usec s) div 1000"
    using assms by (intro sdiv_pos) (auto simp: tv_ok_def)
  then have "spd_tvdiff_ms e s = spd_tvdiff_us e s div 1000"
    unfolding spd_tvdiff_ms_def spd_tvdiff_us_def by simp
  then show ?thesis
    using assms by (auto simp: spd_tvcmp_us tvdiff_us_us)
qed

theorem tvdiff_ms_floor_witness:
  "spd_tvdiff_ms (TV 4 0) (TV 4 1) = spd_tvdiff_us (TV 4 0) (TV 4 1) div 1000 \<and>
   spd_tvcmp (TV 4 0) (TV 4 1) = - 1"
  using tvdiff_ms_floor [of "TV 4 0" "TV 4 1"] by (simp add: tv_ok_def spd_tvcmp_def)

text \<open>
  For every positive rate \<open>spd_samp2tv\<close> gives a normal time and its 32-bit
  product does not wrap; when the rate divides a million, as for milliseconds (rate 1000), the
  conversion is exact.
\<close>

theorem samp2tv_exact:
  assumes "rate \<noteq> 0"
  shows "\<exists>t. spd_samp2tv n rate = Some t \<and> tv_ok t \<and>
     (uint rate dvd 1000000 \<longrightarrow> to_us t * uint rate = uint n * 1000000)"
proof -
  let ?n = "uint n" and ?r = "uint rate"
  define q where "q = 1000000 div ?r"
  have r: "0 < ?r" using assms by (simp add: word_neq_0_conv word_less_def)
  have q: "0 \<le> q" "?r * q \<le> 1000000"
    using r by (simp_all add: q_def pos_imp_zdiv_nonneg_iff)
       (metis add_increasing2 mult_div_mod_eq pos_mod_sign order.refl)
  have m: "0 \<le> ?n mod ?r" "?n mod ?r < ?r" using r by simp_all
  have lt: "(?n mod ?r) * q < 1000000"
  proof (cases "q = 0")
    case False
    with m q have "(?n mod ?r) * q < ?r * q" by (intro mult_strict_right_mono) auto
    with q show ?thesis by simp
  qed simp
  have pos: "0 \<le> (?n mod ?r) * q" using m q by simp
  have "uint ((n mod rate) * (1000000 div rate)) = ((?n mod ?r) * q) mod 2 ^ 32"
    by (simp add: uint_word_ariths uint_mod uint_div q_def)
  also have "\<dots> = (?n mod ?r) * q" using lt pos by simp
  finally have u: "uint ((n mod rate) * (1000000 div rate)) = (?n mod ?r) * q" .
  have "((?n div ?r) * 1000000 + (?n mod ?r) * q) * ?r = ?n * 1000000" if "?r dvd 1000000"
  proof -
    have "q * ?r = 1000000" using that by (simp add: q_def)
    then have "((?n div ?r) * 1000000 + (?n mod ?r) * q) * ?r = (?n div ?r * ?r + ?n mod ?r) * 1000000"
      by (metis (no_types, lifting) distrib_right mult.assoc mult.commute)
    then show ?thesis by simp
  qed
  with assms u lt pos show ?thesis
    by (simp add: spd_samp2tv_def spd_tv_def tv_ok_def to_us_def uint_div)
qed

theorem samp2tv_exact_witness:
  "\<exists>t. spd_samp2tv 1500 1000 = Some t \<and> tv_ok t \<and> to_us t = 1500000"
  using samp2tv_exact [of "1000 :: 32 word" 1500] by auto

end
