(* ===== verification/Spd_Utils.thy ===== *)
theory Spd_Utils
  imports Spd_Strings Spd_Times
begin

text \<open>
  The helpers of \<open>src/utils.c\<close> and the flag macros of \<open>src/utils.h\<close>. System calls are given by
  what they return: a directory call is a function on the file system state, and a bounded write
  gets the list of the outcomes of its successive rounds.
\<close>

section \<open>Flags\<close>

type_synonym flags = "32 word"

definition spd_test_flag :: "flags \<Rightarrow> flags \<Rightarrow> flags" where
  "spd_test_flag p flag = p AND flag"

definition spd_set_flag :: "flags \<Rightarrow> flags \<Rightarrow> flags" where
  "spd_set_flag p flag = p OR flag"

definition spd_clear_flag :: "flags \<Rightarrow> flags \<Rightarrow> flags" where
  "spd_clear_flag p flag = p AND NOT flag"

definition spd_copy_flags :: "flags \<Rightarrow> flags \<Rightarrow> flags \<Rightarrow> flags" where
  "spd_copy_flags dest src flagz = (dest AND NOT flagz) OR (src AND flagz)"

definition spd_set2_flag :: "flags \<Rightarrow> bool \<Rightarrow> flags \<Rightarrow> flags" where
  "spd_set2_flag p value flag = (if value then p OR flag else p AND NOT flag)"

definition spd_set_flags_to :: "flags \<Rightarrow> flags \<Rightarrow> flags \<Rightarrow> flags" where
  "spd_set_flags_to p flag value = (p AND NOT flag) OR value"

section \<open>Boolean words\<close>

definition spd_true :: "string option \<Rightarrow> int" where
  "spd_true s =
     (case s of
        None \<Rightarrow> 0
      | Some s \<Rightarrow>
          if strcasecmp s ''yes'' = 0 \<or> strcasecmp s ''true'' = 0 \<or> strcasecmp s ''y'' = 0 \<or>
             strcasecmp s ''t'' = 0 \<or> strcasecmp s ''1'' = 0 \<or> strcasecmp s ''on'' = 0
          then - 1 else 0)"

definition spd_false :: "string option \<Rightarrow> int" where
  "spd_false s =
     (case s of
        None \<Rightarrow> 0
      | Some s \<Rightarrow>
          if strcasecmp s ''no'' = 0 \<or> strcasecmp s ''false'' = 0 \<or> strcasecmp s ''n'' = 0 \<or>
             strcasecmp s ''f'' = 0 \<or> strcasecmp s ''0'' = 0 \<or> strcasecmp s ''off'' = 0
          then - 1 else 0)"

section \<open>Directories\<close>

text \<open>
  \<open>pieces\<close> holds the text behind every slash up to the next one. \<open>mk\<close> is \<open>mkdir (path, mode)\<close>
  on the state \<open>'w\<close> of the file system: 0 or the \<open>errno\<close>.
\<close>

definition EEXIST :: int where
  "EEXIST = 17"

fun mkdir_pieces :: "string \<Rightarrow> string list" where
  "mkdir_pieces [] = []"
| "mkdir_pieces (c # p) =
     (if c = CHR ''/'' then takeWhile (\<lambda>c. c \<noteq> CHR ''/'') p # mkdir_pieces p else mkdir_pieces p)"

fun mkdir_loop :: "(string \<Rightarrow> 'w \<Rightarrow> int \<times> 'w) \<Rightarrow> string \<Rightarrow> string list \<Rightarrow> 'w \<Rightarrow> int \<times> 'w" where
  "mkdir_loop mk fullpath [] w = (0, w)"
| "mkdir_loop mk fullpath (piece # pieces) w =
     (let fullpath = fullpath @ ''/'' @ piece;
          (errno, w) = mk fullpath w
      in if errno \<noteq> 0 \<and> errno \<noteq> EEXIST then (errno, w) else mkdir_loop mk fullpath pieces w)"

definition spd_mkdir :: "(string \<Rightarrow> 'w \<Rightarrow> int \<times> 'w) \<Rightarrow> string \<Rightarrow> 'w \<Rightarrow> int \<times> 'w" where
  "spd_mkdir mk path w = mkdir_loop mk [] (mkdir_pieces path) w"

section \<open>Terminal output\<close>

definition ESC :: char where
  "ESC = CHR 0x1B"

function filter_escapes_loop :: "nat \<Rightarrow> nat \<Rightarrow> string \<Rightarrow> string" where
  "filter_escapes_loop i len line =
     (if i < len then
        (if line ! i \<noteq> ESC then filter_escapes_loop (i + 1) len line
         else if i + 2 < len \<and> byte (line ! (i + 1)) = 0x5B \<and> byte (line ! (i + 2)) \<in> {0x30, 0x31, 0x33}
         then filter_escapes_loop (i + 1) len line
         else filter_escapes_loop (i + 1) len (line[i := CHR '' '']))
      else line)"
  by pat_completeness auto
termination by (relation "measure (\<lambda>(i, len, _). len - i)") auto

declare filter_escapes_loop.simps [simp del]

definition term_filter_escapes :: "string \<Rightarrow> string" where
  "term_filter_escapes line = filter_escapes_loop 0 (length line) line"

definition COLOR_BLACK :: int where "COLOR_BLACK = 30"
definition COLOR_WHITE :: int where "COLOR_WHITE = 37"

definition term_color :: "string \<Rightarrow> int \<Rightarrow> int \<Rightarrow> nat \<Rightarrow> string" where
  "term_color inbuf fgcolor bgcolor maxout =
     (if fgcolor = 0 \<and> bgcolor = 0 then take (maxout - 1) inbuf
      else if fgcolor AND 128 \<noteq> 0 \<and> bgcolor AND 128 \<noteq> 0 then take (maxout - 1) inbuf
      else
        (let bg = (if bgcolor = 0 then COLOR_BLACK else bgcolor);
             bg = (if bg \<noteq> 0 then (bg AND NOT 128) + 10 else bg);
             attr = (if fgcolor AND 128 \<noteq> 0 then 1 else 0 :: int);
             fg = (if fgcolor AND 128 \<noteq> 0 then fgcolor AND NOT 128 else fgcolor);
             tmp = (if fg \<noteq> 0 \<and> bg \<noteq> 0 then int_dec fg @ '';'' @ int_dec bg
                    else if bg \<noteq> 0 then int_dec bg
                    else int_dec fg);
             tail = [ESC] @ ''[0;'' @ int_dec COLOR_WHITE @ '';'' @ int_dec (COLOR_BLACK + 10) @ ''m''
         in if attr \<noteq> 0
            then snprintf_out maxout ([ESC] @ ''['' @ int_dec attr @ '';'' @ tmp @ ''m'' @ inbuf @ tail)
            else snprintf_out maxout ([ESC] @ ''['' @ tmp @ ''m'' @ inbuf @ tail)))"

section \<open>Bounded writes\<close>

text \<open>
  One round of the loops: whether \<open>spd_waitfor_pollout\<close> failed, what the write returned, whether
  its \<open>errno\<close> is one that may be retried (\<open>EINTR\<close>, \<open>EAGAIN\<close>), and the milliseconds elapsed since
  the start when the round ends. A write returns at most the length it is given. The result is
  the return code and the bytes written; \<open>None\<close> when the given rounds are used up.
\<close>

record write_round =
  wr_pollfail :: bool
  wr_res :: int
  wr_retry :: bool
  wr_elapsed :: int

fun timeout_write_loop :: "write_round list \<Rightarrow> string \<Rightarrow> int \<Rightarrow> (int \<times> string) option" where
  "timeout_write_loop [] s timeoutms = (if s = [] then Some (0, []) else None)"
| "timeout_write_loop (r # rs) s timeoutms =
     (if s = [] then Some (0, [])
      else if wr_pollfail r then Some (- 1, [])
      else if wr_res r < 0 \<and> \<not> wr_retry r then Some (- 1, [])
      else
        (let n = (if wr_res r < 0 then 0 else min (nat (wr_res r)) (length s));
             out = take n s;
             s' = drop n s
         in if wr_elapsed r \<ge> timeoutms then Some ((if s' \<noteq> [] then - 1 else 0), out)
            else map_option (\<lambda>(res, out'). (res, out @ out')) (timeout_write_loop rs s' timeoutms)))"

definition spd_timeout_write :: "write_round list \<Rightarrow> string \<Rightarrow> int \<Rightarrow> (int \<times> string) option" where
  "spd_timeout_write rounds s timeoutms = timeout_write_loop rounds s timeoutms"

text \<open>
  \<open>spd_timeoutf_write\<close> ignores what \<open>fwrite\<close> returns: \<open>n\<close> stays 0, so nothing is ever taken off
  \<open>len\<close>. The outcome of the flush loop is \<open>flushfail\<close>: a flush that failed for good.
\<close>

fun timeoutf_write_loop :: "write_round list \<Rightarrow> string \<Rightarrow> int \<Rightarrow> int \<Rightarrow> (int + int) option" where
  "timeoutf_write_loop [] s n timeoutms = (if s = [] then Some (Inr n) else None)"
| "timeoutf_write_loop (r # rs) s n timeoutms =
     (if s = [] then Some (Inr n)
      else if wr_pollfail r then Some (Inl (- 1))
      else if wr_res r < 0 \<and> \<not> wr_retry r then Some (Inr (- 1))
      else
        (let s' = drop (nat n) s
         in if wr_elapsed r \<ge> timeoutms then Some (Inr (if s' \<noteq> [] then - 1 else 0))
            else timeoutf_write_loop rs s' n timeoutms))"

definition spd_timeoutf_write :: "write_round list \<Rightarrow> bool \<Rightarrow> string \<Rightarrow> int \<Rightarrow> int option" where
  "spd_timeoutf_write rounds flushfail s timeoutms =
     (case timeoutf_write_loop rounds s 0 timeoutms of
        None \<Rightarrow> None
      | Some (Inl r) \<Rightarrow> Some r
      | Some (Inr n) \<Rightarrow> (let n = (if flushfail then - 1 else n) in Some (if n < 0 then - 1 else 0)))"

section \<open>Lemmas\<close>

lemma flag_ops:
  "spd_test_flag (spd_set_flag p f) f = f"
  "spd_test_flag (spd_clear_flag p f) f = 0"
  "spd_test_flag (spd_clear_flag p f) g = spd_test_flag p (g AND NOT f)"
  "spd_copy_flags d s f AND f = s AND f"
  "spd_copy_flags d s f AND NOT f = d AND NOT f"
  by (simp_all add: spd_test_flag_def spd_set_flag_def spd_clear_flag_def spd_copy_flags_def)
     (rule bit_word_eqI; auto simp: bit_simps)+

lemma mkdir_pieces_noslash: "CHR ''/'' \<notin> set p \<Longrightarrow> mkdir_pieces p = []"
  by (induction p) auto

lemma mkdir_pieces_append_noslash: "CHR ''/'' \<notin> set p \<Longrightarrow> mkdir_pieces (p @ q) = mkdir_pieces q"
  by (induction p) auto

lemma length_filter_escapes: "length (filter_escapes_loop i len line) = length line"
  by (induction i len line rule: filter_escapes_loop.induct) (subst filter_escapes_loop.simps, auto)

text \<open>The directories that \<open>mkdir -p\<close> creates for an absolute path, outermost first.\<close>

fun dir_prefixes :: "string \<Rightarrow> string list \<Rightarrow> string list" where
  "dir_prefixes base [] = []"
| "dir_prefixes base (c # cs) = (base @ ''/'' @ c) # dir_prefixes (base @ ''/'' @ c) cs"

definition abs_path :: "string list \<Rightarrow> string" where
  "abs_path cs = concat (map (\<lambda>c. ''/'' @ c) cs)"

lemma takeWhile_noslash: "CHR ''/'' \<notin> set c \<Longrightarrow> takeWhile (\<lambda>x. x \<noteq> CHR ''/'') (c @ abs_path cs) = c"
proof (induction c)
  case Nil
  then show ?case by (cases cs) (simp_all add: abs_path_def)
qed auto

lemma mkdir_pieces_abs: "\<forall>c \<in> set cs. CHR ''/'' \<notin> set c \<Longrightarrow> mkdir_pieces (abs_path cs) = cs"
proof (induction cs)
  case (Cons c cs)
  have "abs_path (c # cs) = CHR ''/'' # c @ abs_path cs" by (simp add: abs_path_def)
  with Cons show ?case by (simp add: takeWhile_noslash mkdir_pieces_append_noslash)
qed (simp add: abs_path_def)

lemma mkdir_loop_log:
  "mkdir_loop (\<lambda>p w. (f p, w @ [p])) base cs w =
     (let ok = (\<lambda>p. f p = 0 \<or> f p = EEXIST); ps = dir_prefixes base cs
      in case dropWhile ok ps of
           [] \<Rightarrow> (0, w @ ps)
         | p # _ \<Rightarrow> (f p, w @ takeWhile ok ps @ [p]))"
proof (induction cs arbitrary: base w)
  case (Cons c cs)
  then show ?case
    by (cases "f (base @ ''/'' @ c) = 0 \<or> f (base @ ''/'' @ c) = EEXIST") (auto simp: Let_def cong: list.case_cong)
qed (simp add: Let_def)

lemma mkdir_relative: "CHR ''/'' \<notin> set d \<Longrightarrow> spd_mkdir mk (d @ p) w = spd_mkdir mk p w"
  by (simp add: spd_mkdir_def mkdir_pieces_append_noslash)

lemma timeout_write_prefix:
  "timeout_write_loop rs s t = Some (res, out) \<Longrightarrow>
     \<exists>rest. s = out @ rest \<and> (res = 0 \<and> rest = [] \<or> res = - 1 \<and> (rest \<noteq> [] \<or> s = []))"
proof (induction rs s t arbitrary: res out rule: timeout_write_loop.induct)
  case (2 r rs s t)
  show ?case
  proof (cases "s = [] \<or> wr_pollfail r \<or> wr_res r < 0 \<and> \<not> wr_retry r")
    case True
    with 2(2) show ?thesis by (auto split: if_splits)
  next
    case False
    define n where "n = (if wr_res r < 0 then 0 else min (nat (wr_res r)) (length s))"
    show ?thesis
    proof (cases "wr_elapsed r \<ge> t")
      case True
      with False 2(2) have "out = take n s" "res = (if drop n s \<noteq> [] then - 1 else 0)"
        by (auto simp: n_def Let_def)
      then show ?thesis
        by (cases "drop n s = []")
           (simp_all, metis append_take_drop_id drop_eq_Nil linorder_not_le)
    next
      case nt: False
      from False nt 2(2) obtain out' where
        r': "timeout_write_loop rs (drop n s) t = Some (res, out')" "out = take n s @ out'"
        by (auto simp: n_def Let_def)
      have "\<exists>rest. drop n s = out' @ rest \<and>
          (res = 0 \<and> rest = [] \<or> res = - 1 \<and> (rest \<noteq> [] \<or> drop n s = []))"
        using 2(1) [OF _ _ _ n_def refl refl nt r'(1)] False by simp
      then obtain rest where
        rest: "drop n s = out' @ rest" "res = 0 \<and> rest = [] \<or> res = - 1 \<and> (rest \<noteq> [] \<or> drop n s = [])"
        by blast
      have "s = out @ rest" using r'(2) rest(1) by (metis append.assoc append_take_drop_id)
      moreover have "res = 0" if "drop n s = []"
        using that r'(1) by (cases rs) auto
      ultimately show ?thesis using rest(2) by auto
    qed
  qed
qed (auto split: if_splits)

section \<open>Properties\<close>

text \<open>
  for an absolute path \<open>spd_mkdir\<close> calls \<open>mkdir\<close> on every directory of the path,
  outermost first; an existing directory is no error; the first other error ends the calls and
  is returned.
\<close>

lemma mkdir_parents:
  assumes "\<forall>c \<in> set cs. CHR ''/'' \<notin> set c"
  shows "spd_mkdir (\<lambda>p w. (f p, w @ [p])) (abs_path cs) [] =
     (let ok = (\<lambda>p. f p = 0 \<or> f p = EEXIST); ps = dir_prefixes [] cs
      in case dropWhile ok ps of
           [] \<Rightarrow> (0, ps)
         | p # _ \<Rightarrow> (f p, takeWhile ok ps @ [p]))"
  using assms by (simp add: spd_mkdir_def mkdir_pieces_abs mkdir_loop_log Let_def cong: list.case_cong)

theorem mkdir_parents_witness:
  "spd_mkdir (\<lambda>p w. ((if p = ''/a'' then 17 else 13), w @ [p])) ''/a/b/c'' [] = (13, [''/a'', ''/a/b''])"
  using mkdir_parents [of "[''a'', ''b'', ''c'']" "\<lambda>p. if p = ''/a'' then 17 else 13"]
  by (simp add: abs_path_def EEXIST_def)

text \<open>
  whatever the rounds of \<open>spd_timeout_write\<close> return, what was written
  is a prefix of the text; it returns 0 exactly when the whole text was written, and -1
  otherwise.
\<close>

lemma timeout_write_complete:
  assumes "spd_timeout_write rounds s timeoutms = Some (res, out)" "s \<noteq> []"
  shows "\<exists>rest. s = out @ rest \<and> (if rest = [] then res = 0 else res = - 1)"
  using timeout_write_prefix [of rounds s timeoutms res out] assms by (auto simp: spd_timeout_write_def)

theorem timeout_write_complete_witness:
  "\<exists>rest. ''hello'' = ''hel'' @ rest \<and> (if rest = [] then - 1 = (0::int) else - 1 = (- 1 :: int))"
  using timeout_write_complete
    [of "[\<lparr>wr_pollfail = False, wr_res = 3, wr_retry = False, wr_elapsed = 5\<rparr>,
          \<lparr>wr_pollfail = False, wr_res = - 1, wr_retry = True, wr_elapsed = 30\<rparr>]" "''hello''" 20 "- 1" "''hel''"]
  by (simp add: spd_timeout_write_def numeral_eq_Suc)

text \<open>
  \<open>spd_timeoutf_write\<close> drops the count that \<open>fwrite\<close> returns:
  on a text that is not empty it can only return -1, even when every write took all of it.
\<close>

lemma timeoutf_write_never_succeeds:
  assumes "spd_timeoutf_write rounds flushfail s timeoutms = Some res" "s \<noteq> []"
  shows "res = - 1"
proof -
  have "timeoutf_write_loop rs s 0 t = Some x \<Longrightarrow> s \<noteq> [] \<Longrightarrow> x = Inl (- 1) \<or> x = Inr (- 1)" for rs t x
    by (induction rs) (auto simp: Let_def split: if_splits)
  from this [of rounds timeoutms] assms show ?thesis
    by (auto simp: spd_timeoutf_write_def Let_def split: option.splits sum.splits if_splits)
qed

theorem timeoutf_write_never_succeeds_witness:
  "spd_timeoutf_write [\<lparr>wr_pollfail = False, wr_res = 2, wr_retry = False, wr_elapsed = 9\<rparr>] False ''ok'' 5
     = Some (- 1)"
proof -
  let ?w = "spd_timeoutf_write [\<lparr>wr_pollfail = False, wr_res = 2, wr_retry = False, wr_elapsed = 9\<rparr>] False ''ok'' 5"
  have "?w = Some (the ?w)" by (simp add: spd_timeoutf_write_def)
  from timeoutf_write_never_succeeds [OF this] this show ?thesis by simp
qed

end
