(* ===== verification/Spd_Str.thy ===== *)
theory Spd_Str
  imports Spd_Strings
begin

text \<open>
  Dynamic strings: \<open>src/str.h\<close> and \<open>src/str.c\<close>, and the older ones and the thread storage of
  \<open>src/threadprivdata.c\<close>. The bytes behind the header are the list \<open>ds_buf\<close>, whose length is what
  was really allocated; a write outside it has no result. \<open>out\<close> is the text that
  \<open>vsnprintf\<close> makes of the format and its arguments. Allocations succeed when \<open>mem\<close> holds.
\<close>

section \<open>Thread storage\<close>

text \<open>
  The slots of the running thread; \<open>fresh\<close> is the zeroed block of \<open>spd_calloc\<close> or \<open>NULL\<close>,
  \<open>init_custom\<close> the optional initialiser, which may change the block and fail.
\<close>

definition spd_threadprivdata_get ::
  "(addr \<Rightarrow> 'b option) \<Rightarrow> addr \<Rightarrow> 'b option \<Rightarrow> ('b \<Rightarrow> int \<times> 'b) option \<Rightarrow> 'b option \<times> (addr \<Rightarrow> 'b option)" where
  "spd_threadprivdata_get store ts fresh init_custom =
     (case store ts of
        Some buf \<Rightarrow> (Some buf, store)
      | None \<Rightarrow>
          (case fresh of
             None \<Rightarrow> (None, store)
           | Some buf \<Rightarrow>
               (case init_custom of
                  None \<Rightarrow> (Some buf, store(ts := Some buf))
                | Some init \<Rightarrow>
                    (let (res, buf) = init buf
                     in if res \<noteq> 0 then (None, store) else (Some buf, store(ts := Some buf))))))"

section \<open>Dynamic strings\<close>

datatype str_tpv = STR_MALLOC | STR_ALLOCA | STR_TLS addr

record spd_str =
  ds_len :: nat
  ds_used :: nat
  ds_tpv :: str_tpv
  ds_buf :: "char list"

definition SPD_STR_BUILD_FAILED :: int where "SPD_STR_BUILD_FAILED = - 1"

definition spd_str_create :: "bool \<Rightarrow> nat \<Rightarrow> spd_str option" where
  "spd_str_create mem init_len =
     (if mem then Some \<lparr>ds_len = init_len, ds_used = 0, ds_tpv = STR_MALLOC, ds_buf = replicate init_len NUL\<rparr>
      else None)"

text \<open>
  The block is on the stack and holds what was there, \<open>junk\<close>. (The source has the name \<open>DS_ALLOCA\<close>,
  which does not exist, for \<open>STR_ALLOCA\<close>.) A string without bytes is written behind its end.
\<close>

definition spd_str_alloca :: "nat \<Rightarrow> char list \<Rightarrow> spd_str option" where
  "spd_str_alloca init_len junk =
     (if init_len = 0 then None
      else Some \<lparr>ds_len = init_len, ds_used = 0, ds_tpv = STR_ALLOCA, ds_buf = (take init_len junk)[0 := NUL]\<rparr>)"

definition spd_str_reset :: "spd_str option \<Rightarrow> spd_str option" where
  "spd_str_reset buf =
     map_option (\<lambda>b. let b = b\<lparr>ds_used := 0\<rparr>
                     in if ds_len b > 0 then b\<lparr>ds_buf := (ds_buf b)[0 := NUL]\<rparr> else b) buf"

definition spd_str_updata :: "spd_str \<Rightarrow> spd_str" where
  "spd_str_updata buf = buf\<lparr>ds_used := length (cstr (ds_buf buf))\<rparr>"

definition spd_str_len :: "spd_str \<Rightarrow> nat" where
  "spd_str_len buf = ds_used buf"

definition spd_str_size :: "spd_str \<Rightarrow> nat" where
  "spd_str_size buf = ds_len buf"

definition spd_str_buffer :: "spd_str \<Rightarrow> char list" where
  "spd_str_buffer buf = ds_buf buf"

definition spd_str_truncate :: "spd_str \<Rightarrow> int \<Rightarrow> spd_str option" where
  "spd_str_truncate buf len =
     (let used = (if len < 0
                  then (if \<bar>len\<bar> > int (ds_used buf) then 0 else nat (int (ds_used buf) + len))
                  else nat len)
      in if used < length (ds_buf buf)
         then Some (buf\<lparr>ds_used := used, ds_buf := (ds_buf buf)[used := NUL]\<rparr>)
         else None)"

text \<open>
  \<open>spd_str_make_space\<close> returns its code (\<open>None\<close>: the function ends without a return statement),
  the string, and whether the thread's slot is set. The new block has 8 bytes, the size of a
  pointer, for a header of 24.
\<close>

definition spd_str_make_space :: "bool \<Rightarrow> spd_str \<Rightarrow> nat \<Rightarrow> int option \<times> spd_str \<times> bool" where
  "spd_str_make_space mem buf new_len =
     (if ds_len buf \<le> new_len then (Some 0, buf, False)
      else if ds_tpv buf = STR_ALLOCA then (Some (- 1), buf, False)
      else if \<not> mem then (Some (- 1), buf, False)
      else (None, buf\<lparr>ds_buf := take (new_len - 16) (ds_buf buf), ds_len := new_len\<rparr>,
            ds_tpv buf \<noteq> STR_MALLOC))"

text \<open>\<open>vsnprintf (buf + p, n, ...)\<close>; the result is the new buffer.\<close>

definition vsn_write :: "char list \<Rightarrow> nat \<Rightarrow> nat \<Rightarrow> string \<Rightarrow> char list option" where
  "vsn_write b p n out =
     (if n = 0 then Some b
      else (let t = snprintf_out n out @ [NUL]
            in if p + length t \<le> length b then Some (overwrite b p t) else None))"

text \<open>
  The loop of \<open>__spd_str_helper\<close> with its result, the return code and the string. A code of
  \<open>spd_str_make_space\<close> that is undefined leaves the helper without a result; so does a loop that
  never ends, and a string whose use exceeds its length, for which the room is a huge number.
\<close>

partial_function (option) str_helper_loop ::
  "bool \<Rightarrow> int \<Rightarrow> nat \<Rightarrow> string \<Rightarrow> spd_str \<Rightarrow> (int \<times> spd_str) option" where
  "str_helper_loop mem max_len offset out buf =
     (let max_len = (if max_len < 0 then int (ds_len buf) else max_len);
          res = length out;
          need = res + offset + 1
      in case (if offset > ds_len buf then None else vsn_write (ds_buf buf) offset (ds_len buf - offset) out) of
           None \<Rightarrow> None
         | Some b \<Rightarrow>
             (let buf = buf\<lparr>ds_buf := b\<rparr>
              in if need > ds_len buf \<and> (max_len = 0 \<or> int (ds_len buf) < max_len) then
                   (let need = (if max_len \<noteq> 0 \<and> max_len < int need then nat max_len
                                else if max_len = 0 then need + 16 + need div 4 else need)
                    in case spd_str_make_space mem buf need of
                         (None, _) \<Rightarrow> None
                       | (Some r, buf, _) \<Rightarrow>
                           if r \<noteq> 0 then Some (SPD_STR_BUILD_FAILED, buf)
                           else if offset < length (ds_buf buf)
                           then str_helper_loop mem max_len offset out
                                  (buf\<lparr>ds_buf := (ds_buf buf)[offset := NUL]\<rparr>)
                           else None)
                 else Some (int res,
                   buf\<lparr>ds_used := (if res + offset > ds_len buf then ds_len buf - 1 else res + offset)\<rparr>)))"

definition u_spd_str_helper :: "bool \<Rightarrow> spd_str \<Rightarrow> int \<Rightarrow> bool \<Rightarrow> string \<Rightarrow> (int \<times> spd_str) option" where
  "u_spd_str_helper mem buf max_len append_p out =
     str_helper_loop mem max_len (if append_p \<and> ds_len buf > 0 then ds_used buf else 0) out buf"

definition spd_str_set_va :: "bool \<Rightarrow> spd_str \<Rightarrow> int \<Rightarrow> string \<Rightarrow> (int \<times> spd_str) option" where
  "spd_str_set_va mem buf max_len out = u_spd_str_helper mem buf max_len False out"

definition spd_str_append_va :: "bool \<Rightarrow> spd_str \<Rightarrow> int \<Rightarrow> string \<Rightarrow> (int \<times> spd_str) option" where
  "spd_str_append_va mem buf max_len out = u_spd_str_helper mem buf max_len True out"

definition spd_str_set :: "bool \<Rightarrow> spd_str \<Rightarrow> int \<Rightarrow> string \<Rightarrow> (int \<times> spd_str) option" where
  "spd_str_set mem buf max_len out = spd_str_set_va mem buf max_len out"

definition spd_str_append :: "bool \<Rightarrow> spd_str \<Rightarrow> int \<Rightarrow> string \<Rightarrow> (int \<times> spd_str) option" where
  "spd_str_append mem buf max_len out = spd_str_append_va mem buf max_len out"

text \<open>
  The loop of \<open>__spd_str_helper2\<close>; \<open>p\<close> is \<open>ptr - buf\<close>. The result has the final \<open>ptr\<close> and \<open>maxlen\<close>.
\<close>

fun put_byte :: "spd_str \<Rightarrow> nat \<Rightarrow> char \<Rightarrow> spd_str option" where
  "put_byte buf p c =
     (if p < length (ds_buf buf) then Some (buf\<lparr>ds_buf := (ds_buf buf)[p := c], ds_used := ds_used buf + 1\<rparr>)
      else None)"

fun str_helper2_loop ::
  "bool \<Rightarrow> bool \<Rightarrow> bool \<Rightarrow> spd_str \<Rightarrow> nat \<Rightarrow> string \<Rightarrow> nat \<Rightarrow> int \<Rightarrow> (spd_str \<times> nat \<times> int) option" where
  "str_helper2_loop mem escp dyn buf p [] maxsrc maxlen = Some (buf, p, maxlen)"
| "str_helper2_loop mem escp dyn buf p (c # src) maxsrc maxlen =
     (if maxsrc = 0 \<or> maxlen = 0 \<or> (escp \<and> maxlen = 1) then Some (buf, p, maxlen)
      else
        Option.bind
          (if escp \<and> (c = CHR 0x5C \<or> c = CHR '','')
           then map_option (\<lambda>b. (b, p + 1, maxlen - 1)) (put_byte buf p (CHR 0x5C))
           else Some (buf, p, maxlen))
          (\<lambda>(buf, p, maxlen).
             Option.bind (put_byte buf p c)
               (\<lambda>buf. let p = p + 1; maxlen = maxlen - 1
                      in if int p \<ge> int (ds_len buf) - 3 \<or>
                            (dyn \<and> (maxlen = 0 \<or> (escp \<and> maxlen = 1)))
                         then (let old = ds_len buf
                               in case spd_str_make_space mem buf (ds_len buf * 2) of
                                    (None, _) \<Rightarrow> None
                                  | (Some r, buf, _) \<Rightarrow>
                                      if r \<noteq> 0 then Some (buf, p, maxlen)
                                      else str_helper2_loop mem escp dyn buf p src (maxsrc - 1) (int old))
                         else str_helper2_loop mem escp dyn buf p src (maxsrc - 1) maxlen)))"

definition u_spd_str_helper2 ::
  "bool \<Rightarrow> spd_str \<Rightarrow> int \<Rightarrow> string \<Rightarrow> nat \<Rightarrow> bool \<Rightarrow> bool \<Rightarrow> spd_str option" where
  "u_spd_str_helper2 mem buf maxlen src maxsrc append_p escapecommas =
     (let dyn = (maxlen = 0);
          p = (if append_p then ds_used buf else 0);
          maxlen = (if maxlen < 1 then int (ds_len buf) else maxlen)
      in Option.bind (str_helper2_loop mem escapecommas dyn buf p src maxsrc maxlen)
           (\<lambda>(buf, p, maxlen).
              if maxlen = 0 \<and> p = 0 then None
              else (let p = (if maxlen = 0 then p - 1 else p)
                    in if p < length (ds_buf buf) then Some (buf\<lparr>ds_buf := (ds_buf buf)[p := NUL]\<rparr>)
                       else None)))"

definition spd_str_append_substr :: "bool \<Rightarrow> spd_str \<Rightarrow> int \<Rightarrow> string \<Rightarrow> nat \<Rightarrow> spd_str option" where
  "spd_str_append_substr mem buf maxlen src maxsrc = u_spd_str_helper2 mem buf maxlen src maxsrc True False"

definition spd_str_set_escapecommas :: "bool \<Rightarrow> spd_str \<Rightarrow> int \<Rightarrow> string \<Rightarrow> nat \<Rightarrow> spd_str option" where
  "spd_str_set_escapecommas mem buf maxlen src maxsrc = u_spd_str_helper2 mem buf maxlen src maxsrc False True"

definition spd_str_append_escapecommas :: "bool \<Rightarrow> spd_str \<Rightarrow> int \<Rightarrow> string \<Rightarrow> nat \<Rightarrow> spd_str option" where
  "spd_str_append_escapecommas mem buf maxlen src maxsrc = u_spd_str_helper2 mem buf maxlen src maxsrc True True"

definition spd_str_thread_get ::
  "(addr \<Rightarrow> spd_str option) \<Rightarrow> bool \<Rightarrow> addr \<Rightarrow> nat \<Rightarrow> spd_str option \<times> (addr \<Rightarrow> spd_str option)" where
  "spd_str_thread_get store mem ts init_len =
     (let fresh = (if mem then Some \<lparr>ds_len = 0, ds_used = 0, ds_tpv = STR_TLS 0, ds_buf = replicate init_len NUL\<rparr>
                   else None)
      in case spd_threadprivdata_get store ts fresh None of
           (None, store) \<Rightarrow> (None, store)
         | (Some buf, store) \<Rightarrow>
             (let buf = (if ds_len buf = 0 then buf\<lparr>ds_len := init_len, ds_used := 0, ds_tpv := STR_TLS ts\<rparr> else buf)
              in (Some buf, store(ts := Some buf))))"

section \<open>The older dynamic strings\<close>

record spd_dynamic_str =
  dn_len :: nat
  dn_str :: "char list"

definition SPD_DNMCSTR_BUILD_FAILEDD :: int where "SPD_DNMCSTR_BUILD_FAILEDD = - 1"
definition SPD_DNMCSTR_BUILD_RETRY :: int where "SPD_DNMCSTR_BUILD_RETRY = - 2"

definition spd_dynamic_str_create :: "bool \<Rightarrow> nat \<Rightarrow> spd_dynamic_str option" where
  "spd_dynamic_str_create mem len =
     (if mem then Some \<lparr>dn_len = len, dn_str = replicate len NUL\<rparr> else None)"

definition spd_dynamic_str_get ::
  "(addr \<Rightarrow> spd_dynamic_str option) \<Rightarrow> bool \<Rightarrow> addr \<Rightarrow> nat
     \<Rightarrow> spd_dynamic_str option \<times> (addr \<Rightarrow> spd_dynamic_str option)" where
  "spd_dynamic_str_get store mem tpd len =
     (case spd_threadprivdata_get store tpd
             (if mem then Some \<lparr>dn_len = 0, dn_str = replicate len NUL\<rparr> else None) None of
        (None, store) \<Rightarrow> (None, store)
      | (Some buf, store) \<Rightarrow>
          (let buf = (if dn_len buf = 0 then buf\<lparr>dn_len := len\<rparr> else buf)
           in (Some buf, store(tpd := Some buf))))"

text \<open>
  The code of one call, \<open>None\<close> when it falls off the end of the function, and the string. The
  bytes a longer block gains are not initialised; they are NUL here.
\<close>

definition spd_thread_dynamic_str_build_helper ::
  "bool \<Rightarrow> spd_dynamic_str \<Rightarrow> nat \<Rightarrow> bool \<Rightarrow> string \<Rightarrow> (int option \<times> spd_dynamic_str option) option" where
  "spd_thread_dynamic_str_build_helper mem buf max_len append_p out =
     (let offset = (if append_p \<and> dn_len buf > 0 then length (cstr (dn_str buf)) else 0);
          need = length out + offset + 1
      in case vsn_write (dn_str buf) offset (dn_len buf - offset) out of
           None \<Rightarrow> None
         | Some b \<Rightarrow>
             if need > dn_len buf \<and> (if max_len > 0 then dn_len buf < max_len else True) then
               (let len = (if max_len > 0 then (if need < max_len then need else max_len) else need);
                    s = b @ replicate (len - length b) NUL
                in if \<not> mem then Some (Some SPD_DNMCSTR_BUILD_FAILEDD, None)
                   else Some (Some SPD_DNMCSTR_BUILD_RETRY,
                          Some \<lparr>dn_len = len, dn_str = (if append_p then s[offset := NUL] else s)\<rparr>))
             else Some (None, Some (buf\<lparr>dn_str := b\<rparr>)))"

section \<open>Well-formed strings\<close>

definition str_ok :: "spd_str \<Rightarrow> bool" where
  "str_ok b \<longleftrightarrow> ds_used b < ds_len b \<and> ds_len b \<le> length (ds_buf b) \<and>
     is_cstr (take (ds_used b) (ds_buf b)) \<and> ds_buf b ! ds_used b = NUL"

text \<open>A string on the stack is well formed, and it never grows.\<close>

lemma alloca_ok:
  assumes "spd_str_alloca n junk = Some b" "length junk = n"
  shows "str_ok b \<and> snd (snd (spd_str_make_space mem b m)) = False \<and> fst (snd (spd_str_make_space mem b m)) = b"
  using assms by (auto simp: spd_str_alloca_def str_ok_def is_cstr_def spd_str_make_space_def split: if_splits)

lemma cstr_at: "n < length b \<Longrightarrow> is_cstr (take n b) \<Longrightarrow> b ! n = NUL \<Longrightarrow> cstr b = take n b"
  by (metis cstr_append_NUL id_take_nth_drop)

lemma str_ok_text: "str_ok b \<Longrightarrow> cstr (ds_buf b) = take (ds_used b) (ds_buf b)"
  by (auto simp: str_ok_def intro!: cstr_at)

lemma str_create_ok: "0 < n \<Longrightarrow> \<exists>b. spd_str_create True n = Some b \<and> str_ok b \<and> cstr (ds_buf b) = []"
  by (cases n) (auto simp: spd_str_create_def str_ok_def cstr_def)

lemma str_reset_ok: "str_ok b \<Longrightarrow> \<exists>b'. spd_str_reset (Some b) = Some b' \<and> str_ok b' \<and> cstr (ds_buf b') = []"
  by (cases "ds_buf b") (auto simp: spd_str_reset_def str_ok_def cstr_def Let_def)

text \<open>The inverted test: the function never makes a block larger.\<close>

lemma make_space_no_growth:
  "ds_len buf \<le> new_len \<Longrightarrow> spd_str_make_space mem buf new_len = (Some 0, buf, False)"
  by (simp add: spd_str_make_space_def)

lemma vsn_write_fits:
  "p + length out + 1 \<le> n + p \<Longrightarrow> p + n \<le> length b \<Longrightarrow>
   vsn_write b p n out = Some (overwrite b p (out @ [NUL]))"
  by (auto simp: vsn_write_def snprintf_out_def Let_def)

lemma append_ok:
  assumes "str_ok b" "is_cstr out" "ds_used b + length out < ds_len b"
  defines "b' \<equiv> b\<lparr>ds_buf := overwrite (ds_buf b) (ds_used b) (out @ [NUL]), ds_used := ds_used b + length out\<rparr>"
  shows "str_ok b' \<and> cstr (ds_buf b') = cstr (ds_buf b) @ out"
proof -
  have ow: "overwrite (ds_buf b) (ds_used b) (out @ [NUL]) =
     (take (ds_used b) (ds_buf b) @ out) @ NUL # drop (ds_used b + length out + 1) (ds_buf b)"
    by (simp add: overwrite_def)
  have u: "ds_used b \<le> length (ds_buf b)" using assms(1) by (simp add: str_ok_def)
  have c: "is_cstr (take (ds_used b) (ds_buf b) @ out)" using assms(1,2) by (simp add: str_ok_def)
  have len: "length (take (ds_used b) (ds_buf b) @ out) = ds_used b + length out" using u by simp
  have n: "overwrite (ds_buf b) (ds_used b) (out @ [NUL]) ! (ds_used b + length out) = NUL"
    unfolding ow len [symmetric] by (rule nth_append_length)
  have t: "take (ds_used b + length out) (overwrite (ds_buf b) (ds_used b) (out @ [NUL])) =
      take (ds_used b) (ds_buf b) @ out"
    unfolding ow using len by (metis append_eq_conv_conj)
  have l: "length (overwrite (ds_buf b) (ds_used b) (out @ [NUL])) = length (ds_buf b)"
    using assms(1,3) by (intro length_overwrite) (simp add: str_ok_def)
  have "str_ok b'"
    using assms(1,3) c n t l by (simp add: str_ok_def b'_def)
  moreover have "cstr (ds_buf b') = cstr (ds_buf b) @ out"
    using str_ok_text [OF assms(1)] cstr_append_NUL [OF c] by (simp add: b'_def ow)
  ultimately show ?thesis by blast
qed

text \<open>The second helper without escaping, as long as the bytes fit.\<close>

lemma helper2_overflow:
  assumes "length (ds_buf buf) \<le> ds_len buf" "0 < maxlen" "length src \<le> maxsrc"
    and "length (ds_buf buf) < p + length src" "p \<le> length (ds_buf buf)"
  shows "str_helper2_loop mem False True buf p src maxsrc maxlen = None"
  using assms
proof (induction src arbitrary: buf p maxsrc maxlen)
  case (Cons c src)
  show ?case
  proof (cases "p < length (ds_buf buf)")
    case True
    let ?b = "buf\<lparr>ds_buf := (ds_buf buf)[p := c], ds_used := ds_used buf + 1\<rparr>"
    from True have "0 < ds_len buf" using Cons.prems(1) by linarith
    moreover have "str_helper2_loop mem False True ?b (p + 1) src (maxsrc - 1) m = None" if "0 < m" for m
      using Cons.prems that True by (intro Cons.IH) auto
    ultimately show ?thesis
      using Cons.prems True by (auto simp: Let_def make_space_no_growth)
  qed (use Cons.prems in auto)
qed simp

section \<open>Properties\<close>

text \<open>
  when the text and its terminator fit, \<open>spd_str_append\<close> appends it to the
  stored string, keeps the string well formed and returns the length of the text, for every
  \<open>max_len\<close>.
\<close>

lemma str_append_fits:
  assumes "str_ok b" "is_cstr out" "ds_used b + length out < ds_len b"
  shows "\<exists>b'. spd_str_append mem b max_len out = Some (int (length out), b') \<and> str_ok b' \<and>
     cstr (ds_buf b') = cstr (ds_buf b) @ out \<and> ds_len b' = ds_len b"
proof -
  have w: "vsn_write (ds_buf b) (ds_used b) (ds_len b - ds_used b) out =
      Some (overwrite (ds_buf b) (ds_used b) (out @ [NUL]))"
    using assms(1,3) by (intro vsn_write_fits) (auto simp: str_ok_def)
  have "spd_str_append mem b max_len out = Some (int (length out),
      b\<lparr>ds_buf := overwrite (ds_buf b) (ds_used b) (out @ [NUL]), ds_used := ds_used b + length out\<rparr>)"
    using assms(3) by (subst spd_str_append_def, subst spd_str_append_va_def, subst u_spd_str_helper_def, subst str_helper_loop.simps)
      (auto simp: Let_def w add.commute)
  with append_ok [OF assms] show ?thesis by auto
qed

theorem str_append_fits_witness:
  "\<exists>b'. spd_str_append True \<lparr>ds_len = 8, ds_used = 2, ds_tpv = STR_MALLOC, ds_buf = ''ab'' @ replicate 6 NUL\<rparr> 0 ''cde''
     = Some (3, b') \<and> cstr (ds_buf b') = ''abcde''"
  using str_append_fits [of "\<lparr>ds_len = 8, ds_used = 2, ds_tpv = STR_MALLOC, ds_buf = ''ab'' @ replicate 6 NUL\<rparr>"
      "''cde''" True 0]
  by (auto simp: str_ok_def cstr_def numeral_eq_Suc)

text \<open>
  when the text does not fit and the limit would allow a longer block,
  \<open>__spd_str_helper\<close> has no result: \<open>spd_str_make_space\<close> answers a request for more space with
  success and does nothing, so the loop is entered again in the same situation for ever.
\<close>

lemma str_helper_never_grows:
  assumes "offset = (if append_p \<and> ds_len b > 0 then ds_used b else 0)"
    and "length out + offset + 1 > ds_len b" "max_len = 0 \<or> int (ds_len b) < max_len"
  shows "u_spd_str_helper mem b max_len append_p out = None"
proof -
  have "\<not> (length o' + off + 1 > ds_len b \<and> (ml = 0 \<or> int (ds_len b) < ml))"
    if "str_helper_loop m ml off o' b = Some y" for m ml off o' b y
  proof (rule str_helper_loop.raw_induct [where P = "\<lambda>m ml off o' b y.
        \<not> (length o' + off + 1 > ds_len b \<and> (ml = 0 \<or> int (ds_len b) < ml))", OF _ that], goal_cases)
    case (1 rec m ml off o' b y)
    show ?case
    proof
      assume c: "length o' + off + 1 > ds_len b \<and> (ml = 0 \<or> int (ds_len b) < ml)"
      define nd where "nd = (if ml \<noteq> 0 \<and> ml < int (length o' + off + 1) then nat ml
          else if ml = 0 then length o' + off + 1 + 16 + (length o' + off + 1) div 4 else length o' + off + 1)"
      have nd: "ds_len b \<le> nd" "\<not> ml < 0" using c by (auto simp: nd_def)
      from 1(2) c nd obtain bb where
        "rec m ml off o' (b\<lparr>ds_buf := bb\<rparr>) = Some y"
        by (auto simp: Let_def make_space_no_growth nd_def [symmetric] split: option.splits if_splits)
      from 1(1) [OF this] c show False by simp
    qed
  qed
  from this [of mem max_len offset out b] assms show ?thesis
    by (cases "str_helper_loop mem max_len offset out b") (auto simp: u_spd_str_helper_def)
qed

theorem str_helper_never_grows_witness:
  "u_spd_str_helper True \<lparr>ds_len = 2, ds_used = 0, ds_tpv = STR_MALLOC, ds_buf = [NUL, NUL]\<rparr> 0 True ''hello'' = None"
  using str_helper_never_grows [of 0 True "\<lparr>ds_len = 2, ds_used = 0, ds_tpv = STR_MALLOC, ds_buf = [NUL, NUL]\<rparr>"
      "''hello''" 0 True]
  by simp

text \<open>
  \<open>spd_str_append_substr\<close> without a limit writes past the end of the
  block as soon as the bytes to copy do not fit behind the stored ones.
\<close>

lemma append_substr_overflow:
  assumes "str_ok b" "ds_len b = length (ds_buf b)" "length src \<le> maxsrc"
    and "ds_len b < ds_used b + length src"
  shows "spd_str_append_substr mem b 0 src maxsrc = None"
proof -
  have "ds_buf b \<noteq> []" using assms(1,2) by (auto simp: str_ok_def)
  with helper2_overflow [of b "int (ds_len b)" src maxsrc "ds_used b" mem] assms show ?thesis
    by (simp add: spd_str_append_substr_def u_spd_str_helper2_def str_ok_def)
qed

theorem append_substr_overflow_witness:
  "spd_str_append_substr True \<lparr>ds_len = 3, ds_used = 1, ds_tpv = STR_MALLOC, ds_buf = [CHR ''a'', NUL, NUL]\<rparr> 0 ''bcd'' 9
     = None"
  using append_substr_overflow [of "\<lparr>ds_len = 3, ds_used = 1, ds_tpv = STR_MALLOC, ds_buf = [CHR ''a'', NUL, NUL]\<rparr>"
     "''bcd''" 9 True]
  by (simp add: str_ok_def)

text \<open>
  \<open>spd_thread_dynamic_str_build_helper\<close> with no maximum, on a block whose
  first string fits: a text that does not fit makes it ask for a retry with a block that is just
  long enough, and the second call writes the whole text behind the old one and does not ask
  again.
\<close>

lemma dynamic_str_one_retry:
  assumes "dn_len b = length (dn_str b)" "NUL \<in> set (dn_str b)" "is_cstr out"
    and "dn_len b < length (cstr (dn_str b)) + length out + 1"
  shows "\<exists>b1 b2. spd_thread_dynamic_str_build_helper True b 0 True out = Some (Some SPD_DNMCSTR_BUILD_RETRY, Some b1) \<and>
     dn_len b1 = length (cstr (dn_str b)) + length out + 1 \<and>
     spd_thread_dynamic_str_build_helper True b1 0 True out = Some (None, Some b2) \<and>
     cstr (dn_str b2) = cstr (dn_str b) @ out"
proof -
  obtain t where t: "dn_str b = cstr (dn_str b) @ NUL # t"
  proof -
    from assms(2) obtain u v where "dn_str b = u @ NUL # v" "NUL \<notin> set u" by (metis split_list_first)
    then show ?thesis using that by (metis cstr_append_NUL is_cstr_def)
  qed
  define s where "s = cstr (dn_str b)"
  have t': "dn_str b = s @ NUL # t" using t by (simp add: s_def)
  have s: "is_cstr s" "length s < length (dn_str b)"
    using arg_cong [OF t', of length] by (simp_all add: s_def)
  have pos: "0 < dn_len b" using assms(1) s(2) by linarith
  let ?n = "length s + length out + 1"
  let ?w = "snprintf_out (dn_len b - length s) out @ [NUL]"
  let ?b = "overwrite (dn_str b) (length s) ?w"
  have lw: "length s + length ?w \<le> length (dn_str b)"
    using s(2) assms(1) by (auto simp: snprintf_out_def)
  have w: "vsn_write (dn_str b) (length s) (dn_len b - length s) out = Some ?b"
    using lw s(2) assms(1) by (simp add: vsn_write_def Let_def)
  have lb: "length ?b = dn_len b" using lw assms(1) by simp
  have tb: "take (length s) ?b = s"
    by (subst take_overwrite_before) (use s(2) t' in simp_all)
  define b1 where "b1 = \<lparr>dn_len = ?n, dn_str = (?b @ replicate (?n - length ?b) NUL)[length s := NUL]\<rparr>"
  have one: "spd_thread_dynamic_str_build_helper True b 0 True out = Some (Some SPD_DNMCSTR_BUILD_RETRY, Some b1)"
    using assms(4) pos w
    by (simp add: spd_thread_dynamic_str_build_helper_def Let_def s_def [symmetric] b1_def add.commute add.left_commute)
  have l1: "length (dn_str b1) = ?n" using assms(4) lb by (simp add: b1_def s_def [symmetric])
  have t1: "take (length s) (dn_str b1) = s" using tb lb s(2) assms(1) by (simp add: b1_def)
  have n1: "dn_str b1 ! length s = NUL" using lb s(2) assms(1) by (simp add: b1_def)
  have c1: "cstr (dn_str b1) = s" using cstr_at [of "length s" "dn_str b1"] t1 n1 l1 s(1) by simp
  define b2 where "b2 = b1\<lparr>dn_str := overwrite (dn_str b1) (length s) (out @ [NUL])\<rparr>"
  have w2: "vsn_write (dn_str b1) (length s) (dn_len b1 - length s) out = Some (overwrite (dn_str b1) (length s) (out @ [NUL]))"
    using l1 by (intro vsn_write_fits) (auto simp: b1_def)
  have "spd_thread_dynamic_str_build_helper True b1 0 True out = Some (None, Some b2)"
    using w2 by (simp add: spd_thread_dynamic_str_build_helper_def Let_def c1 b2_def)
      (simp add: b1_def)
  moreover have "cstr (dn_str b2) = s @ out"
    using cstr_append_NUL [of "s @ out"] s(1) assms(3) t1 by (simp add: b2_def overwrite_def)
  ultimately show ?thesis using one by (auto simp: b1_def s_def)
qed

theorem dynamic_str_one_retry_witness:
  "\<exists>b1 b2. spd_thread_dynamic_str_build_helper True \<lparr>dn_len = 3, dn_str = [CHR ''a'', NUL, NUL]\<rparr> 0 True ''bcd''
       = Some (Some SPD_DNMCSTR_BUILD_RETRY, Some b1) \<and>
     spd_thread_dynamic_str_build_helper True b1 0 True ''bcd'' = Some (None, Some b2) \<and>
     cstr (dn_str b2) = ''abcd''"
proof -
  have "cstr [CHR ''a'', NUL, NUL] = ''a''" by (simp add: cstr_def)
  with dynamic_str_one_retry [of "\<lparr>dn_len = 3, dn_str = [CHR ''a'', NUL, NUL]\<rparr>" "''bcd''"]
  show ?thesis by auto
qed

end
