(* ===== verification/Spd_Obj.thy ===== *)
theory Spd_Obj
  imports Spd_LinkedList "HOL-Library.Word" "HOL-Library.Multiset"
begin

unbundle bit_operations_syntax

text \<open>
  Reference-counted objects and their hash containers: \<open>src/obj.c\<close>. A world holds the live
  objects by the address of their user data. The list of a bucket is a HOL list, in the sense of
  the refinement lemmas of the linked lists. A call of a user's destructor is an entry of a log.
  A pointer to memory that has been freed gives no result (\<open>None\<close>).

  Dropping a reference may destroy a container, which drops references in turn; the functions
  take the reference function \<open>rf\<close> they call as a parameter and \<open>obj_ref\<close> closes the recursion,
  with fuel for the depth of containers in containers.
\<close>

section \<open>Data\<close>

type_synonym oflags = "32 word"

definition OBJ_UNLINK :: oflags where "OBJ_UNLINK = 1"
definition OBJ_NODATA :: oflags where "OBJ_NODATA = 2"
definition OBJ_MULTIPLE :: oflags where "OBJ_MULTIPLE = 4"
definition OBJ_POINTER :: oflags where "OBJ_POINTER = 8"
definition OBJ_CONTINUE :: oflags where "OBJ_CONTINUE = 16"
definition OBJ_NOLOCK :: oflags where "OBJ_NOLOCK = 32"
definition CMP_MATCH :: oflags where "CMP_MATCH = 1"
definition CMP_STOP :: oflags where "CMP_STOP = 2"
definition OBJ_ITERATOR_DONTLOCK :: oflags where "OBJ_ITERATOR_DONTLOCK = 1"
definition OBJ_ITERATOR_MALLOCD :: oflags where "OBJ_ITERATOR_MALLOCD = 2"
definition OBJ_ITERATOR_UNLINK :: oflags where "OBJ_ITERATOR_UNLINK = 4"

lemmas oflag_defs = OBJ_UNLINK_def OBJ_NODATA_def OBJ_MULTIPLE_def OBJ_POINTER_def OBJ_CONTINUE_def
  OBJ_NOLOCK_def CMP_MATCH_def CMP_STOP_def OBJ_ITERATOR_DONTLOCK_def OBJ_ITERATOR_MALLOCD_def
  OBJ_ITERATOR_UNLINK_def

datatype destructor = NoDestructor | UserDestructor nat | ContainerDestruct

record bucket_entry =
  be_version :: int
  be_obj :: addr

text \<open>The hash and compare functions see an object by its address.\<close>

record obj_container =
  c_hash_fn :: "addr \<Rightarrow> oflags \<Rightarrow> int"
  c_cmp_fn :: "addr \<Rightarrow> addr \<Rightarrow> oflags \<Rightarrow> oflags"
  n_buckets :: int
  elements :: int
  version :: int
  buckets :: "bucket_entry list list"

record priv_data =
  ref_counter :: int
  destructor_fn :: destructor
  data_size :: nat
  o_cont :: "obj_container option"

record world =
  w_objs :: "addr \<Rightarrow> priv_data option"
  w_next :: addr
  w_log :: "(nat \<times> addr) list"

type_synonym ref_fn = "addr \<Rightarrow> int \<Rightarrow> world \<Rightarrow> (int \<times> world) option"
type_synonym obj_callback_fn = "addr \<Rightarrow> oflags \<Rightarrow> world \<Rightarrow> (oflags \<times> world) option"

section \<open>Objects\<close>

text \<open>
  \<open>Some None\<close> stands for the \<open>NULL\<close> that \<open>internal_obj\<close> returns; every live object has the
  right magic number.
\<close>

definition internal_obj :: "world \<Rightarrow> addr option \<Rightarrow> priv_data option option" where
  "internal_obj w user_data =
     (case user_data of
        None \<Rightarrow> Some None
      | Some a \<Rightarrow> (case w_objs w a of None \<Rightarrow> None | Some p \<Rightarrow> Some (Some p)))"

definition internal_obj_alloc :: "nat \<Rightarrow> destructor \<Rightarrow> obj_container option \<Rightarrow> world \<Rightarrow> addr \<times> world" where
  "internal_obj_alloc sz d cont w =
     (let sz = (if sz < 8 then 8 else sz);
          p = \<lparr>ref_counter = 1, destructor_fn = d, data_size = sz, o_cont = cont\<rparr>
      in (w_next w, w\<lparr>w_objs := (w_objs w)(w_next w := Some p), w_next := w_next w + 1\<rparr>))"

text \<open>\<open>ds\<close> is \<open>container_destruct\<close>.\<close>

definition internal_obj_ref :: "(addr \<Rightarrow> world \<Rightarrow> world option) \<Rightarrow> ref_fn" where
  "internal_obj_ref ds a delta w =
     (case internal_obj w (Some a) of
        None \<Rightarrow> None
      | Some None \<Rightarrow> Some (- 1, w)
      | Some (Some p) \<Rightarrow>
          if delta = 0 then Some (ref_counter p, w)
          else
            (let ret = ref_counter p;
                 w = w\<lparr>w_objs := (w_objs w)(a := Some (p\<lparr>ref_counter := ret + delta\<rparr>))\<rparr>
             in if ret + delta \<le> 0 then
                  map_option (\<lambda>w. (ret, w\<lparr>w_objs := (w_objs w)(a := None)\<rparr>))
                    (case destructor_fn p of
                       NoDestructor \<Rightarrow> Some w
                     | UserDestructor d \<Rightarrow> Some (w\<lparr>w_log := w_log w @ [(d, a)]\<rparr>)
                     | ContainerDestruct \<Rightarrow> ds a w)
                else Some (ret, w)))"

section \<open>Containers\<close>

definition hash_zero :: "addr \<Rightarrow> oflags \<Rightarrow> int" where
  "hash_zero a fl = 0"

text \<open>The new block is zero; the callbacks of a zero container are null pointers and not used.\<close>

definition internal_obj_container_alloc ::
  "obj_container \<Rightarrow> int \<Rightarrow> (addr \<Rightarrow> oflags \<Rightarrow> int) option \<Rightarrow> (addr \<Rightarrow> addr \<Rightarrow> oflags \<Rightarrow> oflags) \<Rightarrow> obj_container" where
  "internal_obj_container_alloc c n hash_fn cmp_fn =
     c\<lparr>n_buckets := (if hash_fn \<noteq> None then n else 1), version := 1,
       c_hash_fn := (case hash_fn of None \<Rightarrow> hash_zero | Some h \<Rightarrow> h), c_cmp_fn := cmp_fn\<rparr>"

definition obj_container_alloc ::
  "int \<Rightarrow> (addr \<Rightarrow> oflags \<Rightarrow> int) option \<Rightarrow> (addr \<Rightarrow> addr \<Rightarrow> oflags \<Rightarrow> oflags) \<Rightarrow> world \<Rightarrow> addr \<times> world" where
  "obj_container_alloc n hash_fn cmp_fn w =
     (let num = (if hash_fn \<noteq> None then n else 1);
          c = \<lparr>c_hash_fn = \<lambda>_ _. 0, c_cmp_fn = \<lambda>_ _ _. 0, n_buckets = 0, elements = 0, version = 0,
               buckets = replicate (nat num) []\<rparr>;
          c = internal_obj_container_alloc c n hash_fn cmp_fn
      in internal_obj_alloc (40 + nat num * 16) ContainerDestruct (Some c) w)"

definition get_container :: "world \<Rightarrow> addr \<Rightarrow> obj_container option" where
  "get_container w c = Option.bind (w_objs w c) o_cont"

definition put_container :: "addr \<Rightarrow> obj_container \<Rightarrow> world \<Rightarrow> world" where
  "put_container c ct w = w\<lparr>w_objs := (w_objs w)(c := map_option (\<lambda>p. p\<lparr>o_cont := Some ct\<rparr>) (w_objs w c))\<rparr>"

definition obj_container_count :: "world \<Rightarrow> addr \<Rightarrow> int option" where
  "obj_container_count w c = map_option elements (get_container w c)"

text \<open>
  The lock is never taken here: \<open>!flags & OBJ_NOLOCK\<close> is 0 for every \<open>flags\<close>. A hash of
  \<open>INT_MIN\<close> stays negative under \<open>abs\<close>.
\<close>

definition internal_obj_link :: "addr \<Rightarrow> addr option \<Rightarrow> world \<Rightarrow> (bool \<times> world) option" where
  "internal_obj_link c user_data w =
     (case internal_obj w user_data of
        None \<Rightarrow> None
      | Some None \<Rightarrow> Some (False, w)
      | Some (Some _) \<Rightarrow>
          (case get_container w c of
             None \<Rightarrow> None
           | Some ct \<Rightarrow>
               (let h = c_hash_fn ct (the user_data) OBJ_POINTER
                in if n_buckets ct \<le> 0 \<or> h \<le> - (2 ^ 31) then None
                   else
                     (let i = nat (\<bar>h\<bar> mod n_buckets ct);
                          p = \<lparr>be_version = version ct, be_obj = the user_data\<rparr>;
                          ct = ct\<lparr>version := version ct + 1\<rparr>;
                          ct = ct\<lparr>buckets := (buckets ct)[i := buckets ct ! i @ [p]]\<rparr>;
                          ct = ct\<lparr>elements := elements ct + 1\<rparr>
                      in Some (True, put_container c ct w)))))"

definition obj_link :: "ref_fn \<Rightarrow> addr \<Rightarrow> addr option \<Rightarrow> world \<Rightarrow> (bool \<times> world) option" where
  "obj_link rf c user_data w =
     (case internal_obj_link c user_data w of
        None \<Rightarrow> None
      | Some (False, w) \<Rightarrow> Some (False, w)
      | Some (True, w) \<Rightarrow> map_option (\<lambda>(_, w). (True, w)) (rf (the user_data) 1 w))"

definition obj_match_by_addr :: "addr \<Rightarrow> obj_callback_fn" where
  "obj_match_by_addr arg user_data fl w =
     Some ((if user_data = arg then CMP_MATCH OR CMP_STOP else 0), w)"

definition cb_true :: obj_callback_fn where
  "cb_true user_data fl w = Some (CMP_MATCH, w)"

text \<open>One bucket: the object found, whether the search is over, and the world.\<close>

fun bucket_scan ::
  "ref_fn \<Rightarrow> obj_callback_fn \<Rightarrow> oflags \<Rightarrow> addr \<Rightarrow> nat \<Rightarrow> addr option \<Rightarrow> bucket_entry list \<Rightarrow> world
     \<Rightarrow> (addr option \<times> bool \<times> world) option" where
  "bucket_scan rf cb flags c i multi [] w = Some (None, False, w)"
| "bucket_scan rf cb flags c i multi (cur # es) w =
     (case cb (be_obj cur) flags w of
        None \<Rightarrow> None
      | Some (m, w) \<Rightarrow>
          (let mtch = (CMP_MATCH OR CMP_STOP) AND m
           in if mtch = 0 then bucket_scan rf cb flags c i multi es w
              else if mtch = CMP_STOP then Some (None, True, w)
              else
                Option.bind
                  (if flags AND OBJ_NODATA = 0 then
                     (if flags AND (OBJ_UNLINK OR OBJ_MULTIPLE) = 0
                      then map_option (\<lambda>(_, w). (Some (be_obj cur), w)) (rf (be_obj cur) 1 w)
                      else Some (Some (be_obj cur), w))
                   else Some (None, w))
                  (\<lambda>(ret, w). Option.bind
                     (case (ret, multi) of
                        (Some o', Some mc) \<Rightarrow> map_option (\<lambda>(_, w). (None, w)) (obj_link rf mc (Some o') w)
                      | _ \<Rightarrow> Some (ret, w))
                     (\<lambda>(ret, w). Option.bind
                        (if flags AND OBJ_UNLINK \<noteq> 0 then
                           (case get_container w c of
                              None \<Rightarrow> None
                            | Some ct \<Rightarrow>
                                (let ct = ct\<lparr>version := version ct + 1\<rparr>;
                                     ct = ct\<lparr>buckets := (buckets ct)[i := remove1 cur (buckets ct ! i)]\<rparr>;
                                     ct = ct\<lparr>elements := elements ct - 1\<rparr>;
                                     w = put_container c ct w
                                 in if flags AND (OBJ_NODATA OR OBJ_MULTIPLE) \<noteq> 0
                                    then map_option snd (rf (be_obj cur) (- 1) w)
                                    else Some w))
                         else Some w)
                        (\<lambda>w. if mtch AND CMP_STOP \<noteq> 0 \<or> flags AND OBJ_MULTIPLE = 0
                             then Some (ret, True, w)
                             else bucket_scan rf cb flags c i multi es w)))))"

text \<open>
  The loop over the buckets. A scan that is over sets \<open>i\<close> to \<open>last\<close>; the test that moves on to
  the beginning comes after it.
\<close>

partial_function (option) callback_loop ::
  "ref_fn \<Rightarrow> obj_callback_fn \<Rightarrow> oflags \<Rightarrow> addr \<Rightarrow> addr option \<Rightarrow> int \<Rightarrow> int \<Rightarrow> int \<Rightarrow> world
     \<Rightarrow> (addr option \<times> world) option" where
  "callback_loop rf cb flags c multi start i lst w =
     (if i < lst then
        (case get_container w c of
           None \<Rightarrow> None
         | Some ct \<Rightarrow>
             (case bucket_scan rf cb flags c (nat i) multi (buckets ct ! nat i) w of
                None \<Rightarrow> None
              | Some (ret, stop, w) \<Rightarrow>
                  if ret \<noteq> None then Some (ret, w)
                  else
                    (let i = (if stop then lst else i)
                     in if i = n_buckets ct - 1 \<and> flags AND OBJ_POINTER \<noteq> 0 \<and> flags AND OBJ_CONTINUE \<noteq> 0
                        then callback_loop rf cb flags c multi start 0 start w
                        else callback_loop rf cb flags c multi start (i + 1) lst w)))
      else Some (None, w))"

record obj_iterator =
  it_c :: "addr option"
  it_flags :: oflags
  it_bucket :: nat
  it_c_version :: int
  it_obj :: "int option"
  it_version :: int

text \<open>An entry that the iterator points to is named by its version, which no other entry has.\<close>

definition obj_iterator_init :: "ref_fn \<Rightarrow> addr \<Rightarrow> oflags \<Rightarrow> world \<Rightarrow> (obj_iterator \<times> world) option" where
  "obj_iterator_init rf c flags w =
     map_option (\<lambda>(_, w).
         (\<lparr>it_c = Some c, it_flags = flags, it_bucket = 0, it_c_version = 0, it_obj = None, it_version = 0\<rparr>, w))
       (rf c 1 w)"

datatype callback_result = RNull | RObj addr | RIter obj_iterator

text \<open>C's remainder, for a positive divisor: it has the sign of the dividend.\<close>

definition c_mod :: "int \<Rightarrow> int \<Rightarrow> int" where
  "c_mod a n = (if a < 0 then - ((- a) mod n) else a mod n)"

text \<open>
  The container of several results is made without a comparison function, a null pointer that nothing
  calls (here it is a function that finds nothing).
\<close>

definition internal_obj_callback ::
  "ref_fn \<Rightarrow> addr \<Rightarrow> oflags \<Rightarrow> obj_callback_fn option \<Rightarrow> addr \<Rightarrow> world \<Rightarrow> (callback_result \<times> world) option" where
  "internal_obj_callback rf c flags cb_fn arg w =
     (case get_container w c of
        None \<Rightarrow> None
      | Some ct \<Rightarrow>
          (let (multi, w) =
                 (if flags AND (OBJ_MULTIPLE OR OBJ_NODATA) = OBJ_MULTIPLE
                  then (case obj_container_alloc 1 None (\<lambda>_ _ _. 0) w of (m, w) \<Rightarrow> (Some m, w))
                  else (None, w));
               cb = (case cb_fn of None \<Rightarrow> cb_true | Some f \<Rightarrow> f)
           in if flags AND OBJ_POINTER \<noteq> 0 \<and> n_buckets ct = 0 then None
              else
                (let i0 = (if flags AND OBJ_POINTER \<noteq> 0
                           then c_mod (c_hash_fn ct arg (flags AND OBJ_POINTER)) (n_buckets ct)
                           else - 1);
                     (start, lst) = (if i0 < 0 then (0, n_buckets ct)
                                     else if flags AND OBJ_CONTINUE \<noteq> 0 then (i0, n_buckets ct)
                                     else (i0, i0 + 1))
                 in Option.bind (callback_loop rf cb flags c multi start start lst w)
                      (\<lambda>(ret, w).
                         case multi of
                           None \<Rightarrow> Some ((case ret of None \<Rightarrow> RNull | Some a \<Rightarrow> RObj a), w)
                         | Some m \<Rightarrow>
                             Option.bind
                               (obj_iterator_init rf m
                                  (OBJ_ITERATOR_DONTLOCK OR OBJ_ITERATOR_UNLINK OR OBJ_ITERATOR_MALLOCD) w)
                               (\<lambda>(it, w). map_option (\<lambda>(_, w). (RIter it, w)) (rf m (- 1) w))))))"

definition obj_callback ::
  "ref_fn \<Rightarrow> addr \<Rightarrow> oflags \<Rightarrow> obj_callback_fn option \<Rightarrow> addr \<Rightarrow> world \<Rightarrow> (callback_result \<times> world) option" where
  "obj_callback rf c flags cb_fn arg w = internal_obj_callback rf c flags cb_fn arg w"

text \<open>A callback of the other kind also gets the caller's data. Without one, every object matches.\<close>

type_synonym obj_callback_data_fn = "addr \<Rightarrow> addr \<Rightarrow> addr option \<Rightarrow> oflags \<Rightarrow> world \<Rightarrow> (oflags \<times> world) option"

definition cb_data_true :: obj_callback_data_fn where
  "cb_data_true user_data arg dat fl w = Some (CMP_MATCH, w)"

definition obj_callback_data ::
  "ref_fn \<Rightarrow> addr \<Rightarrow> oflags \<Rightarrow> obj_callback_data_fn option \<Rightarrow> addr \<Rightarrow> addr option \<Rightarrow> world \<Rightarrow>
   (callback_result \<times> world) option" where
  "obj_callback_data rf c flags cb_fn arg dat w =
     (let cb_withdata = (case cb_fn of None \<Rightarrow> cb_data_true | Some f \<Rightarrow> f)
      in internal_obj_callback rf c flags (Some (\<lambda>user_data. cb_withdata user_data arg dat)) arg w)"

lemma callback_data_none: "obj_callback_data rf c flags None arg dat w = obj_callback rf c flags None arg w"
proof -
  have "(\<lambda>user_data. cb_data_true user_data arg dat) = cb_true"
    by (intro ext) (simp add: cb_data_true_def cb_true_def)
  then show ?thesis
    unfolding obj_callback_data_def obj_callback_def internal_obj_callback_def option.case Let_def by (simp only:)
qed

definition obj_find :: "ref_fn \<Rightarrow> addr \<Rightarrow> addr \<Rightarrow> oflags \<Rightarrow> world \<Rightarrow> (callback_result \<times> world) option" where
  "obj_find rf c arg flags w =
     (case get_container w c of
        None \<Rightarrow> None
      | Some ct \<Rightarrow> obj_callback rf c flags (Some (\<lambda>o' fl w. Some (c_cmp_fn ct o' arg fl, w))) arg w)"

definition obj_unlink :: "ref_fn \<Rightarrow> addr \<Rightarrow> addr option \<Rightarrow> oflags \<Rightarrow> world \<Rightarrow> world option" where
  "obj_unlink rf c user_data flags w =
     (case internal_obj w user_data of
        None \<Rightarrow> None
      | Some None \<Rightarrow> Some w
      | Some (Some _) \<Rightarrow>
          map_option snd
            (obj_callback rf c (flags OR (OBJ_UNLINK OR OBJ_POINTER OR OBJ_NODATA))
               (Some (obj_match_by_addr (the user_data))) (the user_data) w))"

text \<open>
  Destroying an iterator drops a reference of the iterator, which is no object (its header is
  taken not to hold the magic number), instead of one of its container; an allocated iterator is
  freed, its pointer set to \<open>NULL\<close> and followed.
\<close>

definition obj_iterator_destory :: "obj_iterator \<Rightarrow> world \<Rightarrow> (obj_iterator \<times> world) option" where
  "obj_iterator_destory it w =
     (if it_flags it AND OBJ_ITERATOR_MALLOCD \<noteq> 0 then None else Some (it\<lparr>it_c := None\<rparr>, w))"

fun entry_after :: "int \<Rightarrow> bucket_entry list \<Rightarrow> bucket_entry option" where
  "entry_after v (a # b # es) = (if be_version a = v then Some b else entry_after v (b # es))"
| "entry_after v _ = None"

text \<open>The scan from bucket \<open>b\<close> on for an entry newer than \<open>ver\<close>: bucket, entry.\<close>

function iter_scan :: "bucket_entry list list \<Rightarrow> nat \<Rightarrow> int \<Rightarrow> nat \<times> bucket_entry option" where
  "iter_scan bs b ver =
     (if b < length bs
      then (case find (\<lambda>p. be_version p > ver) (bs ! b) of
              Some p \<Rightarrow> (b, Some p)
            | None \<Rightarrow> iter_scan bs (b + 1) 0)
      else (b, None))"
  by pat_completeness auto
termination by (relation "measure (\<lambda>(bs, b, _). length bs - b)") auto

declare iter_scan.simps [simp del]

definition iter_locate :: "obj_container \<Rightarrow> obj_iterator \<Rightarrow> obj_iterator \<times> bucket_entry option" where
  "iter_locate ct a =
     (let nxt = (if version ct = it_c_version a
                 then (case it_obj a of None \<Rightarrow> None | Some v \<Rightarrow> entry_after v (buckets ct ! it_bucket a))
                 else None)
      in case nxt of
           Some p \<Rightarrow> (a, Some p)
         | None \<Rightarrow>
             (let a = (if version ct = it_c_version a \<and> it_obj a \<noteq> None
                       then a\<lparr>it_bucket := it_bucket a + 1, it_version := 0, it_obj := None\<rparr> else a);
                  (b, p) = iter_scan (buckets ct) (it_bucket a) (it_version a)
              in (a\<lparr>it_bucket := b\<rparr>, p)))"

definition internal_obj_iterator_next ::
  "obj_iterator \<Rightarrow> world \<Rightarrow> (addr option \<times> bool \<times> obj_iterator \<times> world) option" where
  "internal_obj_iterator_next a w =
     (case it_c a of
        None \<Rightarrow> Some (None, False, a, w)
      | Some c \<Rightarrow>
          (case get_container w c of
             None \<Rightarrow> None
           | Some ct \<Rightarrow>
               (case iter_locate ct a of
                  (a, None) \<Rightarrow> Some (None, False, a, w)
                | (a, Some p) \<Rightarrow>
                    if it_flags a AND OBJ_ITERATOR_UNLINK \<noteq> 0 then
                      (let ct = ct\<lparr>version := version ct + 1\<rparr>;
                           ct = ct\<lparr>buckets := (buckets ct)[it_bucket a := remove1 p (buckets ct ! it_bucket a)]\<rparr>;
                           ct = ct\<lparr>elements := elements ct - 1\<rparr>
                       in Some (Some (be_obj p), False,
                            a\<lparr>it_version := 0, it_obj := None, it_c_version := version ct\<rparr>,
                            put_container c ct w))
                    else Some (Some (be_obj p), True,
                           a\<lparr>it_version := be_version p, it_obj := Some (be_version p), it_c_version := version ct\<rparr>, w))))"

definition obj_iterator_next ::
  "ref_fn \<Rightarrow> obj_iterator \<Rightarrow> world \<Rightarrow> (addr option \<times> obj_iterator \<times> world) option" where
  "obj_iterator_next rf a w =
     (case internal_obj_iterator_next a w of
        None \<Rightarrow> None
      | Some (ret, q, a, w) \<Rightarrow>
          if q then map_option (\<lambda>(_, w). (ret, a, w)) (rf (the ret) 1 w) else Some (ret, a, w))"

definition cd_cb :: "ref_fn \<Rightarrow> obj_callback_fn" where
  "cd_cb rf o' fl w = map_option (\<lambda>(_, w). (0, w)) (rf o' (- 1) w)"

definition container_destruct :: "ref_fn \<Rightarrow> addr \<Rightarrow> world \<Rightarrow> world option" where
  "container_destruct rf c w =
     (case obj_callback rf c OBJ_UNLINK (Some (cd_cb rf)) 0 w of
        None \<Rightarrow> None
      | Some (_, w) \<Rightarrow>
          (case get_container w c of
             None \<Rightarrow> None
           | Some ct \<Rightarrow> Some (put_container c (ct\<lparr>buckets := map (\<lambda>_. []) (buckets ct)\<rparr>) w)))"

fun obj_ref :: "nat \<Rightarrow> ref_fn" where
  "obj_ref 0 a delta w = None"
| "obj_ref (Suc n) a delta w = internal_obj_ref (container_destruct (obj_ref n)) a delta w"

section \<open>The container invariant\<close>

definition entries :: "obj_container \<Rightarrow> bucket_entry list" where
  "entries ct = concat (buckets ct)"

definition cobjs :: "obj_container \<Rightarrow> addr list" where
  "cobjs ct = map be_obj (entries ct)"

definition hash_ix :: "obj_container \<Rightarrow> addr \<Rightarrow> nat" where
  "hash_ix ct o' = nat (\<bar>c_hash_fn ct o' OBJ_POINTER\<bar> mod n_buckets ct)"

definition cont_ok :: "obj_container \<Rightarrow> bool" where
  "cont_ok ct \<longleftrightarrow> 0 < n_buckets ct \<and> 0 < version ct \<and> length (buckets ct) = nat (n_buckets ct) \<and>
     elements ct = int (length (entries ct)) \<and>
     (\<forall>e \<in> set (entries ct). 0 < be_version e \<and> be_version e < version ct) \<and>
     distinct (map be_version (entries ct)) \<and>
     (\<forall>i < length (buckets ct). \<forall>e \<in> set (buckets ct ! i). hash_ix ct (be_obj e) = i)"

lemma concat_upd_snoc:
  "i < length bs \<Longrightarrow> mset (concat (bs[i := bs ! i @ [x]])) = add_mset x (mset (concat bs))"
proof (induction bs arbitrary: i)
  case (Cons b bs)
  then show ?case by (cases i) auto
qed simp

lemma concat_upd_remove1:
  assumes "i < length bs" "x \<in> set (bs ! i)"
  shows "add_mset x (mset (concat (bs[i := remove1 x (bs ! i)]))) = mset (concat bs)"
proof -
  have "mset (concat bs) = mset (concat (take i bs @ bs ! i # drop (Suc i) bs))"
    using assms(1) by (simp add: id_take_nth_drop [symmetric])
  moreover have "add_mset x (mset (remove1 x (bs ! i))) = mset (bs ! i)" using assms(2) by simp
  ultimately show ?thesis using assms(1) by (simp add: upd_conv_take_nth_drop)
qed

lemma hash_ix_less: "cont_ok ct \<Longrightarrow> hash_ix ct o' < length (buckets ct)"
  by (simp add: hash_ix_def cont_ok_def)

text \<open>The container with one more entry for \<open>o'\<close>, and without entry \<open>e\<close>.\<close>

definition linked :: "obj_container \<Rightarrow> addr \<Rightarrow> obj_container" where
  "linked ct o' = ct\<lparr>version := version ct + 1,
     buckets := (buckets ct)[hash_ix ct o' := buckets ct ! hash_ix ct o' @ [\<lparr>be_version = version ct, be_obj = o'\<rparr>]],
     elements := elements ct + 1\<rparr>"

definition unlinked :: "obj_container \<Rightarrow> nat \<Rightarrow> bucket_entry \<Rightarrow> obj_container" where
  "unlinked ct i e = ct\<lparr>version := version ct + 1,
     buckets := (buckets ct)[i := remove1 e (buckets ct ! i)], elements := elements ct - 1\<rparr>"

lemma distinct_mset_map:
  "mset ys = add_mset x (mset xs) \<Longrightarrow> distinct (map f ys) \<longleftrightarrow> f x \<notin> f ` set xs \<and> distinct (map f xs)"
proof -
  assume m: "mset ys = add_mset x (mset xs)"
  then have "mset (map f ys) = mset (map f (x # xs))" by simp
  then have "distinct (map f ys) = distinct (map f (x # xs))" by (rule mset_eq_imp_distinct_iff)
  then show ?thesis by simp
qed

lemma linked_entries: "cont_ok ct \<Longrightarrow>
   mset (entries (linked ct o')) = add_mset \<lparr>be_version = version ct, be_obj = o'\<rparr> (mset (entries ct))"
  by (simp add: linked_def entries_def concat_upd_snoc hash_ix_less)

lemma cobjs_mset: "mset (cobjs ct) = image_mset be_obj (mset (entries ct))"
  by (simp add: cobjs_def)

lemma linked_ok: assumes "cont_ok ct" shows "cont_ok (linked ct o')"
proof -
  let ?e = "\<lparr>be_version = version ct, be_obj = o'\<rparr>" and ?ct = "linked ct o'"
  note m = linked_entries [OF assms(1), of o']
  have s: "set (entries ?ct) = insert ?e (set (entries ct))"
    using arg_cong [OF m, of set_mset] by simp
  have l: "length (entries ?ct) = Suc (length (entries ct))"
    using arg_cong [OF m, of size] by simp
  have d: "distinct (map be_version (entries ?ct))"
    using assms(1) distinct_mset_map [OF m, of be_version] by (force simp: cont_ok_def)
  have h: "hash_ix ?ct x = hash_ix ct x" for x by (simp add: hash_ix_def linked_def)
  have v: "version ?ct = version ct + 1" "n_buckets ?ct = n_buckets ct" "elements ?ct = elements ct + 1"
    "length (buckets ?ct) = length (buckets ct)" by (simp_all add: linked_def)
  have b: "\<forall>i < length (buckets ?ct). \<forall>e \<in> set (buckets ?ct ! i). hash_ix ct (be_obj e) = i"
  proof (intro allI impI ballI)
    fix i e assume i: "i < length (buckets ?ct)" "e \<in> set (buckets ?ct ! i)"
    then show "hash_ix ct (be_obj e) = i"
      using assms(1) hash_ix_less [OF assms(1), of o']
      by (cases "i = hash_ix ct o'") (auto simp: linked_def cont_ok_def nth_list_update)
  qed
  show ?thesis using assms b d l s by (simp add: cont_ok_def h v) fastforce
qed

lemma unlinked_entries: "cont_ok ct \<Longrightarrow> i < length (buckets ct) \<Longrightarrow> e \<in> set (buckets ct ! i) \<Longrightarrow>
   add_mset e (mset (entries (unlinked ct i e))) = mset (entries ct)"
  by (simp add: unlinked_def entries_def concat_upd_remove1)

lemma unlinked_ok:
  assumes "cont_ok ct" "i < length (buckets ct)" "e \<in> set (buckets ct ! i)"
  shows "cont_ok (unlinked ct i e)"
proof -
  let ?ct = "unlinked ct i e"
  note m = unlinked_entries [OF assms, symmetric]
  have s: "set (entries ct) = insert e (set (entries ?ct))"
    using arg_cong [OF m, of set_mset] by simp
  have l: "length (entries ct) = Suc (length (entries ?ct))"
    using arg_cong [OF m, of size] by simp
  have d: "distinct (map be_version (entries ?ct))"
    using assms(1) distinct_mset_map [OF m, of be_version] by (simp add: cont_ok_def)
  have h: "hash_ix ?ct x = hash_ix ct x" for x by (simp add: hash_ix_def unlinked_def)
  have v: "version ?ct = version ct + 1" "n_buckets ?ct = n_buckets ct" "elements ?ct = elements ct - 1"
    "length (buckets ?ct) = length (buckets ct)" by (simp_all add: unlinked_def)
  have b: "\<forall>j < length (buckets ?ct). \<forall>x \<in> set (buckets ?ct ! j). hash_ix ct (be_obj x) = j"
  proof (intro allI impI ballI)
    fix j x assume j: "j < length (buckets ?ct)" "x \<in> set (buckets ?ct ! j)"
    then have "x \<in> set (buckets ct ! j)"
      by (cases "j = i") (auto simp: unlinked_def nth_list_update dest: set_remove1_subset [THEN subsetD])
    with j assms(1) show "hash_ix ct (be_obj x) = j" by (simp add: cont_ok_def v)
  qed
  show ?thesis using assms(1) b d l s by (simp add: cont_ok_def h v) fastforce
qed

section \<open>References\<close>

lemma get_put_container [simp]:
  "w_objs w c \<noteq> None \<Longrightarrow> get_container (put_container c ct w) c = Some ct"
  "c \<noteq> d \<Longrightarrow> get_container (put_container c ct w) d = get_container w d"
  by (auto simp: get_container_def put_container_def)

lemma put_container_objs [simp]: "a \<noteq> c \<Longrightarrow> w_objs (put_container c ct w) a = w_objs w a"
  by (simp add: put_container_def)

lemma put_container_log [simp]: "w_log (put_container c ct w) = w_log w" "w_next (put_container c ct w) = w_next w"
  by (simp_all add: put_container_def)

lemma get_container_live: "get_container w c = Some ct \<Longrightarrow> w_objs w c \<noteq> None"
  by (cases "w_objs w c") (auto simp: get_container_def)

definition set_ref :: "addr \<Rightarrow> priv_data \<Rightarrow> int \<Rightarrow> world \<Rightarrow> world" where
  "set_ref a p n w = w\<lparr>w_objs := (w_objs w)(a := Some (p\<lparr>ref_counter := n\<rparr>))\<rparr>"

lemma internal_obj_ref_live:
  "w_objs w a = Some p \<Longrightarrow> delta \<noteq> 0 \<Longrightarrow> 0 < ref_counter p + delta \<Longrightarrow>
   internal_obj_ref ds a delta w = Some (ref_counter p, set_ref a p (ref_counter p + delta) w)"
  by (simp add: internal_obj_ref_def internal_obj_def set_ref_def Let_def)

lemma obj_ref_live:
  "w_objs w a = Some p \<Longrightarrow> delta \<noteq> 0 \<Longrightarrow> 0 < ref_counter p + delta \<Longrightarrow>
   obj_ref (Suc n) a delta w = Some (ref_counter p, set_ref a p (ref_counter p + delta) w)"
  by (simp add: internal_obj_ref_live)

definition user_log :: "destructor \<Rightarrow> addr \<Rightarrow> (nat \<times> addr) list" where
  "user_log d a = (case d of UserDestructor n \<Rightarrow> [(n, a)] | _ \<Rightarrow> [])"

lemma obj_ref_last:
  "w_objs w a = Some p \<Longrightarrow> delta \<noteq> 0 \<Longrightarrow> ref_counter p + delta \<le> 0 \<Longrightarrow> destructor_fn p \<noteq> ContainerDestruct \<Longrightarrow>
   obj_ref (Suc n) a delta w =
     Some (ref_counter p, w\<lparr>w_objs := (w_objs w)(a := None), w_log := w_log w @ user_log (destructor_fn p) a\<rparr>)"
  by (cases "destructor_fn p") (auto simp: internal_obj_ref_def internal_obj_def Let_def user_log_def)

lemma set_ref_simps [simp]:
  "w_objs (set_ref a p n w) b = (if b = a then Some (p\<lparr>ref_counter := n\<rparr>) else w_objs w b)"
  "w_log (set_ref a p n w) = w_log w" "w_next (set_ref a p n w) = w_next w"
  by (simp_all add: set_ref_def)

lemma get_container_set_ref [simp]:
  "w_objs w a = Some p \<Longrightarrow> get_container (set_ref a p n w) c = get_container w c"
  by (simp add: get_container_def)

section \<open>Searches\<close>

lemma scan_skip:
  "\<forall>e \<in> set es1. be_obj e \<noteq> o' \<Longrightarrow>
   bucket_scan rf (obj_match_by_addr o') fl c i m (es1 @ es2) w = bucket_scan rf (obj_match_by_addr o') fl c i m es2 w"
  by (induction es1) (auto simp: obj_match_by_addr_def)

lemma scan_none:
  "\<forall>e \<in> set es. be_obj e \<noteq> o' \<Longrightarrow>
   bucket_scan rf (obj_match_by_addr o') fl c i m es w = Some (None, False, w)"
  using scan_skip [of es o' rf fl c i m "[]" w] by simp

lemma callback_loop_first:
  assumes "flags AND OBJ_CONTINUE = 0" "0 \<le> i" "i \<le> k" "k < lst" "get_container w c = Some ct"
    and "\<forall>j. i \<le> j \<and> j < k \<longrightarrow>
           bucket_scan rf cb flags c (nat j) None (buckets ct ! nat j) w = Some (None, False, w)"
    and "bucket_scan rf cb flags c (nat k) None (buckets ct ! nat k) w = Some (ret, True, w')"
  shows "callback_loop rf cb flags c None start i lst w = Some (ret, w')"
  using assms
proof (induction "nat (k - i)" arbitrary: i)
  case 0
  then have "i = k" by simp
  have "callback_loop rf cb flags c None start (lst + 1) lst w' = Some (None, w')"
    by (subst callback_loop.simps) simp
  with 0 \<open>i = k\<close> show ?case by (subst callback_loop.simps) (auto simp: Let_def)
next
  case (Suc m)
  from Suc(2) have "i < k" by simp
  moreover have "callback_loop rf cb flags c None start (i + 1) lst w = Some (ret, w')"
    using Suc.prems \<open>i < k\<close> Suc(2) by (intro Suc(1)) auto
  ultimately show ?case using Suc.prems by (subst callback_loop.simps) (auto simp: Let_def)
qed

lemma c_mod_abs: "0 < n \<Longrightarrow> c_mod h n < 0 \<or> c_mod h n = \<bar>h\<bar> mod n"
  using pos_mod_sign [of n "- h"] by (auto simp: c_mod_def order_le_less)

text \<open>
  A search by address for an object linked once: the loop of \<open>internal_obj_callback\<close> reaches the
  bucket of the object and no other match before it, also for a negative hash, for which it scans
  all buckets.
\<close>

lemma callback_by_addr:
  assumes ct: "get_container w c = Some ct" "cont_ok ct"
    and e: "buckets ct ! hash_ix ct o' = us @ e # vs" "be_obj e = o'" "\<forall>x \<in> set us. be_obj x \<noteq> o'"
    and fl: "flags AND OBJ_POINTER = OBJ_POINTER" "flags AND OBJ_CONTINUE = 0"
      "flags AND (OBJ_MULTIPLE OR OBJ_NODATA) \<noteq> OBJ_MULTIPLE"
    and sc: "bucket_scan rf (obj_match_by_addr o') flags c (hash_ix ct o') None (e # vs) w = Some (ret, True, w')"
  shows "obj_callback rf c flags (Some (obj_match_by_addr o')) o' w =
     Some ((case ret of None \<Rightarrow> RNull | Some a \<Rightarrow> RObj a), w')"
proof -
  let ?h = "c_hash_fn ct o' OBJ_POINTER" and ?n = "n_buckets ct" and ?k = "int (hash_ix ct o')"
  let ?i0 = "c_mod ?h ?n"
  have n: "0 < ?n" using ct(2) by (simp add: cont_ok_def)
  have k: "?k = \<bar>?h\<bar> mod ?n" using n by (simp add: hash_ix_def)
  have kn: "?k < ?n" using n by (simp add: k)
  have scan: "bucket_scan rf (obj_match_by_addr o') flags c (nat ?k) None (buckets ct ! nat ?k) w = Some (ret, True, w')"
    using sc e by (simp add: scan_skip)
  have others: "bucket_scan rf (obj_match_by_addr o') flags c (nat j) None (buckets ct ! nat j) w = Some (None, False, w)"
    if "0 \<le> j" "j < ?k" for j
  proof (rule scan_none, intro ballI notI)
    fix x assume x: "x \<in> set (buckets ct ! nat j)" "be_obj x = o'"
    have "nat j < length (buckets ct)" using that kn ct(2) by (simp add: cont_ok_def)
    with x ct(2) have "hash_ix ct o' = nat j" by (auto simp: cont_ok_def)
    with that show False by simp
  qed
  have p0: "OBJ_POINTER \<noteq> 0" by (simp add: OBJ_POINTER_def)
  have neg: "callback_loop rf (obj_match_by_addr o') flags c None 0 0 ?n w = Some (ret, w')"
    by (rule callback_loop_first [OF fl(2) _ _ kn ct(1) _ scan]) (use others in auto)
  have pos: "callback_loop rf (obj_match_by_addr o') flags c None ?k ?k (?k + 1) w = Some (ret, w')"
    by (rule callback_loop_first [OF fl(2) _ _ _ ct(1) _ scan]) auto
  have start: "(let (start, lst) = (if ?i0 < 0 then (0, ?n) else (?i0, ?i0 + 1))
      in callback_loop rf (obj_match_by_addr o') flags c None start start lst w) = Some (ret, w')"
    using c_mod_abs [OF n, of ?h] neg pos k by auto
  then show ?thesis
    using fl ct(1) n p0
    by (cases "?i0 < 0") (simp_all add: obj_callback_def internal_obj_callback_def)
qed

section \<open>Linking\<close>

lemma obj_link_result:
  assumes "get_container w c = Some ct" "cont_ok ct" "w_objs w o' = Some p" "0 < ref_counter p" "o' \<noteq> c"
    and "- (2 ^ 31) < c_hash_fn ct o' OBJ_POINTER"
  shows "obj_link (obj_ref (Suc n)) c (Some o') w =
     Some (True, set_ref o' p (ref_counter p + 1) (put_container c (linked ct o') w))"
proof -
  have "internal_obj_link c (Some o') w = Some (True, put_container c (linked ct o') w)"
    using assms by (simp add: internal_obj_link_def internal_obj_def linked_def hash_ix_def Let_def cont_ok_def)
  moreover have "obj_ref (Suc n) o' 1 (put_container c (linked ct o') w) =
      Some (ref_counter p, set_ref o' p (ref_counter p + 1) (put_container c (linked ct o') w))"
    using assms(3-5) by (intro obj_ref_live) auto
  ultimately show ?thesis by (simp add: obj_link_def)
qed

lemma set_ref_set_ref [simp]: "set_ref a (p\<lparr>ref_counter := m\<rparr>) n (set_ref a p m w) = set_ref a p n w"
  by (simp add: set_ref_def)

lemma put_put_container [simp]: "put_container c ct (put_container c ct' w) = put_container c ct w"
  by (auto simp: put_container_def option.map_comp comp_def)

lemma put_set_ref_swap: "a \<noteq> c \<Longrightarrow> put_container c ct (set_ref a p n w) = set_ref a p n (put_container c ct w)"
  by (auto simp: put_container_def set_ref_def fun_upd_twist)

lemma set_ref_id: "w_objs w a = Some p \<Longrightarrow> set_ref a p (ref_counter p) w = w"
  by (cases w) (auto simp: set_ref_def)

lemma linked_bucket:
  "cont_ok ct \<Longrightarrow> buckets (linked ct o') ! hash_ix (linked ct o') o' =
     buckets ct ! hash_ix ct o' @ [\<lparr>be_version = version ct, be_obj = o'\<rparr>]"
  by (simp add: hash_ix_less linked_def hash_ix_def)
     (metis hash_ix_def hash_ix_less nth_list_update_eq)

lemma bucket_fresh: "cont_ok ct \<Longrightarrow> o' \<notin> set (cobjs ct) \<Longrightarrow> \<forall>x \<in> set (buckets ct ! hash_ix ct o'). be_obj x \<noteq> o'"
  using hash_ix_less [of ct o'] by (auto simp: cobjs_def entries_def) (meson image_eqI UN_I nth_mem)

lemma entries_fresh_version:
  "cont_ok ct \<Longrightarrow> \<lparr>be_version = version ct, be_obj = o'\<rparr> \<notin> set (entries ct)"
  by (auto simp: cont_ok_def)

lemma unlinked_linked:
  assumes "cont_ok ct"
  shows "unlinked (linked ct o') (hash_ix ct o') \<lparr>be_version = version ct, be_obj = o'\<rparr> = ct\<lparr>version := version ct + 2\<rparr>"
proof -
  have "\<lparr>be_version = version ct, be_obj = o'\<rparr> \<notin> set (buckets ct ! hash_ix ct o')"
    using entries_fresh_version [OF assms, of o'] hash_ix_less [OF assms, of o']
    by (auto simp: entries_def)
  then show ?thesis
    using hash_ix_less [OF assms, of o'] by (simp add: unlinked_def linked_def remove1_append)
qed

lemma obj_unlink_result:
  assumes "get_container w c = Some ct" "cont_ok ct" "w_objs w a = Some q" "1 < ref_counter q" "a \<noteq> c"
    and "buckets ct ! hash_ix ct a = us @ e # vs" "be_obj e = a" "\<forall>x \<in> set us. be_obj x \<noteq> a"
  shows "obj_unlink (obj_ref (Suc n)) c (Some a) 0 w =
     Some (set_ref a q (ref_counter q - 1) (put_container c (unlinked ct (hash_ix ct a) e) w))"
proof -
  let ?fl = "OBJ_UNLINK OR OBJ_POINTER OR OBJ_NODATA"
  let ?w1 = "put_container c (unlinked ct (hash_ix ct a) e) w"
  let ?w2 = "set_ref a q (ref_counter q - 1) ?w1"
  have ref: "obj_ref (Suc n) a (- 1) ?w1 = Some (ref_counter q, ?w2)"
    using assms(3-5) obj_ref_live [of ?w1 a q "- 1" n] by (simp del: obj_ref.simps)
  have "bucket_scan (obj_ref (Suc n)) (obj_match_by_addr a) ?fl c (hash_ix ct a) None (e # vs) w = Some (None, True, ?w2)"
    using assms(1,7) ref by (simp add: obj_match_by_addr_def unlinked_def Let_def oflag_defs del: obj_ref.simps)
  from callback_by_addr [OF assms(1,2,6-8) _ _ _ this] assms(3) show ?thesis
    by (simp add: obj_unlink_def internal_obj_def oflag_defs)
qed

text \<open>Searching for an object that is linked, by its address.\<close>

lemma obj_find_addr_result:
  assumes "get_container w c = Some ct" "cont_ok ct" "w_objs w a = Some q" "0 < ref_counter q"
    and "buckets ct ! hash_ix ct a = us @ e # vs" "be_obj e = a" "\<forall>x \<in> set us. be_obj x \<noteq> a"
  shows "obj_callback (obj_ref (Suc n)) c OBJ_POINTER (Some (obj_match_by_addr a)) a w =
     Some (RObj a, set_ref a q (ref_counter q + 1) w)"
proof -
  have "obj_ref (Suc n) a 1 w = Some (ref_counter q, set_ref a q (ref_counter q + 1) w)"
    using assms(3,4) by (intro obj_ref_live) auto
  then have "bucket_scan (obj_ref (Suc n)) (obj_match_by_addr a) OBJ_POINTER c (hash_ix ct a) None (e # vs) w =
      Some (Some a, True, set_ref a q (ref_counter q + 1) w)"
    using assms(6) by (simp add: obj_match_by_addr_def Let_def oflag_defs del: obj_ref.simps)
  from callback_by_addr [OF assms(1,2,5-7) _ _ _ this] show ?thesis by (simp add: oflag_defs)
qed

section \<open>Destroying a container\<close>

text \<open>Dropping one reference of each object of a list of plain objects.\<close>

definition drop1 :: "addr \<Rightarrow> world \<Rightarrow> world" where
  "drop1 a w =
     (case w_objs w a of
        None \<Rightarrow> w
      | Some p \<Rightarrow>
          if ref_counter p = 1
          then w\<lparr>w_objs := (w_objs w)(a := None), w_log := w_log w @ user_log (destructor_fn p) a\<rparr>
          else set_ref a p (ref_counter p - 1) w)"

fun drop_refs :: "addr list \<Rightarrow> world \<Rightarrow> world" where
  "drop_refs [] w = w"
| "drop_refs (a # as) w = drop_refs as (drop1 a w)"

lemma drop1_other [simp]: "b \<noteq> a \<Longrightarrow> w_objs (drop1 a w) b = w_objs w b"
  by (simp add: drop1_def split: option.splits)

definition plain_refs :: "addr list \<Rightarrow> world \<Rightarrow> bool" where
  "plain_refs as w \<longleftrightarrow> (\<forall>a \<in> set as. \<exists>p. w_objs w a = Some p \<and>
     int (count_list as a) \<le> ref_counter p \<and> destructor_fn p \<noteq> ContainerDestruct)"

lemma drop_refs_append: "drop_refs (as @ bs) w = drop_refs bs (drop_refs as w)"
  by (induction as arbitrary: w) auto

lemma count_list_pos: "a \<in> set as \<Longrightarrow> 0 < count_list as a"
  by (induction as) auto

lemma plain_refs_step:
  assumes "plain_refs (a # as) w"
  shows "\<exists>r. obj_ref (Suc n) a (- 1) w = Some (r, drop1 a w)" "plain_refs as (drop1 a w)"
proof -
  from assms obtain p where p: "w_objs w a = Some p" "int (count_list (a # as) a) \<le> ref_counter p"
    "destructor_fn p \<noteq> ContainerDestruct" by (auto simp: plain_refs_def)
  have "(\<exists>r. obj_ref (Suc n) a (- 1) w = Some (r, drop1 a w)) \<and> plain_refs as (drop1 a w)"
  proof (cases "ref_counter p = 1")
    case True
    then have "a \<notin> set as" using p(2) count_list_pos [of a as] by (cases "a \<in> set as") auto
    with assms p True show ?thesis
      by (auto simp: obj_ref_last plain_refs_def drop1_def simp del: obj_ref.simps)
  next
    case False
    with p(2) have "0 < ref_counter p + - 1" by simp
    with assms p False show ?thesis
      by (auto simp: obj_ref_live plain_refs_def drop1_def simp del: obj_ref.simps split: if_splits)
  qed
  then show "\<exists>r. obj_ref (Suc n) a (- 1) w = Some (r, drop1 a w)" "plain_refs as (drop1 a w)" by blast+
qed

lemma drop_refs_frame: "b \<notin> set as \<Longrightarrow> w_objs (drop_refs as w) b = w_objs w b"
  by (induction as arbitrary: w) auto

definition after_drop :: "nat \<Rightarrow> priv_data \<Rightarrow> priv_data option" where
  "after_drop k p =
     (if ref_counter p = int k then None else Some (p\<lparr>ref_counter := ref_counter p - int k\<rparr>))"

text \<open>
  What the drops leave of an object: nothing when its counter was the number of its references
  in the list, a counter that is smaller by this number otherwise.
\<close>

lemma drop_refs_result:
  assumes "plain_refs as w" "a \<in> set as" "w_objs w a = Some p"
  shows "w_objs (drop_refs as w) a = after_drop (count_list as a) p"
  using assms
proof (induction as arbitrary: w p)
  case (Cons b as)
  note st = plain_refs_step(2) [OF Cons.prems(1)]
  show ?case
  proof (cases "a = b")
    case False
    with Cons st show ?thesis by simp
  next
    case True
    from Cons.prems(1,3) True have le: "int (count_list as a) + 1 \<le> ref_counter p"
      by (auto simp: plain_refs_def)
    show ?thesis
    proof (cases "a \<in> set as")
      case False
      with True Cons.prems le show ?thesis
        by (auto simp: drop_refs_frame after_drop_def drop1_def)
    next
      case in_as: True
      have "0 < count_list as a" using in_as by (rule count_list_pos)
      with le have ne: "ref_counter p \<noteq> 1" by linarith
      have "w_objs (drop1 b w) a = Some (p\<lparr>ref_counter := ref_counter p - 1\<rparr>)"
        using True Cons.prems(3) ne by (simp add: drop1_def)
      from Cons.IH [OF st in_as this] True show ?thesis by (auto simp: after_drop_def)
    qed
  qed
qed simp

lemma bucket_scan_cd:
  assumes "plain_refs (map be_obj es @ rest) w"
  shows "bucket_scan (obj_ref (Suc n)) (cd_cb (obj_ref (Suc n))) OBJ_UNLINK c i None es w =
      Some (None, False, drop_refs (map be_obj es) w) \<and>
    plain_refs rest (drop_refs (map be_obj es) w)"
  using assms
proof (induction es arbitrary: w)
  case (Cons e es)
  from plain_refs_step(1) [of "be_obj e" "map be_obj es @ rest" w n]
    plain_refs_step(2) [of "be_obj e" "map be_obj es @ rest" w] Cons.prems Cons.IH [of "drop1 (be_obj e) w"]
  show ?case by (auto simp: cd_cb_def Let_def simp del: obj_ref.simps)
qed simp

lemma callback_loop_cd:
  assumes "plain_refs (map be_obj (concat (drop (nat i) (buckets ct)))) w" "get_container w c = Some ct"
    and "0 \<le> i" "length (buckets ct) = nat (n_buckets ct)" "c \<notin> set (cobjs ct)"
  shows "callback_loop (obj_ref (Suc n)) (cd_cb (obj_ref (Suc n))) OBJ_UNLINK c None 0 i (n_buckets ct) w =
     Some (None, drop_refs (map be_obj (concat (drop (nat i) (buckets ct)))) w)"
  using assms
proof (induction "nat (n_buckets ct - i)" arbitrary: i w)
  case 0
  then show ?case by (subst callback_loop.simps) simp
next
  case (Suc m)
  then have i: "i < n_buckets ct" "nat i < length (buckets ct)" by auto
  let ?b = "buckets ct ! nat i" and ?r = "concat (drop (nat (i + 1)) (buckets ct))"
  have d: "concat (drop (nat i) (buckets ct)) = ?b @ ?r"
    using i Suc.prems(3) by (simp add: Cons_nth_drop_Suc [symmetric] nat_add_distrib)
  let ?w = "drop_refs (map be_obj ?b) w"
  from bucket_scan_cd [of ?b "map be_obj ?r" w n c "nat i"] Suc.prems(1) d
  have sc: "bucket_scan (obj_ref (Suc n)) (cd_cb (obj_ref (Suc n))) OBJ_UNLINK c (nat i) None ?b w = Some (None, False, ?w)"
    and pr: "plain_refs (map be_obj ?r) ?w" by simp_all
  have "c \<notin> be_obj ` set ?b" using Suc.prems(5) nth_mem [OF i(2)] by (fastforce simp: cobjs_def entries_def)
  then have g: "get_container ?w c = Some ct"
    using Suc.prems(2) by (simp add: get_container_def drop_refs_frame)
  have "callback_loop (obj_ref (Suc n)) (cd_cb (obj_ref (Suc n))) OBJ_UNLINK c None 0 (i + 1) (n_buckets ct) ?w =
      Some (None, drop_refs (map be_obj ?r) ?w)"
    using Suc i by (intro Suc(1) pr g) auto
  with i sc Suc.prems(2) show ?case
    by (subst callback_loop.simps)
      (simp add: d drop_refs_append Let_def OBJ_UNLINK_def OBJ_POINTER_def del: obj_ref.simps)
qed

lemma container_destruct_result:
  assumes "get_container w c = Some ct" "cont_ok ct" "plain_refs (cobjs ct) w" "c \<notin> set (cobjs ct)"
  shows "\<exists>w'. container_destruct (obj_ref (Suc n)) c w = Some w' \<and>
     (\<forall>a. a \<noteq> c \<longrightarrow> w_objs w' a = w_objs (drop_refs (cobjs ct) w) a) \<and> w_log w' = w_log (drop_refs (cobjs ct) w)"
proof -
  have "callback_loop (obj_ref (Suc n)) (cd_cb (obj_ref (Suc n))) OBJ_UNLINK c None 0 0 (n_buckets ct) w =
      Some (None, drop_refs (cobjs ct) w)"
    using callback_loop_cd [of 0 ct w c n] assms by (simp add: cobjs_def entries_def cont_ok_def del: obj_ref.simps)
  moreover have "get_container (drop_refs (cobjs ct) w) c = Some ct"
    using assms(1,4) by (simp add: get_container_def drop_refs_frame)
  ultimately show ?thesis
    using assms(1) by (simp add: container_destruct_def obj_callback_def internal_obj_callback_def
        oflag_defs del: obj_ref.simps)
qed

section \<open>Iterating\<close>

text \<open>The documented loop over an iterator, which drops the reference of every object it gets.\<close>

fun iterate :: "nat \<Rightarrow> ref_fn \<Rightarrow> obj_iterator \<Rightarrow> world \<Rightarrow> (addr list \<times> world) option" where
  "iterate 0 rf a w = None"
| "iterate (Suc k) rf a w =
     (case obj_iterator_next rf a w of
        None \<Rightarrow> None
      | Some (None, a, w) \<Rightarrow> Some ([], w)
      | Some (Some o', a, w) \<Rightarrow>
          Option.bind (rf o' (- 1) w)
            (\<lambda>(_, w). map_option (\<lambda>(os, w). (o' # os, w)) (iterate k rf a w)))"

lemma iter_scan_pos:
  assumes "\<forall>e \<in> set (concat (drop b bs)). 0 < be_version e"
  shows "case concat (drop b bs) of
      [] \<Rightarrow> snd (iter_scan bs b 0) = None
    | p # rest \<Rightarrow> \<exists>b' ps. iter_scan bs b 0 = (b', Some p) \<and> b' < length bs \<and> bs ! b' = p # ps \<and>
        rest = ps @ concat (drop (b' + 1) bs)"
  using assms
proof (induction "length bs - b" arbitrary: b)
  case 0
  then show ?case by (subst iter_scan.simps) simp
next
  case (Suc m)
  then have b: "b < length bs" by simp
  then have d: "drop b bs = bs ! b # drop (b + 1) bs" by (simp add: Cons_nth_drop_Suc)
  show ?case
  proof (cases "bs ! b")
    case Nil
    then have eq: "iter_scan bs b 0 = iter_scan bs (Suc b) 0" using b by (subst iter_scan.simps) simp
    from Suc.hyps(1) [of "Suc b"] Suc.hyps(2) Suc.prems d Nil show ?thesis unfolding eq by simp
  next
    case (Cons p ps)
    then have "0 < be_version p" using Suc.prems d by simp
    with b Cons have "iter_scan bs b 0 = (b, Some p)" by (subst iter_scan.simps) simp
    with d Cons b show ?thesis by simp
  qed
qed

lemma iter_scan_Nil:
  "\<forall>e \<in> set (concat (drop b bs)). 0 < be_version e \<Longrightarrow> concat (drop b bs) = [] \<Longrightarrow>
   \<exists>b'. iter_scan bs b 0 = (b', None)"
  using iter_scan_pos [of b bs] by (cases "iter_scan bs b 0") (simp del: concat_eq_Nil_conv)

lemma iter_scan_Cons:
  "\<forall>e \<in> set (concat (drop b bs)). 0 < be_version e \<Longrightarrow> concat (drop b bs) = p # rest \<Longrightarrow>
   \<exists>b' ps. iter_scan bs b 0 = (b', Some p) \<and> b' < length bs \<and> bs ! b' = [] @ p # ps \<and>
     rest = ps @ concat (drop (b' + 1) bs)"
  using iter_scan_pos [of b bs] by simp

lemma entry_after_split:
  assumes "distinct (map be_version (us @ p # vs))"
  shows "entry_after (be_version p) (us @ p # vs) = (case vs of [] \<Rightarrow> None | v # _ \<Rightarrow> Some v)"
  using assms
proof (induction us)
  case Nil
  then show ?case by (cases vs) (auto simp: neq_Nil_conv)
next
  case (Cons u us)
  then show ?case by (cases us) auto
qed

definition iter_on :: "obj_container \<Rightarrow> addr \<Rightarrow> obj_iterator \<Rightarrow> bucket_entry list \<Rightarrow> bool" where
  "iter_on ct c a rest \<longleftrightarrow> it_c a = Some c \<and> it_flags a AND OBJ_ITERATOR_UNLINK = 0 \<and>
     (\<exists>us p vs. it_bucket a < length (buckets ct) \<and> buckets ct ! it_bucket a = us @ p # vs \<and>
        it_c_version a = version ct \<and> it_obj a = Some (be_version p) \<and>
        rest = vs @ concat (drop (it_bucket a + 1) (buckets ct)))"

definition iter_new :: "obj_container \<Rightarrow> addr \<Rightarrow> obj_iterator \<Rightarrow> bool" where
  "iter_new ct c a \<longleftrightarrow> it_c a = Some c \<and> it_flags a AND OBJ_ITERATOR_UNLINK = 0 \<and>
     it_c_version a \<noteq> version ct \<and> it_bucket a = 0 \<and> it_version a = 0"

lemma distinct_bucket:
  assumes "distinct (map f (concat bs))" "b < length bs"
  shows "distinct (map f (bs ! b))"
proof -
  have "concat bs = concat (take b bs) @ bs ! b @ concat (drop (Suc b) bs)"
    using assms(2) by (metis concat.simps(2) concat_append id_take_nth_drop)
  with assms(1) show ?thesis by simp
qed

lemma iter_locate_step:
  assumes ok: "cont_ok ct" and it: "iter_on ct c a rest \<or> iter_new ct c a \<and> rest = entries ct"
  shows "case rest of
      [] \<Rightarrow> snd (iter_locate ct a) = None
    | p # rest' \<Rightarrow> \<exists>a'. iter_locate ct a = (a', Some p) \<and> it_c a' = it_c a \<and> it_flags a' = it_flags a \<and>
        (\<exists>us vs. it_bucket a' < length (buckets ct) \<and> buckets ct ! it_bucket a' = us @ p # vs \<and>
           rest' = vs @ concat (drop (it_bucket a' + 1) (buckets ct)))"
proof -
  have pos: "\<forall>e \<in> set (concat (drop b (buckets ct))). 0 < be_version e" for b
    using ok by (auto simp: cont_ok_def entries_def dest: in_set_dropD)
  from it show ?thesis
  proof
    assume new: "iter_new ct c a \<and> rest = entries ct"
    then have loc: "iter_locate ct a = (case iter_scan (buckets ct) 0 0 of (b, p) \<Rightarrow> (a\<lparr>it_bucket := b\<rparr>, p))"
      by (simp add: iter_new_def iter_locate_def Let_def)
    show ?thesis
    proof (cases rest)
      case Nil
      with new iter_scan_Nil [OF pos, of 0] loc show ?thesis by (auto simp: entries_def)
    next
      case (Cons p rest')
      with new have "concat (drop 0 (buckets ct)) = p # rest'" by (simp add: entries_def)
      from iter_scan_Cons [OF pos this] obtain b' ps where
        "iter_scan (buckets ct) 0 0 = (b', Some p)" "b' < length (buckets ct)"
        "buckets ct ! b' = [] @ p # ps" "rest' = ps @ concat (drop (b' + 1) (buckets ct))" by blast
      with loc Cons show ?thesis by (simp del: append_Nil)
    qed
  next
    assume "iter_on ct c a rest"
    then obtain us p vs where on: "it_bucket a < length (buckets ct)"
      "buckets ct ! it_bucket a = us @ p # vs" "it_c_version a = version ct" "it_obj a = Some (be_version p)"
      "rest = vs @ concat (drop (it_bucket a + 1) (buckets ct))" by (auto simp: iter_on_def)
    have "distinct (map be_version (us @ p # vs))"
      using ok distinct_bucket [OF _ on(1), of be_version] on(2) by (simp add: cont_ok_def entries_def)
    note ea = entry_after_split [OF this]
    show ?thesis
    proof (cases vs)
      case Nil
      define b where "b = it_bucket a + 1"
      have loc: "iter_locate ct a = (case iter_scan (buckets ct) b 0 of
          (b', p) \<Rightarrow> (a\<lparr>it_bucket := b', it_version := 0, it_obj := None\<rparr>, p))"
        using ea on Nil by (simp add: iter_locate_def Let_def b_def split: prod.split)
      show ?thesis
      proof (cases rest)
        case Nil
        with on(5) iter_scan_Nil [OF pos, of b] loc show ?thesis by (auto simp: b_def)
      next
        case (Cons p rest')
        with on(5) \<open>vs = []\<close> have "concat (drop b (buckets ct)) = p # rest'" by (simp add: b_def)
        from iter_scan_Cons [OF pos this] obtain b' ps where
          "iter_scan (buckets ct) b 0 = (b', Some p)" "b' < length (buckets ct)"
          "buckets ct ! b' = [] @ p # ps" "rest' = ps @ concat (drop (b' + 1) (buckets ct))" by blast
        with loc Cons show ?thesis by (simp del: append_Nil)
      qed
    next
      case (Cons v vs')
      then have "iter_locate ct a = (a, Some v)" using ea on by (simp add: iter_locate_def)
      moreover have "buckets ct ! it_bucket a = (us @ [p]) @ v # vs'" using on(2) Cons by simp
      ultimately show ?thesis using on(1,5) Cons by (auto simp del: append_assoc)
    qed
  qed
qed

lemma iterate_rest:
  assumes "get_container w c = Some ct" "cont_ok ct"
    and "\<forall>e \<in> set rest. \<exists>p. w_objs w (be_obj e) = Some p \<and> 0 < ref_counter p"
    and "iter_on ct c a rest \<or> iter_new ct c a \<and> rest = entries ct" "length rest < k"
  shows "iterate k (obj_ref (Suc n)) a w = Some (map be_obj rest, w)"
  using assms
proof (induction rest arbitrary: a k)
  case Nil
  then obtain k' where k: "k = Suc k'" by (cases k) auto
  obtain a' where "iter_locate ct a = (a', None)"
    using iter_locate_step [OF Nil(2) Nil(4)] by (cases "iter_locate ct a") auto
  moreover have "it_c a = Some c" using Nil(4) by (auto simp: iter_on_def iter_new_def)
  ultimately show ?case
    using Nil(1) k by (simp add: obj_iterator_next_def internal_obj_iterator_next_def del: obj_ref.simps)
next
  case (Cons e rest)
  then obtain k' where k: "k = Suc k'" "length rest < k'" by (cases k) auto
  from iter_locate_step [OF Cons.prems(2) Cons.prems(4)] obtain a' us vs where
    a': "iter_locate ct a = (a', Some e)" "it_c a' = it_c a" "it_flags a' = it_flags a"
      "it_bucket a' < length (buckets ct)" "buckets ct ! it_bucket a' = us @ e # vs"
      "rest = vs @ concat (drop (it_bucket a' + 1) (buckets ct))" by auto
  have a: "it_c a = Some c" "it_flags a AND OBJ_ITERATOR_UNLINK = 0"
    using Cons.prems(4) by (auto simp: iter_on_def iter_new_def)
  let ?a = "a'\<lparr>it_version := be_version e, it_obj := Some (be_version e), it_c_version := version ct\<rparr>"
  from Cons.prems(3) obtain p where p: "w_objs w (be_obj e) = Some p" "0 < ref_counter p" by auto
  let ?w = "set_ref (be_obj e) p (ref_counter p + 1) w"
  have nx: "obj_iterator_next (obj_ref (Suc n)) a w = Some (Some (be_obj e), ?a, ?w)"
    using a a' Cons.prems(1) obj_ref_live [OF p(1), of 1 n] p(2)
    by (simp add: obj_iterator_next_def internal_obj_iterator_next_def del: obj_ref.simps)
  have "obj_ref (Suc n) (be_obj e) (- 1) ?w =
      Some (ref_counter p + 1, set_ref (be_obj e) (p\<lparr>ref_counter := ref_counter p + 1\<rparr>) (ref_counter p) ?w)"
    using obj_ref_live [of ?w "be_obj e" "p\<lparr>ref_counter := ref_counter p + 1\<rparr>" "- 1" n] p
    by (simp del: obj_ref.simps)
  then have dn: "obj_ref (Suc n) (be_obj e) (- 1) ?w = Some (ref_counter p + 1, w)"
    using set_ref_id [OF p(1)] by simp
  have "iter_on ct c ?a rest" using a a' by (auto simp: iter_on_def)
  then have "iterate k' (obj_ref (Suc n)) ?a w = Some (map be_obj rest, w)"
    using Cons.prems k(2) by (intro Cons.IH) auto
  with nx dn k(1) show ?case by (simp del: obj_ref.simps)
qed

lemma wrap_never_ends:
  fixes P :: "addr \<Rightarrow> bool" and w :: world and ct :: obj_container
  defines "fl \<equiv> OBJ_POINTER OR OBJ_CONTINUE OR OBJ_NODATA"
    and "cb \<equiv> \<lambda>a (_::oflags) (w::world). Some (if P a then CMP_MATCH else 0, w)"
  assumes ct: "get_container w c = Some ct"
    and nomatch: "\<forall>e \<in> set (buckets ct ! nat (n_buckets ct - 1)). \<not> P (be_obj e)"
    and k: "k < n_buckets ct - 1" "0 \<le> k" and mtch: "\<exists>e \<in> set (buckets ct ! nat k). P (be_obj e)"
  shows "callback_loop rf cb fl c None (n_buckets ct - 1) (n_buckets ct - 1) (n_buckets ct) w = None"
proof -
  have fl: "fl = 26" by (simp add: fl_def oflag_defs)
  let ?n = "n_buckets ct"
  have scan: "bucket_scan rf cb fl c i None es w = Some (None, \<exists>e \<in> set es. P (be_obj e), w)" for i es
    by (induction es) (auto simp: cb_def fl oflag_defs Let_def)
  have "\<not> (c' = c \<and> m' = None \<and> rf' = rf \<and> cb' = cb \<and> fl' = fl \<and> w' = w \<and> st = ?n - 1 \<and>
      (i = ?n - 1 \<and> lst = ?n \<or> 0 \<le> i \<and> i \<le> k \<and> lst = ?n - 1))"
    if "callback_loop rf' cb' fl' c' m' st i lst w' = Some y" for rf' cb' fl' c' m' st i lst w' y
  proof (rule callback_loop.raw_induct [where P = "\<lambda>rf' cb' fl' c' m' st i lst w' y.
      \<not> (c' = c \<and> m' = None \<and> rf' = rf \<and> cb' = cb \<and> fl' = fl \<and> w' = w \<and> st = ?n - 1 \<and>
      (i = ?n - 1 \<and> lst = ?n \<or> 0 \<le> i \<and> i \<le> k \<and> lst = ?n - 1))", OF _ that], goal_cases)
    case (1 rec rf' cb' fl' c' m' st i lst w' y)
    show ?case
    proof
      assume h: "c' = c \<and> m' = None \<and> rf' = rf \<and> cb' = cb \<and> fl' = fl \<and> w' = w \<and> st = ?n - 1 \<and>
        (i = ?n - 1 \<and> lst = ?n \<or> 0 \<le> i \<and> i \<le> k \<and> lst = ?n - 1)"
      define stop where "stop = (\<exists>e \<in> set (buckets ct ! nat i). P (be_obj e))"
      from h k have "i < lst" by auto
      from h have e: "c' = c" "m' = None" "rf' = rf" "cb' = cb" "fl' = fl" "w' = w" "st = ?n - 1" by blast+
      have eq:
        "(let i = (if stop then lst else i)
          in if i = ?n - 1 then rec rf cb fl c None (?n - 1) 0 (?n - 1) w
             else rec rf cb fl c None (?n - 1) (i + 1) lst w) = Some y"
        using 1(2) \<open>i < lst\<close> ct unfolding e scan
        by (simp add: stop_def [symmetric] fl oflag_defs del: bex_simps ball_simps)
      show False
      proof (cases "i = ?n - 1")
        case True
        with nomatch have "\<not> stop" by (simp add: stop_def)
        with eq True have "rec rf cb fl c None (?n - 1) 0 (?n - 1) w = Some y" by (simp add: Let_def)
        from 1(1) [OF this] k show False by simp
      next
        case False
        with h have i: "0 \<le> i" "i \<le> k" "lst = ?n - 1" by auto
        show False
        proof (cases stop)
          case True
          with eq i have "rec rf cb fl c None (?n - 1) 0 (?n - 1) w = Some y" by (simp add: Let_def)
          from 1(1) [OF this] k show False by simp
        next
          case ns: False
          with mtch i have "i \<noteq> k" by (auto simp: stop_def)
          from ns eq False i have "rec rf cb fl c None (?n - 1) (i + 1) (?n - 1) w = Some y" by (simp add: Let_def)
          from 1(1) [OF this] i \<open>i \<noteq> k\<close> show False by simp
        qed
      qed
    qed
  qed
  from this [of rf cb fl c None "?n - 1" "?n - 1" ?n w]
  show ?thesis
    by (cases "callback_loop rf cb fl c None (?n - 1) (?n - 1) ?n w") auto
qed

section \<open>Properties\<close>


definition demo_world :: world where
  "demo_world = snd (internal_obj_alloc 16 (UserDestructor 7) None
     (snd (obj_container_alloc 3 (Some (\<lambda>a _. - int a)) (\<lambda>_ _ _. 0) \<lparr>w_objs = \<lambda>_. None, w_next = 1, w_log = []\<rparr>)))"

lemma demo_container:
  "get_container demo_world 1 = Some \<lparr>c_hash_fn = \<lambda>a _. - int a, c_cmp_fn = \<lambda>_ _ _. 0,
     n_buckets = 3, elements = 0, version = 1, buckets = [[], [], []]\<rparr>"
  "w_objs demo_world 2 = Some \<lparr>ref_counter = 1, destructor_fn = UserDestructor 7, data_size = 16, o_cont = None\<rparr>"
  by (simp_all add: demo_world_def obj_container_alloc_def internal_obj_container_alloc_def internal_obj_alloc_def get_container_def Let_def
      numeral_3_eq_3)


text \<open>
  C3: dropping the last reference of a container drops exactly one
  reference for every link the container holds: an object whose other references outweigh its
  links stays with its counter lowered by their number, one that has no other reference is
  destroyed, all others are untouched, and the container is gone.
\<close>

theorem container_destroy_drops_refs:
  assumes "w_objs w c = Some p" "o_cont p = Some ct" "destructor_fn p = ContainerDestruct" "ref_counter p = 1"
    and "cont_ok ct" "plain_refs (cobjs ct) w" "c \<notin> set (cobjs ct)"
  shows "\<exists>w'. obj_ref (Suc (Suc n)) c (- 1) w = Some (1, w') \<and> w_objs w' c = None \<and>
     (\<forall>a. a \<noteq> c \<longrightarrow> w_objs w' a =
        (if a \<in> set (cobjs ct) then after_drop (count_list (cobjs ct) a) (the (w_objs w a)) else w_objs w a))"
proof -
  let ?w = "w\<lparr>w_objs := (w_objs w)(c := Some (p\<lparr>ref_counter := 0\<rparr>))\<rparr>"
  have "get_container ?w c = Some ct" using assms(2) by (simp add: get_container_def)
  moreover have pr: "plain_refs (cobjs ct) ?w" using assms(6,7) by (auto simp: plain_refs_def)
  ultimately obtain w' where w': "container_destruct (obj_ref (Suc n)) c ?w = Some w'"
    "\<forall>a. a \<noteq> c \<longrightarrow> w_objs w' a = w_objs (drop_refs (cobjs ct) ?w) a"
    using container_destruct_result [of ?w c ct n] assms(5,7) by blast
  have "obj_ref (Suc (Suc n)) c (- 1) w = Some (1, w'\<lparr>w_objs := (w_objs w')(c := None)\<rparr>)"
    using assms(1,3,4) w'(1) by (simp add: internal_obj_ref_def internal_obj_def Let_def)
  moreover have "w_objs w' a = (if a \<in> set (cobjs ct) then after_drop (count_list (cobjs ct) a) (the (w_objs w a)) else w_objs w a)"
    if "a \<noteq> c" for a
  proof (cases "a \<in> set (cobjs ct)")
    case True
    with pr obtain q where "w_objs ?w a = Some q" by (auto simp: plain_refs_def)
    with drop_refs_result [OF pr True this] that w'(2) True show ?thesis by simp
  next
    case False
    with that w'(2) show ?thesis by (simp add: drop_refs_frame)
  qed
  ultimately show ?thesis by simp
qed

theorem container_destroy_drops_refs_witness:
  "\<exists>w'. obj_ref 2 1 (- 1) (snd (the (obj_link (obj_ref 1) 1 (Some 2) demo_world))) = Some (1, w') \<and>
     w_objs w' 1 = None \<and>
     w_objs w' 2 = Some \<lparr>ref_counter = 1, destructor_fn = UserDestructor 7, data_size = 16, o_cont = None\<rparr>"
proof -
  define ct where "ct = \<lparr>c_hash_fn = \<lambda>a (_::oflags). - int a, c_cmp_fn = \<lambda>(_::addr) (_::addr) (_::oflags). (0::oflags),
     n_buckets = 3, elements = 0, version = 1, buckets = [[], [], []]\<rparr>"
  define p where "p = \<lparr>ref_counter = 1, destructor_fn = UserDestructor 7, data_size = 16, o_cont = None :: obj_container option\<rparr>"
  note d = demo_container [folded ct_def p_def]
  define w where "w = set_ref 2 p 2 (put_container 1 (linked ct 2) demo_world)"
  have ok: "cont_ok ct" by (simp add: ct_def cont_ok_def entries_def numeral_3_eq_3 less_Suc_eq)
  have l: "obj_link (obj_ref 1) 1 (Some 2) demo_world = Some (True, w)"
    using obj_link_result [OF d(1) ok d(2), of 0] by (simp add: w_def p_def ct_def del: obj_ref.simps)
  have c1: "cobjs (linked ct 2) = [2]"
    by (simp add: cobjs_def entries_def linked_def ct_def hash_ix_def numeral_3_eq_3 numeral_2_eq_2)
  obtain q where q: "w_objs w 1 = Some q" "o_cont q = Some (linked ct 2)" "destructor_fn q = ContainerDestruct"
    "ref_counter q = 1"
    by (simp add: w_def put_container_def demo_world_def obj_container_alloc_def internal_obj_container_alloc_def internal_obj_alloc_def Let_def)
  have "plain_refs (cobjs (linked ct 2)) w" by (simp add: c1 plain_refs_def w_def p_def)
  from container_destroy_drops_refs [OF q linked_ok [OF ok] this, of 0] obtain w' where
    w': "obj_ref (Suc (Suc 0)) 1 (- 1) w = Some (1, w')" "w_objs w' 1 = None"
      "w_objs w' 2 = after_drop (count_list (cobjs (linked ct 2)) 2) (the (w_objs w 2))"
    by (auto simp: c1 simp del: obj_ref.simps)
  have "w_objs w' 2 = Some p" using w'(3) by (simp add: c1 after_drop_def w_def p_def)
  with w'(1,2) l show ?thesis by (auto simp: p_def numeral_2_eq_2 simp del: obj_ref.simps)
qed



text \<open>
  with \<open>OBJ_POINTER\<close>, \<open>OBJ_CONTINUE\<close> and \<open>OBJ_NODATA\<close>, a hash that starts
  the search in the last bucket and no match there, a match in an earlier bucket never ends
  \<open>obj_callback\<close>: it sets the loop variable to the value that sends the search back to the first
  bucket.
\<close>

lemma callback_wraps_for_ever:
  assumes "get_container w c = Some ct" "cont_ok ct"
    and "c_mod (c_hash_fn ct arg OBJ_POINTER) (n_buckets ct) = n_buckets ct - 1"
    and "\<forall>e \<in> set (buckets ct ! nat (n_buckets ct - 1)). \<not> P (be_obj e)"
    and "k < n_buckets ct - 1" "0 \<le> k" "\<exists>e \<in> set (buckets ct ! nat k). P (be_obj e)"
  shows "obj_callback rf c (OBJ_POINTER OR OBJ_CONTINUE OR OBJ_NODATA)
     (Some (\<lambda>a _ w. Some (if P a then CMP_MATCH else 0, w))) arg w = None"
  using wrap_never_ends [of w c ct P k rf] assms
  by (simp add: obj_callback_def internal_obj_callback_def oflag_defs)

theorem callback_wraps_for_ever_witness:
  "obj_callback (obj_ref 1) 1 (OBJ_POINTER OR OBJ_CONTINUE OR OBJ_NODATA)
     (Some (\<lambda>a _ w. Some (if a = 4 then CMP_MATCH else 0, w))) 5
     \<lparr>w_objs = (\<lambda>_. None)(1 := Some \<lparr>ref_counter = 1, destructor_fn = ContainerDestruct, data_size = 72,
        o_cont = Some \<lparr>c_hash_fn = \<lambda>a _. int a, c_cmp_fn = \<lambda>_ _ _. 0, n_buckets = 2, elements = 1, version = 2,
          buckets = [[\<lparr>be_version = 1, be_obj = 4\<rparr>], []]\<rparr>\<rparr>), w_next = 6, w_log = []\<rparr> = None"
  by (rule callback_wraps_for_ever [where k = 0 and P = "\<lambda>a. a = 4" and c = 1])
     (auto simp: get_container_def cont_ok_def entries_def hash_ix_def c_mod_def less_Suc_eq numeral_2_eq_2)

end
