(* ===== verification/Spd_Config.thy ===== *)
theory Spd_Config
  imports Spd_Strings
begin

text \<open>
  Configuration files: \<open>src/config.c\<close>. A chain of sections or variables is a list of records that
  carry their address, and \<open>last\<close>, \<open>current\<close> and \<open>last_browse\<close> are addresses, because the code
  keeps them apart from the chain: hanging something behind a \<open>last\<close> that is no longer the end of
  the chain cuts off what followed, and following an address that is not in the chain any more
  is a use after free, which has no result. A string argument is a pointer with its text, since
  names are compared by address first. Comment buffers, which the code grows as needed, are
  strings. Allocations succeed; \<open>c_fresh\<close> is the next free address.
\<close>

section \<open>Data\<close>

datatype cstrp = CP (cp_owner: "addr option") (cp_text: string)

record spd_variable =
  v_addr :: addr
  v_name :: string
  v_value :: string
  v_lineno :: nat
  v_object :: bool
  v_blanklines :: nat
  v_prev :: "string list"
  v_sameline :: "string list"

record spd_section =
  s_addr :: addr
  s_name :: string
  s_ignored :: bool
  s_include_level :: int
  s_templates :: "(string \<times> addr) list"
  s_prev :: "string list"
  s_sameline :: "string list"
  s_vars :: "spd_variable list"
  s_last :: "addr option"

record spd_config =
  c_sections :: "spd_section list"
  c_last :: "addr option"
  c_current :: "addr option"
  c_last_browse :: "addr option"
  c_include_level :: int
  c_max_include_level :: int
  c_fresh :: addr

definition spd_config_new :: spd_config where
  "spd_config_new = \<lparr>c_sections = [], c_last = None, c_current = None, c_last_browse = None,
     c_include_level = 0, c_max_include_level = 10, c_fresh = 1\<rparr>"

text \<open>Hanging \<open>ys\<close> behind the element at address \<open>l\<close>.\<close>

fun link_behind :: "('e \<Rightarrow> addr) \<Rightarrow> addr \<Rightarrow> 'e list \<Rightarrow> 'e list \<Rightarrow> 'e list option" where
  "link_behind ad l [] ys = None"
| "link_behind ad l (x # xs) ys = (if ad x = l then Some (x # ys) else map_option ((#) x) (link_behind ad l xs ys))"

fun find_addr :: "('e \<Rightarrow> addr) \<Rightarrow> addr \<Rightarrow> 'e list \<Rightarrow> 'e option" where
  "find_addr ad a xs = find (\<lambda>x. ad x = a) xs"

section \<open>Variables\<close>

definition spd_variable_new :: "addr \<Rightarrow> string \<Rightarrow> string \<Rightarrow> spd_variable" where
  "spd_variable_new a name value =
     \<lparr>v_addr = a, v_name = name, v_value = value, v_lineno = 0, v_object = False, v_blanklines = 0,
      v_prev = [], v_sameline = []\<rparr>"

text \<open>The argument is a chain of variables, empty for \<open>NULL\<close>.\<close>

definition spd_variable_append :: "spd_section \<Rightarrow> spd_variable list \<Rightarrow> spd_section option" where
  "spd_variable_append cat vs =
     (if vs = [] then Some cat
      else Option.bind
             (case s_last cat of
                None \<Rightarrow> Some vs
              | Some l \<Rightarrow> link_behind v_addr l (s_vars cat) vs)
             (\<lambda>chain. Some (cat\<lparr>s_vars := chain, s_last := Some (v_addr (last vs))\<rparr>)))"

definition variable_clone :: "addr \<Rightarrow> spd_variable \<Rightarrow> spd_variable" where
  "variable_clone a old =
     (spd_variable_new a (v_name old) (v_value old))\<lparr>v_lineno := v_lineno old, v_blanklines := v_blanklines old\<rparr>"

definition move_variables :: "spd_section \<Rightarrow> spd_section \<Rightarrow> (spd_section \<times> spd_section) option" where
  "move_variables old newsec =
     map_option (\<lambda>n. (old\<lparr>s_vars := []\<rparr>, n)) (spd_variable_append newsec (s_vars old))"

definition fix_last_after_unlink :: "spd_section \<Rightarrow> addr \<Rightarrow> spd_variable option \<Rightarrow> spd_section" where
  "fix_last_after_unlink cat cur prev =
     (if s_last cat = Some cur then cat\<lparr>s_last := map_option v_addr prev\<rparr> else cat)"

text \<open>
  The two loops of \<open>spd_variable_delete\<close>: by the address of the name, then by name and value.
  \<open>done\<close> are the variables before \<open>cur\<close> that stay; the last of them is \<open>prev\<close>.
\<close>

fun delete_by_pointer ::
  "addr \<Rightarrow> spd_section \<Rightarrow> spd_variable list \<Rightarrow> spd_variable list \<Rightarrow> spd_section option" where
  "delete_by_pointer a cat kept [] = None"
| "delete_by_pointer a cat kept (cur # rest) =
     (if v_addr cur = a then
        Some ((fix_last_after_unlink cat (v_addr cur) (if kept = [] then None else Some (last kept)))
                \<lparr>s_vars := kept @ rest\<rparr>)
      else delete_by_pointer a cat (kept @ [cur]) rest)"

definition var_matches :: "string \<Rightarrow> string option \<Rightarrow> spd_variable \<Rightarrow> bool" where
  "var_matches variable mtch cur \<longleftrightarrow> strcasecmp (v_name cur) variable = 0 \<and>
     (spd_strlen_zero mtch \<or> strcasecmp (v_value cur) (the mtch) = 0)"

fun delete_by_name ::
  "string \<Rightarrow> string option \<Rightarrow> spd_section \<Rightarrow> spd_variable list \<Rightarrow> spd_variable list \<Rightarrow> int \<Rightarrow> int \<times> spd_section" where
  "delete_by_name variable mtch cat kept [] res = (res, cat\<lparr>s_vars := kept\<rparr>)"
| "delete_by_name variable mtch cat kept (cur # rest) res =
     (if var_matches variable mtch cur
      then delete_by_name variable mtch
             (fix_last_after_unlink cat (v_addr cur) (if kept = [] then None else Some (last kept)))
             kept rest 0
      else delete_by_name variable mtch cat (kept @ [cur]) rest res)"

definition spd_variable_delete :: "spd_section \<Rightarrow> cstrp \<Rightarrow> string option \<Rightarrow> int \<times> spd_section" where
  "spd_variable_delete cat variable mtch =
     (case (case cp_owner variable of
              None \<Rightarrow> None | Some a \<Rightarrow> delete_by_pointer a cat [] (s_vars cat)) of
        Some cat' \<Rightarrow> (0, cat')
      | None \<Rightarrow> delete_by_name (cp_text variable) mtch cat [] (s_vars cat) (- 1))"

text \<open>The replacing loop of \<open>spd_variable_update\<close>; a new variable at the end leaves \<open>last\<close> as it is.\<close>

fun update_loop ::
  "string \<Rightarrow> string option \<Rightarrow> spd_variable \<Rightarrow> spd_section \<Rightarrow> spd_variable list \<Rightarrow> spd_variable list \<Rightarrow> spd_section" where
  "update_loop variable mtch newer cat kept [] = cat\<lparr>s_vars := kept @ [newer]\<rparr>"
| "update_loop variable mtch newer cat kept (cur # rest) =
     (if \<not> var_matches variable mtch cur
      then update_loop variable mtch newer cat (kept @ [cur]) rest
      else (let newer = newer\<lparr>v_object := v_object cur \<or> v_object newer\<rparr>;
                cat = cat\<lparr>s_vars := kept @ newer # rest\<rparr>
            in if s_last cat = Some (v_addr cur) then cat\<lparr>s_last := Some (v_addr newer)\<rparr> else cat))"

definition spd_variable_update ::
  "addr \<Rightarrow> spd_section \<Rightarrow> string \<Rightarrow> string \<Rightarrow> string option \<Rightarrow> bool \<Rightarrow> int \<times> spd_section" where
  "spd_variable_update a cat variable value mtch object =
     (0, update_loop variable mtch ((spd_variable_new a variable value)\<lparr>v_object := object\<rparr>) cat [] (s_vars cat))"

section \<open>Sections\<close>

definition spd_section_new :: "addr \<Rightarrow> string \<Rightarrow> spd_section" where
  "spd_section_new a name =
     \<lparr>s_addr = a, s_name = take 79 name, s_ignored = False, s_include_level = 0, s_templates = [],
      s_prev = [], s_sameline = [], s_vars = [], s_last = None\<rparr>"

definition section_get :: "spd_config \<Rightarrow> cstrp \<Rightarrow> bool \<Rightarrow> spd_section option" where
  "section_get cfg name ignored =
     (case find (\<lambda>cat. cp_owner name = Some (s_addr cat) \<and> (ignored \<or> \<not> s_ignored cat)) (c_sections cfg) of
        Some cat \<Rightarrow> Some cat
      | None \<Rightarrow> find (\<lambda>cat. strcasecmp (s_name cat) (cp_text name) = 0 \<and> (ignored \<or> \<not> s_ignored cat))
                  (c_sections cfg))"

definition spd_section_get :: "spd_config \<Rightarrow> cstrp \<Rightarrow> spd_section option" where
  "spd_section_get cfg name = section_get cfg name False"

definition spd_section_exist :: "spd_config \<Rightarrow> cstrp \<Rightarrow> bool" where
  "spd_section_exist cfg name \<longleftrightarrow> spd_section_get cfg name \<noteq> None"

definition spd_section_append :: "spd_config \<Rightarrow> spd_section \<Rightarrow> spd_config option" where
  "spd_section_append cfg cat =
     (let cat = cat\<lparr>s_include_level := c_include_level cfg\<rparr>
      in map_option (\<lambda>chain. cfg\<lparr>c_sections := chain, c_last := Some (s_addr cat), c_current := Some (s_addr cat)\<rparr>)
           (case c_last cfg of
              None \<Rightarrow> Some [cat]
            | Some l \<Rightarrow> link_behind s_addr l (c_sections cfg) [cat]))"

definition spd_variable_browse :: "spd_config \<Rightarrow> cstrp option \<Rightarrow> spd_variable list option" where
  "spd_variable_browse cfg sec =
     (case (sec, c_last_browse cfg) of
        (Some s, Some b) \<Rightarrow>
          (case find_addr s_addr b (c_sections cfg) of
             None \<Rightarrow> None
           | Some bs \<Rightarrow>
               Some (if cp_owner s = Some b then s_vars bs
                     else (case spd_section_get cfg s of None \<Rightarrow> [] | Some cat \<Rightarrow> s_vars cat)))
      | (Some s, None) \<Rightarrow>
          Some (case spd_section_get cfg s of None \<Rightarrow> [] | Some cat \<Rightarrow> s_vars cat)
      | (None, _) \<Rightarrow> if c_sections cfg = [] then Some [] else None)"

text \<open>With a section the code returns the name of the variable it finds.\<close>

definition spd_variable_retrive :: "spd_config \<Rightarrow> cstrp option \<Rightarrow> string \<Rightarrow> string option option" where
  "spd_variable_retrive cfg sec variable =
     (case sec of
        Some s \<Rightarrow>
          map_option (\<lambda>vs. map_option v_name (find (\<lambda>v. strcasecmp variable (v_name v) = 0) vs))
            (spd_variable_browse cfg (Some s))
      | None \<Rightarrow>
          Some (map_option v_value
            (find (\<lambda>v. strcasecmp variable (v_name v) = 0) (concat (map s_vars (c_sections cfg))))))"

definition spd_config_option :: "spd_config \<Rightarrow> cstrp option \<Rightarrow> string \<Rightarrow> string option option" where
  "spd_config_option cfg cat var =
     (case spd_variable_retrive cfg cat var of
        None \<Rightarrow> None
      | Some (Some t) \<Rightarrow> Some (Some t)
      | Some None \<Rightarrow> spd_variable_retrive cfg (Some (CP None ''general'')) var)"

definition next_available_section :: "spd_section list \<Rightarrow> spd_section option" where
  "next_available_section cats = find (\<lambda>cat. \<not> s_ignored cat) cats"

fun section_tail :: "(spd_section \<Rightarrow> bool) \<Rightarrow> spd_section list \<Rightarrow> spd_section list" where
  "section_tail P [] = []"
| "section_tail P (s # ss) = (if P s then ss else section_tail P ss)"

text \<open>The rest of the chain from which the next section is taken.\<close>

definition browse_rest :: "spd_config \<Rightarrow> cstrp option \<Rightarrow> spd_section list" where
  "browse_rest cfg prev =
     (case prev of
        None \<Rightarrow> c_sections cfg
      | Some p \<Rightarrow>
          if c_last_browse cfg \<noteq> None \<and> cp_owner p = c_last_browse cfg
          then section_tail (\<lambda>s. Some (s_addr s) = c_last_browse cfg) (c_sections cfg)
          else
            (let t = section_tail (\<lambda>s. cp_owner p = Some (s_addr s)) (c_sections cfg)
             in if t \<noteq> [] then t
                else section_tail (\<lambda>s. strcasecmp (s_name s) (cp_text p) = 0) (c_sections cfg)))"

definition spd_section_browse :: "spd_config \<Rightarrow> cstrp option \<Rightarrow> (cstrp option \<times> spd_config) option" where
  "spd_section_browse cfg prev =
     (if prev \<noteq> None \<and> c_last_browse cfg \<noteq> None \<and> find_addr s_addr (the (c_last_browse cfg)) (c_sections cfg) = None
      then None
      else
        (let sec = next_available_section (browse_rest cfg prev)
         in Some (map_option (\<lambda>s. CP (Some (s_addr s)) (s_name s)) sec,
                  cfg\<lparr>c_last_browse := map_option s_addr sec\<rparr>)))"

definition spd_section_root :: "spd_config \<Rightarrow> cstrp \<Rightarrow> spd_variable list" where
  "spd_section_root cfg cat = (case spd_section_get cfg cat of None \<Rightarrow> [] | Some s \<Rightarrow> s_vars s)"

definition spd_section_detach_variables :: "spd_section \<Rightarrow> spd_section" where
  "spd_section_detach_variables cat = cat\<lparr>s_vars := [], s_last := None\<rparr>"

definition spd_section_rename :: "spd_section \<Rightarrow> string \<Rightarrow> spd_section" where
  "spd_section_rename cat name = cat\<lparr>s_name := take 79 name\<rparr>"

fun section_delete_loop ::
  "(spd_section \<Rightarrow> bool) \<Rightarrow> spd_config \<Rightarrow> spd_section list \<Rightarrow> spd_section list \<Rightarrow> spd_config option" where
  "section_delete_loop P cfg kept [] = None"
| "section_delete_loop P cfg kept (cat # rest) =
     (if P cat then
        (let cfg = (if c_last cfg = Some (s_addr cat)
                    then cfg\<lparr>c_last := (if kept = [] then None else Some (s_addr (last kept)))\<rparr> else cfg)
         in Some (cfg\<lparr>c_sections := kept @ rest\<rparr>))
      else section_delete_loop P cfg (kept @ [cat]) rest)"

definition spd_section_delete :: "spd_config \<Rightarrow> cstrp \<Rightarrow> int \<times> spd_config" where
  "spd_section_delete cfg category =
     (case section_delete_loop (\<lambda>s. cp_owner category = Some (s_addr s)) cfg [] (c_sections cfg) of
        Some cfg' \<Rightarrow> (0, cfg')
      | None \<Rightarrow>
          (case section_delete_loop (\<lambda>s. strcasecmp (s_name s) (cp_text category) = 0) cfg [] (c_sections cfg) of
             Some cfg' \<Rightarrow> (0, cfg')
           | None \<Rightarrow> (- 1, cfg)))"

definition put_section :: "spd_section \<Rightarrow> spd_config \<Rightarrow> spd_config" where
  "put_section s cfg = cfg\<lparr>c_sections := map (\<lambda>t. if s_addr t = s_addr s then s else t) (c_sections cfg)\<rparr>"

text \<open>
  \<open>inherit_section\<close> clones the variables of \<open>base\<close> one by one; when \<open>base\<close> is the section itself
  the chain grows under the loop, which never ends. The template list is not filled (the code
  that did is commented out).
\<close>

fun inherit_loop :: "spd_section \<Rightarrow> spd_variable list \<Rightarrow> addr \<Rightarrow> (spd_section \<times> addr) option" where
  "inherit_loop new [] fresh = Some (new, fresh)"
| "inherit_loop new (v # vs) fresh =
     Option.bind (spd_variable_append new [variable_clone fresh v]) (\<lambda>new. inherit_loop new vs (fresh + 1))"

definition inherit_section :: "spd_section \<Rightarrow> spd_section \<Rightarrow> addr \<Rightarrow> (spd_section \<times> addr) option" where
  "inherit_section new base fresh =
     (if s_addr new = s_addr base \<and> s_vars base \<noteq> [] then None else inherit_loop new (s_vars base) fresh)"

section \<open>Parsing a line\<close>

definition strip_text :: "string \<Rightarrow> string" where
  "strip_text s = cstr (spd_strip (s @ [NUL]))"

text \<open>The comment collector and the text behind a semicolon.\<close>

record comments =
  cm_buf :: string
  cm_line :: string

fun strsep_comma :: "string \<Rightarrow> string list" where
  "strsep_comma s =
     (case index_of CHR '','' s of
        None \<Rightarrow> [s]
      | Some n \<Rightarrow> take n s # (if n < length s then strsep_comma (drop (n + 1) s) else []))"

declare strsep_comma.simps [simp del]

text \<open>
  The options behind a section header. The section under construction is \<open>nc\<close> until it is
  given up for an existing one (\<open>None\<close>), \<open>cat\<close> is the address that \<open>*cat\<close> holds. The result:
  the return code and the state.
\<close>

fun section_options ::
  "cstrp \<Rightarrow> string list \<Rightarrow> spd_config \<Rightarrow> spd_section option \<Rightarrow> addr option
     \<Rightarrow> (int \<times> spd_config \<times> spd_section option \<times> addr option) option" where
  "section_options catname [] cfg nc cat = Some (0, cfg, nc, cat)"
| "section_options catname (cur # opts) cfg nc cat =
     (let this = (case nc of Some n \<Rightarrow> Some n | None \<Rightarrow> Option.bind cat (\<lambda>a. find_addr s_addr a (c_sections cfg)))
      in case this of
           None \<Rightarrow> None
         | Some t \<Rightarrow>
             if strcasecmp cur ''!'' = 0 then
               (case nc of
                  Some n \<Rightarrow> section_options catname opts cfg (Some (n\<lparr>s_ignored := True\<rparr>)) cat
                | None \<Rightarrow> section_options catname opts (put_section (t\<lparr>s_ignored := True\<rparr>) cfg) nc cat)
             else if strcasecmp cur ''+'' = 0 then
               (case section_get cfg catname True of
                  None \<Rightarrow> Some (- 1, cfg, None, None)
                | Some old \<Rightarrow>
                    (case nc of
                       None \<Rightarrow> section_options catname opts cfg None (Some (s_addr old))
                     | Some n \<Rightarrow>
                         Option.bind (move_variables n old)
                           (\<lambda>(_, old). section_options catname opts (put_section old cfg) None (Some (s_addr old)))))
             else
               (case section_get cfg (CP None cur) True of
                  None \<Rightarrow> Some (- 1, cfg, nc, cat)
                | Some base \<Rightarrow>
                    Option.bind (inherit_section t base (c_fresh cfg))
                      (\<lambda>(t, fresh).
                         case nc of
                           Some _ \<Rightarrow> section_options catname opts (cfg\<lparr>c_fresh := fresh\<rparr>) (Some t) cat
                         | None \<Rightarrow> section_options catname opts (put_section t (cfg\<lparr>c_fresh := fresh\<rparr>)) nc cat)))"

definition new_comment :: "bool \<Rightarrow> string \<Rightarrow> string list" where
  "new_comment withcomments b = (if withcomments \<and> b \<noteq> [] then [b] else [])"

definition comment_reset :: "comments \<Rightarrow> comments" where
  "comment_reset cm = cm\<lparr>cm_buf := [], cm_line := []\<rparr>"

text \<open>
  One stripped, non-empty line. The result is the return code, the configuration, \<open>*cat\<close> and
  the comment buffers. A directive changes nothing: \<open>#exec\<close> is refused and the load that
  \<open>#include\<close> stood for is commented out.
\<close>

definition process_section_line ::
  "spd_config \<Rightarrow> addr option \<Rightarrow> string \<Rightarrow> bool \<Rightarrow> comments
     \<Rightarrow> (int \<times> spd_config \<times> addr option \<times> comments) option" where
  "process_section_line cfg cat buf withcomments cm =
     (case index_of CHR '']'' (tl buf) of
        None \<Rightarrow> Some (- 1, cfg, cat, cm)
      | Some n \<Rightarrow>
          (let name = take n (tl buf);
               rest = drop (n + 1) (tl buf);
               opts = (case rest of [] \<Rightarrow> None | x # r \<Rightarrow> if x = CHR ''('' then Some r else None);
               nc = (spd_section_new (c_fresh cfg) name)
                      \<lparr>s_prev := new_comment withcomments (cm_buf cm), s_sameline := new_comment withcomments (cm_line cm)\<rparr>;
               cfg = cfg\<lparr>c_fresh := c_fresh cfg + 1\<rparr>;
               cm = (if withcomments then comment_reset cm else cm)
           in case opts of
                None \<Rightarrow> map_option (\<lambda>cfg. (0, cfg, Some (s_addr nc), cm)) (spd_section_append cfg nc)
              | Some o' \<Rightarrow>
                  (case index_of CHR '')'' o' of
                     None \<Rightarrow> Some (- 1, cfg, Some (s_addr nc), cm)
                   | Some m \<Rightarrow>
                       Option.bind (section_options (CP None name) (strsep_comma (take m o')) cfg (Some nc) (Some (s_addr nc)))
                         (\<lambda>(res, cfg, nc, cat).
                            if res \<noteq> 0 then Some (res, cfg, cat, cm)
                            else (case nc of
                                    None \<Rightarrow> Some (0, cfg, cat, cm)
                                  | Some n' \<Rightarrow> map_option (\<lambda>cfg. (0, cfg, cat, cm)) (spd_section_append cfg n'))))))"

datatype directive = Include string | Include_no_argument | Unknown_directive string

definition process_directive :: "string \<Rightarrow> directive" where
  "process_directive buf =
     (let t = tl buf;
          word = takeWhile (\<lambda>c. schar c > 32) t;
          rest = drop (length word) t;
          arg = (if rest = [] then [] else strip_text (tl rest))
      in if strcasecmp word ''include'' \<noteq> 0 then Unknown_directive word
         else if arg = [] then Include_no_argument
         else if (hd arg = CHR 0x22 \<or> hd arg = CHR ''<'') \<and>
                 last arg = (if hd arg = CHR ''<'' then CHR ''>'' else hd arg)
         then Include (butlast (tl arg))
         else Include arg)"

definition process_variable_line ::
  "spd_config \<Rightarrow> addr option \<Rightarrow> string \<Rightarrow> nat \<Rightarrow> bool \<Rightarrow> comments
     \<Rightarrow> (int \<times> spd_config \<times> addr option \<times> comments) option" where
  "process_variable_line cfg cat buf lineno withcomments cm =
     (case cat of
        None \<Rightarrow> Some (- 1, cfg, cat, cm)
      | Some a \<Rightarrow>
          (case index_of CHR ''='' buf of
             None \<Rightarrow> Some (0, cfg, cat, cm)
           | Some n \<Rightarrow>
               (let val = drop (n + 1) buf;
                    object = (case val of [] \<Rightarrow> False | x # _ \<Rightarrow> x = CHR ''>'');
                    val = (if object then tl val else val);
                    v = (spd_variable_new (c_fresh cfg) (strip_text (take n buf)) (strip_text val))
                          \<lparr>v_lineno := lineno, v_object := object,
                           v_prev := new_comment withcomments (cm_buf cm), v_sameline := new_comment withcomments (cm_line cm)\<rparr>;
                    cfg = cfg\<lparr>c_fresh := c_fresh cfg + 1\<rparr>
                in case find_addr s_addr a (c_sections cfg) of
                     None \<Rightarrow> None
                   | Some s \<Rightarrow>
                       map_option (\<lambda>s. (0, put_section s cfg, cat, if withcomments then comment_reset cm else cm))
                         (spd_variable_append s [v]))))"

definition process_text_line ::
  "spd_config \<Rightarrow> addr option \<Rightarrow> string \<Rightarrow> nat \<Rightarrow> bool \<Rightarrow> comments
     \<Rightarrow> (int \<times> spd_config \<times> addr option \<times> comments) option" where
  "process_text_line cfg cat buf lineno withcomments cm =
     (if buf \<noteq> [] \<and> hd buf = CHR ''['' then process_section_line cfg cat buf withcomments cm
      else if buf \<noteq> [] \<and> hd buf = CHR ''#''
      then (case process_directive buf of _ \<Rightarrow> Some (0, cfg, cat, cm))
      else process_variable_line cfg cat buf lineno withcomments cm)"

section \<open>Comments and the file\<close>

definition MAX_NEXT_COMMENT :: int where "MAX_NEXT_COMMENT = 128"

text \<open>
  The line buffer \<open>ls_b\<close> with its NUL, the pointers \<open>new_buf\<close> and \<open>process_buf\<close> as positions, the
  nesting depth and the comment buffers.
\<close>

record line_scan =
  ls_b :: "char list"
  ls_new :: nat
  ls_proc :: "nat option"
  ls_comment :: int
  ls_cm :: comments

definition text_at :: "char list \<Rightarrow> nat \<Rightarrow> string" where
  "text_at b p = cstr (drop p b)"

partial_function (option) scan_comments :: "bool \<Rightarrow> line_scan \<Rightarrow> line_scan option" where
  "scan_comments wc st =
     (case index_of CHR '';'' (text_at (ls_b st) (ls_new st)) of
        None \<Rightarrow> Some st
      | Some k \<Rightarrow>
          (let b = ls_b st; nb = ls_new st; cp = nb + k in
           if cp > nb \<and> b ! (cp - 1) = CHR 0x5C then scan_comments wc (st\<lparr>ls_new := cp + 1\<rparr>)
           else if b ! (cp + 1) = CHR ''-'' \<and> b ! (cp + 2) = CHR ''-'' \<and> b ! (cp + 3) \<noteq> CHR ''-'' then
             (if ls_comment st < MAX_NEXT_COMMENT
              then scan_comments wc (st\<lparr>ls_b := b[cp := NUL], ls_new := cp + 3, ls_comment := ls_comment st + 1\<rparr>)
              else scan_comments wc st)
           else if cp \<ge> nb + 2 \<and> b ! (cp - 1) = CHR ''-'' \<and> b ! (cp - 2) = CHR ''-'' then
             (let st = st\<lparr>ls_comment := ls_comment st - 1, ls_new := cp + 1\<rparr>
              in if ls_comment st = 0 then
                   (case ls_proc st of
                      Some pb \<Rightarrow>
                        (let oldptr = pb + length (text_at b pb);
                             cm = (if wc then (ls_cm st)\<lparr>cm_buf := cm_buf (ls_cm st) @ '';'' @
                                       take (cp - oldptr) (text_at b (oldptr + 1))\<rparr> else ls_cm st)
                         in scan_comments wc
                              (st\<lparr>ls_b := overwrite b oldptr (text_at b (cp + 1) @ [NUL]), ls_new := oldptr, ls_cm := cm\<rparr>))
                    | None \<Rightarrow> scan_comments wc (st\<lparr>ls_proc := Some (cp + 1)\<rparr>))
                 else scan_comments wc st)
           else if ls_comment st = 0 then
             scan_comments wc (st\<lparr>ls_b := b[cp := NUL], ls_new := cp,
               ls_cm := (if wc then (ls_cm st)\<lparr>cm_line := cm_line (ls_cm st) @ text_at b cp\<rparr> else ls_cm st)\<rparr>)
           else scan_comments wc (st\<lparr>ls_new := cp + 1\<rparr>)))"

text \<open>
  The warning about an unterminated comment reads the line at \<open>comment - 1\<close>: for a negative depth
  it reads in front of the array.
\<close>

definition load_end :: "bool \<Rightarrow> int \<Rightarrow> spd_config \<Rightarrow> (bool \<times> spd_config) option" where
  "load_end ok comment cfg = (if comment < 0 then None else Some (ok, cfg))"

text \<open>
  The loop over the lines that \<open>fgets\<close> returns, with the depth and the pointer \<open>cat\<close> between them.
  The result is whether \<open>cfg\<close> is still set, with the configuration as built so far.
\<close>

fun load_lines ::
  "bool \<Rightarrow> string list \<Rightarrow> nat \<Rightarrow> int \<Rightarrow> addr option \<Rightarrow> comments \<Rightarrow> spd_config \<Rightarrow> (bool \<times> spd_config) option" where
  "load_lines wc [] lineno comment cat cm cfg = load_end True comment cfg"
| "load_lines wc (l # lines) lineno comment cat cm cfg =
     (let lineno = lineno + 1;
          cm = (if wc then cm\<lparr>cm_buf := cm_buf cm @ cm_line cm, cm_line := []\<rparr> else cm)
      in Option.bind
           (scan_comments wc \<lparr>ls_b = l @ [NUL], ls_new = 0, ls_proc = (if comment \<noteq> 0 then None else Some 0),
              ls_comment = comment, ls_cm = cm\<rparr>)
           (\<lambda>st.
              let cm = (if wc \<and> ls_comment st \<noteq> 0 \<and> ls_proc st = None
                        then (ls_cm st)\<lparr>cm_buf := cm_buf (ls_cm st) @ text_at (ls_b st) 0\<rparr> else ls_cm st)
              in case ls_proc st of
                   None \<Rightarrow> load_lines wc lines lineno (ls_comment st) cat cm cfg
                 | Some pb \<Rightarrow>
                     (let t = strip_text (text_at (ls_b st) pb)
                      in if t = [] then load_lines wc lines lineno (ls_comment st) cat cm cfg
                         else (case process_text_line cfg cat t lineno wc cm of
                                 None \<Rightarrow> None
                               | Some (res, cfg, cat, cm) \<Rightarrow>
                                   if res \<noteq> 0 then load_end False (ls_comment st) cfg
                                   else load_lines wc lines lineno (ls_comment st) cat cm cfg))))"

text \<open>
  \<open>comment_init\<close> stores the new line buffer in its parameter and tests a byte it has not
  initialised; the caller's pointer stays \<open>NULL\<close>.
\<close>

definition comment_init :: "comments option \<Rightarrow> comments option" where
  "comment_init cm = (case cm of None \<Rightarrow> None | Some c \<Rightarrow> Some (comment_reset c))"

text \<open>What \<open>fgets\<close> with a buffer of 8192 bytes makes of a text.\<close>

definition LF :: char where "LF = CHR 0x0A"

definition fgets_line :: "string \<Rightarrow> string" where
  "fgets_line s = take 8191 (takeWhile (\<lambda>c. c \<noteq> LF) s @ (if LF \<in> set s then [LF] else []))"

function fgets_lines :: "string \<Rightarrow> string list" where
  "fgets_lines s = (if s = [] then [] else fgets_line s # fgets_lines (drop (length (fgets_line s)) s))"
  by pat_completeness auto
termination
proof (relation "measure length", goal_cases)
  case (2 s)
  then have "fgets_line s \<noteq> []" by (cases s) (auto simp: fgets_line_def)
  with 2 show ?case by (cases s) auto
qed simp

declare fgets_lines.simps [simp del]

text \<open>
  A name that does not start with a slash is taken below \<open>/etc/spider\<close>; the buffer has 256 bytes. \<open>fs\<close>
  says what \<open>stat\<close> and \<open>fopen\<close> find under a name.
\<close>

definition config_file_name :: "string \<Rightarrow> string" where
  "config_file_name filename =
     (if filename \<noteq> [] \<and> hd filename = CHR ''/'' then take 255 filename
      else snprintf_out 256 (''/etc/spider/'' @ filename))"

datatype file_state = No_File | Not_Regular | Not_Opened | Text_File string

definition config_text_file_load ::
  "(string \<Rightarrow> file_state) \<Rightarrow> string \<Rightarrow> spd_config \<Rightarrow> bool \<Rightarrow> (bool \<times> spd_config) option" where
  "config_text_file_load fs filename cfg wc =
     (case (if wc then comment_init None else Some \<lparr>cm_buf = [], cm_line = []\<rparr>) of
        None \<Rightarrow> None
      | Some cm \<Rightarrow>
          (case fs (config_file_name filename) of
             Text_File txt \<Rightarrow> load_lines wc (fgets_lines txt) 0 0 (c_current cfg) cm cfg
           | _ \<Rightarrow> Some (False, cfg)))"

section \<open>Saving\<close>

definition not_generated :: "string \<Rightarrow> bool" where
  "not_generated c \<longleftrightarrow> \<not> (take 2 c = '';!'')"

fun join_comma :: "string list \<Rightarrow> string" where
  "join_comma [] = []"
| "join_comma [x] = x"
| "join_comma (x # xs) = x @ '','' @ join_comma xs"

definition nl :: string where "nl = [CHR 0x0A]"

definition save_section_header :: "spd_section \<Rightarrow> string" where
  "save_section_header cat =
     concat (filter not_generated (s_prev cat)) @ (if s_prev cat = [] then nl else []) @
     ''['' @ s_name cat @ '']'' @
     (if s_ignored cat \<or> s_templates cat \<noteq> [] then
        ''('' @ (if s_ignored cat then ''!'' else []) @ (if s_ignored cat \<and> s_templates cat \<noteq> [] then '','' else []) @
        join_comma (map fst (s_templates cat)) @ '')''
      else []) @
     concat (s_sameline cat) @ (if s_sameline cat = [] then nl else [])"

definition inherited_var :: "spd_config \<Rightarrow> spd_section \<Rightarrow> spd_variable \<Rightarrow> bool" where
  "inherited_var cfg cat var \<longleftrightarrow>
     (\<exists>x \<in> set (s_templates cat).
        case find_addr s_addr (snd x) (c_sections cfg) of
          None \<Rightarrow> False
        | Some inst \<Rightarrow>
            (case find (\<lambda>v2. strcasecmp (v_name var) (v_name v2) = 0) (s_vars inst) of
               None \<Rightarrow> False
             | Some v2 \<Rightarrow> strcmp (v_value v2) (v_value var) = 0))"

definition save_variable :: "spd_variable \<Rightarrow> string" where
  "save_variable var =
     concat (filter not_generated (v_prev var)) @
     (v_name var @ '' '' @ (if v_object var then ''=>'' else ''='') @ '' '' @ v_value var @
      (if v_sameline var \<noteq> [] then ''  '' @ hd (v_sameline var) else nl)) @
     concat (replicate (v_blanklines var) nl)"

definition save_section :: "spd_config \<Rightarrow> spd_section \<Rightarrow> string" where
  "save_section cfg cat =
     save_section_header cat @ concat (map save_variable (filter (\<lambda>v. \<not> inherited_var cfg cat v) (s_vars cat)))"

definition save_preamble :: "string \<Rightarrow> string \<Rightarrow> string \<Rightarrow> string \<Rightarrow> string" where
  "save_preamble configfile fn generator date =
     '';!'' @ nl @ '';! Automatically generated configuration file'' @ nl @
     (if configfile \<noteq> fn then '';! Filename: '' @ configfile @ '' ('' @ fn @ '')'' @ nl
      else '';! Filename: '' @ configfile @ nl) @
     '';! Generator: '' @ generator @ nl @ '';! Creation Date: '' @ date @ '';!'' @ nl"

text \<open>The text of the file; \<open>date\<close> is the line that \<open>ctime\<close> makes, with its newline.\<close>

definition config_file_text :: "string \<Rightarrow> string \<Rightarrow> spd_config \<Rightarrow> string \<Rightarrow> string \<Rightarrow> string" where
  "config_file_text configfile fn cfg generator date =
     save_preamble configfile fn generator date @ concat (map (save_section cfg) (c_sections cfg))"

text \<open>
  Replacing the file: the text goes to a temporary file, the old file is removed when it can be
  looked at, and the temporary file is linked to its name. \<open>opened\<close>, \<open>unlink_ok\<close> and \<open>link_ok\<close> are
  the outcomes of the system calls. When the link fails after the removal, the file is gone.
\<close>

definition config_text_file_save ::
  "(string \<Rightarrow> string option) \<Rightarrow> bool \<Rightarrow> bool \<Rightarrow> bool \<Rightarrow> string \<Rightarrow> spd_config \<Rightarrow> string \<Rightarrow> string
     \<Rightarrow> int \<times> (string \<Rightarrow> string option)" where
  "config_text_file_save fs opened unlink_ok link_ok configfile cfg generator date =
     (let fn = config_file_name configfile;
          txt = config_file_text configfile fn cfg generator (take 255 date)
      in if \<not> opened then (- 1, fs)
         else if fs fn \<noteq> None \<and> \<not> unlink_ok then (- 1, fs)
         else if \<not> link_ok then (- 1, fs(fn := None))
         else (0, fs(fn := Some txt)))"

section \<open>Engines and mappings\<close>

record config_map =
  m_name :: string
  m_driver :: string
  m_database :: string
  m_table :: "string option"

record config_engine =
  e_addr :: addr
  e_name :: string
  e_has_load :: bool

definition append_mapping :: "string \<Rightarrow> string \<Rightarrow> string \<Rightarrow> string option \<Rightarrow> config_map list \<Rightarrow> int \<times> config_map list" where
  "append_mapping name driver database table maps =
     (0, \<lparr>m_name = name, m_driver = driver, m_database = database, m_table = table\<rparr> # maps)"

definition clear_config_maps :: "config_map list \<Rightarrow> config_map list" where
  "clear_config_maps maps = []"

text \<open>Registering an engine twice closes the chain to a ring; every later walk is endless.\<close>

definition spd_config_engine_register :: "config_engine \<Rightarrow> config_engine list \<Rightarrow> config_engine list option" where
  "spd_config_engine_register engine engs =
     (if e_addr engine \<in> e_addr ` set engs then None else Some (engs @ [engine]))"

fun spd_config_engine_deregister :: "addr \<Rightarrow> config_engine list \<Rightarrow> config_engine list" where
  "spd_config_engine_deregister del [] = []"
| "spd_config_engine_deregister del (ptr # engs) =
     (if e_addr ptr = del then engs else ptr # spd_config_engine_deregister del engs)"

text \<open>The engine with the database and table names that are copied to the caller.\<close>

definition find_engine ::
  "config_map list \<Rightarrow> config_engine list \<Rightarrow> string \<Rightarrow> config_engine option \<times> (string \<times> string) option" where
  "find_engine maps engs family =
     (case find (\<lambda>m. strcasecmp family (m_name m) = 0) maps of
        None \<Rightarrow> (None, None)
      | Some m \<Rightarrow>
          (find (\<lambda>eng. strcasecmp (e_name eng) (m_driver m) = 0) engs,
           Some (take 255 (m_database m), take 255 (case m_table m of None \<Rightarrow> family | Some t \<Rightarrow> t))))"

text \<open>\<open>load\<close> gives the load function of an engine, \<open>None\<close> standing for the text file engine.\<close>

definition spd_config_internal_load ::
  "config_map list \<Rightarrow> config_engine list \<Rightarrow>
   (config_engine option \<Rightarrow> string \<Rightarrow> spd_config \<Rightarrow> bool \<Rightarrow> (bool \<times> spd_config) option) \<Rightarrow>
   string \<Rightarrow> spd_config \<Rightarrow> bool \<Rightarrow> (bool \<times> spd_config) option" where
  "spd_config_internal_load maps engs load filename cfg wc =
     (let cfg = cfg\<lparr>c_include_level := c_include_level cfg + 1\<rparr>;
          usable = (\<lambda>e. case e of None \<Rightarrow> False | Some g \<Rightarrow> e_has_load g);
          loader =
            (if engs = [] then None
             else (let e1 = fst (find_engine maps engs filename)
                   in if usable e1 then e1
                      else (let e2 = fst (find_engine maps engs ''global'') in if usable e2 then e2 else None)))
      in map_option (\<lambda>(ok, cfg). (ok, cfg\<lparr>c_include_level := c_include_level cfg - 1\<rparr>)) (load loader filename cfg wc))"

definition spd_config_load ::
  "config_map list \<Rightarrow> config_engine list \<Rightarrow>
   (config_engine option \<Rightarrow> string \<Rightarrow> spd_config \<Rightarrow> bool \<Rightarrow> (bool \<times> spd_config) option) \<Rightarrow>
   string \<Rightarrow> spd_config option option" where
  "spd_config_load maps engs load filename =
     map_option (\<lambda>(ok, cfg). if ok then Some cfg else None)
       (spd_config_internal_load maps engs load filename spd_config_new False)"

definition spd_config_load_with_comments ::
  "config_map list \<Rightarrow> config_engine list \<Rightarrow>
   (config_engine option \<Rightarrow> string \<Rightarrow> spd_config \<Rightarrow> bool \<Rightarrow> (bool \<times> spd_config) option) \<Rightarrow>
   string \<Rightarrow> spd_config option option" where
  "spd_config_load_with_comments maps engs load filename =
     map_option (\<lambda>(ok, cfg). if ok then Some cfg else None)
       (spd_config_internal_load maps engs load filename spd_config_new True)"

section \<open>The chain of variables and its last pointer\<close>

definition sec_ok :: "spd_section \<Rightarrow> bool" where
  "sec_ok cat \<longleftrightarrow> distinct (map v_addr (s_vars cat)) \<and>
     s_last cat = (if s_vars cat = [] then None else Some (v_addr (last (s_vars cat))))"

lemma link_behind_last:
  "distinct (map ad xs) \<Longrightarrow> xs \<noteq> [] \<Longrightarrow> link_behind ad (ad (last xs)) xs ys = Some (xs @ ys)"
  by (induction xs) auto

lemma link_behind_middle:
  "distinct (map ad (us @ x # vs)) \<Longrightarrow> link_behind ad (ad x) (us @ x # vs) ys = Some (us @ x # ys)"
  by (induction us) auto

lemma variable_append_ok:
  assumes "sec_ok cat" "distinct (map v_addr (s_vars cat @ vs))"
  shows "\<exists>cat'. spd_variable_append cat vs = Some cat' \<and> sec_ok cat' \<and> s_vars cat' = s_vars cat @ vs \<and>
    s_addr cat' = s_addr cat \<and> s_name cat' = s_name cat"
  using assms link_behind_last [of v_addr "s_vars cat" vs]
  by (auto simp: spd_variable_append_def sec_ok_def)

lemma delete_by_name_result:
  assumes "distinct (map v_addr (kept @ rest))"
    and "s_last cat = (if kept @ rest = [] then None else Some (v_addr (last (kept @ rest))))"
  shows "delete_by_name variable mtch cat kept rest res =
     ((if \<exists>v \<in> set rest. var_matches variable mtch v then 0 else res),
      cat\<lparr>s_vars := kept @ filter (\<lambda>v. \<not> var_matches variable mtch v) rest,
          s_last := (let vs = kept @ filter (\<lambda>v. \<not> var_matches variable mtch v) rest
                     in if vs = [] then None else Some (v_addr (last vs)))\<rparr>)"
  using assms
proof (induction rest arbitrary: cat kept res)
  case Nil
  then show ?case by (cases cat) (auto simp: Let_def)
next
  case (Cons cur rest)
  show ?case
  proof (cases "var_matches variable mtch cur")
    case True
    let ?cat = "fix_last_after_unlink cat (v_addr cur) (if kept = [] then None else Some (last kept))"
    have l: "s_last ?cat = (if kept @ rest = [] then None else Some (v_addr (last (kept @ rest))))"
    proof (cases "rest = []")
      case False
      then have "v_addr (last rest) \<in> v_addr ` set rest" by simp
      then have "v_addr (last rest) \<noteq> v_addr cur" using Cons.prems(1) by auto
      with False Cons.prems(2) show ?thesis by (simp add: fix_last_after_unlink_def)
    qed (use Cons.prems in \<open>auto simp: fix_last_after_unlink_def\<close>)
    have d: "distinct (map v_addr (kept @ rest))" using Cons.prems(1) by auto
    have u: "?cat\<lparr>s_vars := x, s_last := y\<rparr> = cat\<lparr>s_vars := x, s_last := y\<rparr>" for x y
      by (simp add: fix_last_after_unlink_def)
    from Cons.IH [OF d l, of 0] True show ?thesis by (simp add: u)
  next
    case False
    with Cons.IH [of "kept @ [cur]" cat res] Cons.prems show ?thesis by auto
  qed
qed

lemma update_loop_new:
  "\<forall>v \<in> set rest. \<not> var_matches variable mtch v \<Longrightarrow>
   update_loop variable mtch newer cat kept rest = cat\<lparr>s_vars := kept @ rest @ [newer]\<rparr>"
  by (induction rest arbitrary: kept) auto

section \<open>Browsing\<close>

text \<open>The documented use: \<open>NULL\<close> first, then the pointer that the call before returned.\<close>

fun browse_all :: "nat \<Rightarrow> spd_config \<Rightarrow> cstrp option \<Rightarrow> string list option" where
  "browse_all 0 cfg prev = None"
| "browse_all (Suc k) cfg prev =
     (case spd_section_browse cfg prev of
        None \<Rightarrow> None
      | Some (None, cfg) \<Rightarrow> Some []
      | Some (Some p, cfg) \<Rightarrow> map_option ((#) (cp_text p)) (browse_all k cfg (Some p)))"

lemma section_tail_split:
  "P x \<Longrightarrow> \<forall>y \<in> set us. \<not> P y \<Longrightarrow> section_tail P (us @ x # vs) = vs"
  by (induction us) auto

lemma find_split: "find P xs = Some x \<Longrightarrow> \<exists>us vs. xs = us @ x # vs \<and> P x \<and> (\<forall>y \<in> set us. \<not> P y)"
proof (induction xs)
  case (Cons a xs)
  show ?case
  proof (cases "P a")
    case True
    with Cons.prems show ?thesis by (intro exI [of _ "[]"] exI [of _ xs]) auto
  next
    case False
    with Cons obtain us vs where "xs = us @ x # vs \<and> P x \<and> (\<forall>y \<in> set us. \<not> P y)" by auto
    with False show ?thesis by (intro exI [of _ "a # us"] exI [of _ vs]) auto
  qed
qed simp

lemma browse_all_rest:
  assumes "distinct (map s_addr (c_sections cfg))" "c_sections cfg = us @ vs"
    and "us = [] \<and> prev = None \<or>
      (us \<noteq> [] \<and> c_last_browse cfg = Some (s_addr (last us)) \<and> prev \<noteq> None \<and> cp_owner (the prev) = c_last_browse cfg)"
    and "length vs < k"
  shows "browse_all k cfg prev = Some (map s_name (filter (\<lambda>s. \<not> s_ignored s) vs))"
  using assms
proof (induction k arbitrary: cfg prev us vs)
  case (Suc k)
  have rest: "browse_rest cfg prev = vs"
  proof (cases "us = []")
    case True
    with Suc.prems(2,3) show ?thesis by (simp add: browse_rest_def)
  next
    case False
    then obtain ws u where us: "us = ws @ [u]" by (metis rev_exhaust)
    have "section_tail (\<lambda>s. Some (s_addr s) = c_last_browse cfg) (ws @ u # vs) = vs"
    proof (rule section_tail_split)
      show "\<forall>y \<in> set ws. Some (s_addr y) \<noteq> c_last_browse cfg"
        using Suc.prems us by auto (metis image_eqI)
    qed (use Suc.prems us in auto)
    with False Suc.prems us show ?thesis by (auto simp: browse_rest_def)
  qed
  have live: "prev \<noteq> None \<Longrightarrow> find_addr s_addr (the (c_last_browse cfg)) (c_sections cfg) \<noteq> None"
    using Suc.prems(2,3) by (auto simp: find_None_iff) (metis Un_iff last_in_set)
  show ?case
  proof (cases "find (\<lambda>s. \<not> s_ignored s) vs")
    case None
    then have "filter (\<lambda>s. \<not> s_ignored s) vs = []" by (simp add: find_None_iff filter_empty_conv)
    with None rest live show ?thesis
      by (auto simp: spd_section_browse_def next_available_section_def simp del: find_addr.simps)
  next
    case (Some s)
    from find_split [OF this] obtain ws xs where
      s: "vs = ws @ s # xs" "\<not> s_ignored s" "\<forall>y \<in> set ws. s_ignored y" by auto
    let ?cfg = "cfg\<lparr>c_last_browse := Some (s_addr s)\<rparr>"
    have "browse_all k ?cfg (Some (CP (Some (s_addr s)) (s_name s))) = Some (map s_name (filter (\<lambda>s. \<not> s_ignored s) xs))"
      using Suc.prems(1,2,4) s(1) by (intro Suc.IH [where us = "us @ ws @ [s]"]) auto
    moreover have "filter (\<lambda>s. \<not> s_ignored s) ws = []" using s(3) by (simp add: filter_empty_conv)
    ultimately show ?thesis using Some rest live s
      by (auto simp: spd_section_browse_def next_available_section_def simp del: find_addr.simps)
  qed
qed simp

section \<open>Saving and loading\<close>

lemma fgets_lines_line:
  assumes "LF \<notin> set t" "length t < 8191"
  shows "fgets_lines (t @ LF # s) = (t @ [LF]) # fgets_lines s"
proof -
  have "takeWhile (\<lambda>c. c \<noteq> LF) (t @ LF # s) = t" using assms(1) by (induction t) auto
  then have "fgets_line (t @ LF # s) = t @ [LF]" using assms(2) by (simp add: fgets_line_def)
  then show ?thesis by (subst fgets_lines.simps) simp
qed

lemma strip_text_rtrim: "is_cstr s \<Longrightarrow> strip_text s = rtrim (dropWhile is_blank s)"
  using strip_cstr [of s "[]"] by (simp add: strip_text_def)

lemma is_blank_LF [simp]: "is_blank LF"
  by (simp add: LF_def byte_def)

lemma LF_not_NUL [simp]: "LF \<noteq> NUL" "NUL \<noteq> LF"
  by (simp_all add: LF_def)

lemma is_blank_SP [simp]: "is_blank CHR '' ''"
  by (simp add: byte_def)

definition stripped :: "string \<Rightarrow> bool" where
  "stripped s \<longleftrightarrow> is_cstr s \<and> (s = [] \<or> \<not> is_blank (hd s) \<and> \<not> is_blank (last s))"

lemma rtrim_blanks: "\<forall>c \<in> set r. is_blank c \<Longrightarrow> rtrim (s @ r) = rtrim s"
proof (induction r rule: rev_induct)
  case (snoc c r)
  then have "rtrim ((s @ r) @ [c]) = rtrim (s @ r)" by (subst rtrim_snoc) auto
  with snoc show ?case by simp
qed simp

lemma rtrim_nonblank: "s = [] \<or> \<not> is_blank (last s) \<Longrightarrow> rtrim s = s"
  by (cases s rule: rev_cases) (simp_all add: rtrim_snoc, simp add: rtrim_def)

lemma strip_text_blanks:
  assumes "stripped s" "\<forall>c \<in> set l \<union> set r. is_blank c" "is_cstr l" "is_cstr r"
  shows "strip_text (l @ s @ r) = s"
proof -
  have c: "is_cstr (l @ s @ r)" using assms by (simp add: stripped_def)
  show ?thesis
  proof (cases s)
    case Nil
    then have e: "dropWhile is_blank (l @ s @ r) = []" using assms(2) by auto
    show ?thesis unfolding strip_text_rtrim [OF c] e using Nil by (simp add: rtrim_def)
  next
    case (Cons a t)
    then have "\<not> is_blank a" using assms(1) by (simp add: stripped_def)
    then have "dropWhile is_blank (l @ s @ r) = s @ r" using assms(2) Cons by (simp add: dropWhile_append2)
    moreover have "rtrim s = s" using assms(1) by (intro rtrim_nonblank) (auto simp: stripped_def)
    ultimately show ?thesis using c assms(2) by (simp add: strip_text_rtrim rtrim_blanks)
  qed
qed

lemma strip_text_id: "stripped s \<Longrightarrow> strip_text s = s"
  using strip_text_blanks [of s "[]" "[]"] by simp

lemma text_at_0: "is_cstr l \<Longrightarrow> text_at (l @ [NUL]) 0 = l"
  by (simp add: text_at_def cstr_append_NUL)

text \<open>A line outside comments: without a semicolon, and starting with one.\<close>

lemma scan_plain:
  "CHR '';'' \<notin> set l \<Longrightarrow> is_cstr l \<Longrightarrow> ls_b st = l @ [NUL] \<Longrightarrow> ls_new st = 0 \<Longrightarrow> scan_comments wc st = Some st"
  by (subst scan_comments.simps) (simp add: text_at_0 index_of_None [THEN iffD2])

lemma load_plain_line:
  assumes "is_cstr l" "CHR '';'' \<notin> set l"
  shows "load_lines False (l # lines) n 0 cat cm cfg =
    (if strip_text l = [] then load_lines False lines (n + 1) 0 cat cm cfg
     else (case process_text_line cfg cat (strip_text l) (n + 1) False cm of
             None \<Rightarrow> None
           | Some (res, cfg, cat, cm) \<Rightarrow>
               if res \<noteq> 0 then Some (False, cfg) else load_lines False lines (n + 1) 0 cat cm cfg))"
  using scan_plain [OF assms(2,1)]
  by (auto simp: Let_def text_at_0 [OF assms(1)] load_end_def split: option.split)

lemma load_comment_line:
  assumes "c \<noteq> CHR ''-''"
  shows "load_lines False ((CHR '';'' # c # l) # lines) n 0 cat cm cfg = load_lines False lines (n + 1) 0 cat cm cfg"
proof -
  let ?b = "(CHR '';'' # c # l) @ [NUL]"
  let ?st = "\<lparr>ls_b = ?b, ls_new = 0, ls_proc = Some 0, ls_comment = 0, ls_cm = cm\<rparr>"
  let ?st' = "?st\<lparr>ls_b := ?b[0 := NUL]\<rparr>"
  have "index_of CHR '';'' (text_at ?b 0) = Some 0" by (simp add: text_at_def cstr_def)
  then have "scan_comments False ?st = scan_comments False ?st'"
    using assms by (subst scan_comments.simps) (simp add: Let_def)
  also have "\<dots> = Some ?st'"
    by (subst scan_comments.simps) (simp add: text_at_def cstr_def)
  finally have sc: "scan_comments False ?st = Some ?st'" .
  have "strip_text [] = []" by (simp add: strip_text_rtrim rtrim_def)
  then show ?thesis using sc by (simp add: Let_def text_at_def cstr_def)
qed

section \<open>What is built\<close>

definition abs_config :: "spd_config \<Rightarrow> (string \<times> (string \<times> string \<times> bool) list) list" where
  "abs_config cfg = map (\<lambda>s. (s_name s, map (\<lambda>v. (v_name v, v_value v, v_object v)) (s_vars s))) (c_sections cfg)"

definition cfg_ok :: "spd_config \<Rightarrow> bool" where
  "cfg_ok cfg \<longleftrightarrow> distinct (map s_addr (c_sections cfg)) \<and>
     c_last cfg = (if c_sections cfg = [] then None else Some (s_addr (last (c_sections cfg)))) \<and>
     (\<forall>s \<in> set (c_sections cfg). sec_ok s \<and> s_addr s < c_fresh cfg \<and> (\<forall>v \<in> set (s_vars s). v_addr v < c_fresh cfg))"

definition plain_char :: "char \<Rightarrow> bool" where
  "plain_char c \<longleftrightarrow> c \<noteq> NUL \<and> c \<noteq> LF \<and> c \<noteq> CHR '';''"

definition plain_name :: "string \<Rightarrow> bool" where
  "plain_name s \<longleftrightarrow> s \<noteq> [] \<and> stripped s \<and> (\<forall>c \<in> set s. plain_char c \<and> c \<noteq> CHR ''='') \<and>
     hd s \<noteq> CHR ''['' \<and> hd s \<noteq> CHR ''#''"

definition plain_value :: "string \<Rightarrow> bool" where
  "plain_value s \<longleftrightarrow> stripped s \<and> (\<forall>c \<in> set s. plain_char c)"

definition plain_section :: "string \<Rightarrow> bool" where
  "plain_section s \<longleftrightarrow> (\<forall>c \<in> set s. plain_char c \<and> c \<noteq> CHR '']'') \<and> length s \<le> 79"

lemma section_append_result:
  assumes "cfg_ok cfg"
  shows "spd_section_append cfg s = Some (cfg\<lparr>
     c_sections := c_sections cfg @ [s\<lparr>s_include_level := c_include_level cfg\<rparr>],
     c_last := Some (s_addr s), c_current := Some (s_addr s)\<rparr>)"
  using assms link_behind_last [of s_addr "c_sections cfg" "[s\<lparr>s_include_level := c_include_level cfg\<rparr>]"]
  by (auto simp: cfg_ok_def spd_section_append_def Let_def)

lemma process_section_header:
  assumes "plain_section name" "cfg_ok cfg"
  shows "\<exists>cfg'. process_text_line cfg cat (''['' @ name @ '']'') n False cm = Some (0, cfg', c_last cfg', cm) \<and>
    cfg_ok cfg' \<and> c_sections cfg' \<noteq> [] \<and> abs_config cfg' = abs_config cfg @ [(name, [])]"
proof -
  let ?s = "(spd_section_new (c_fresh cfg) name)\<lparr>s_include_level := c_include_level cfg\<rparr>"
  let ?c = "cfg\<lparr>c_fresh := c_fresh cfg + 1, c_sections := c_sections cfg @ [?s], c_last := Some (c_fresh cfg),
      c_current := Some (c_fresh cfg)\<rparr>"
  have nt: "index_of CHR '']'' (name @ '']'') = Some (length name)"
    using assms(1) by (intro index_of_split) (auto simp: plain_section_def)
  have "cfg_ok (cfg\<lparr>c_fresh := c_fresh cfg + 1\<rparr>)" using assms(2) by (auto simp: cfg_ok_def less_SucI)
  from section_append_result [OF this, of "spd_section_new (c_fresh cfg) name"] nt
  have "process_text_line cfg cat (''['' @ name @ '']'') n False cm = Some (0, ?c, Some (c_fresh cfg), cm)"
    by (simp add: process_text_line_def process_section_line_def Let_def new_comment_def spd_section_new_def)
  moreover have "cfg_ok ?c" using assms(2)
    by (auto simp: cfg_ok_def spd_section_new_def sec_ok_def less_SucI)
  moreover have "abs_config ?c = abs_config cfg @ [(name, [])]"
    using assms(1) by (simp add: abs_config_def spd_section_new_def plain_section_def)
  ultimately show ?thesis by auto
qed

lemma find_snoc: "find P us = None \<Longrightarrow> find P (us @ [x]) = (if P x then Some x else None)"
  by (induction us) (auto split: if_splits)

lemma put_section_last:
  assumes "distinct (map s_addr (ss @ [t]))" "c_sections cfg = ss @ [t]" "s_addr u = s_addr t"
  shows "c_sections (put_section u cfg) = ss @ [u]"
proof -
  have "map (\<lambda>x. if s_addr x = s_addr u then u else x) ss = map id ss"
    using assms by (intro map_cong) (auto simp: image_iff)
  then show ?thesis using assms by (simp add: put_section_def)
qed

lemma process_variable_text:
  assumes "plain_name name" "plain_value val" "cfg_ok cfg" "c_sections cfg \<noteq> []"
    and "line = name @ '' '' @ (if object then ''=>'' else ''='') @ '' '' @ val"
    and "abs_config cfg = ss @ [(sn, vs)]"
  shows "\<exists>cfg'. process_text_line cfg (c_last cfg) (strip_text (line @ [LF])) n False cm =
      Some (0, cfg', c_last cfg', cm) \<and>
    cfg_ok cfg' \<and> c_sections cfg' \<noteq> [] \<and> abs_config cfg' = ss @ [(sn, vs @ [(name, val, object)])]"
proof -
  let ?eq = "if object then ''=>'' else ''=''"
  define buf where "buf = name @ '' '' @ ?eq @ (if val = [] then [] else '' '' @ val)"
  have name: "name \<noteq> []" "stripped name" "CHR ''='' \<notin> set name" "is_cstr name"
    using assms(1) by (auto simp: plain_name_def stripped_def)
  have val: "stripped val" "is_cstr val" using assms(2) by (auto simp: plain_value_def stripped_def)
  have hb: "hd buf = hd name" "buf \<noteq> []" using name(1) by (simp_all add: buf_def)
  have "stripped buf"
    using name val by (cases "val = []") (auto simp: buf_def stripped_def byte_def)
  then have "strip_text ([] @ buf @ (if val = [] then '' '' else []) @ [LF]) = buf"
    by (intro strip_text_blanks) auto
  moreover have "line @ [LF] = [] @ buf @ (if val = [] then '' '' else []) @ [LF]"
    by (simp add: assms(5) buf_def)
  ultimately have strip: "strip_text (line @ [LF]) = buf" by simp
  have ix: "index_of CHR ''='' buf = Some (length name + 1)"
  proof -
    have "buf = (name @ '' '') @ CHR ''='' # (if object then ''>'' else []) @ (if val = [] then [] else '' '' @ val)"
      by (simp add: buf_def)
    moreover have "CHR ''='' \<notin> set (name @ '' '')" using name(3) by simp
    ultimately show ?thesis using index_of_split by fastforce
  qed
  have tk: "take (length name + 1) buf = [] @ name @ '' ''" by (simp add: buf_def)
  have dr: "drop (length name + 1 + 1) buf = (if object then ''>'' else []) @ (if val = [] then [] else '' '' @ val)"
    by (simp add: buf_def)
  have sn: "strip_text (take (length name + 1) buf) = name"
    unfolding tk using name by (intro strip_text_blanks) auto
  have sv: "strip_text (if val = [] then [] else '' '' @ val) = val"
    using strip_text_blanks [of val "'' ''" "[]"] strip_text_id [of "[]"] val by (auto simp: stripped_def)
  obtain us t where t: "c_sections cfg = us @ [t]" using assms(4) by (metis rev_exhaust)
  have last: "c_last cfg = Some (s_addr t)" and ok: "sec_ok t" and fr: "\<forall>v \<in> set (s_vars t). v_addr v < c_fresh cfg"
    and d: "distinct (map s_addr (us @ [t]))"
    using assms(3) t by (auto simp: cfg_ok_def)
  have ab: "ss = map (\<lambda>s. (s_name s, map (\<lambda>v. (v_name v, v_value v, v_object v)) (s_vars s))) us" "sn = s_name t"
    "vs = map (\<lambda>v. (v_name v, v_value v, v_object v)) (s_vars t)"
    using assms(6) t by (simp_all add: abs_config_def)
  let ?v = "(spd_variable_new (c_fresh cfg) name val)\<lparr>v_lineno := n, v_object := object, v_prev := [], v_sameline := []\<rparr>"
  let ?cfg = "cfg\<lparr>c_fresh := Suc (c_fresh cfg)\<rparr>"
  have "distinct (map v_addr (s_vars t @ [?v]))"
    using ok fr by (auto simp: sec_ok_def spd_variable_new_def)
  from variable_append_ok [OF ok this] obtain u where
    u: "spd_variable_append t [?v] = Some u" "sec_ok u" "s_vars u = s_vars t @ [?v]" "s_addr u = s_addr t" "s_name u = s_name t"
    by blast
  have fa: "find_addr s_addr (s_addr t) (c_sections ?cfg) = Some t"
  proof -
    have "find (\<lambda>x. s_addr x = s_addr t) us = None" using d by (auto simp: find_None_iff image_iff)
    then show ?thesis using t by (simp add: find_snoc)
  qed
  have cs: "c_sections (put_section u ?cfg) = us @ [u]"
    using d t u(4) by (intro put_section_last) auto
  have rest: "c_last (put_section u ?cfg) = c_last cfg" "c_fresh (put_section u ?cfg) = Suc (c_fresh cfg)"
    by (simp_all add: put_section_def)
  have obj: "(case drop (length name + 1 + 1) buf of [] \<Rightarrow> False | x # _ \<Rightarrow> x = CHR ''>'') = object"
    unfolding dr by auto
  have tlv: "(if object then tl (drop (length name + 1 + 1) buf) else drop (length name + 1 + 1) buf) =
      (if val = [] then [] else '' '' @ val)"
    unfolding dr by simp
  have "process_text_line cfg (c_last cfg) buf n False cm = process_variable_line cfg (c_last cfg) buf n False cm"
    using hb assms(1) by (simp add: process_text_line_def plain_name_def)
  also have "\<dots> = Some (0, put_section u ?cfg, c_last cfg, cm)"
    unfolding process_variable_line_def Let_def last option.case ix obj tlv sn sv
    using u(1) fa by (simp add: new_comment_def)
  finally have "process_text_line cfg (c_last cfg) (strip_text (line @ [LF])) n False cm =
      Some (0, put_section u ?cfg, c_last (put_section u ?cfg), cm)" by (simp add: strip put_section_def)
  moreover have "cfg_ok (put_section u ?cfg)"
    using assms(3) t u cs rest fr by (auto simp: cfg_ok_def less_SucI spd_variable_new_def)
  moreover have "abs_config (put_section u ?cfg) = ss @ [(sn, vs @ [(name, val, object)])]"
    by (simp add: abs_config_def cs u ab) (simp add: spd_variable_new_def)
  ultimately show ?thesis using cs by auto
qed

text \<open>The configurations that the text format can carry.\<close>

definition saveable_var :: "spd_variable \<Rightarrow> bool" where
  "saveable_var v \<longleftrightarrow> plain_name (v_name v) \<and> plain_value (v_value v) \<and> v_prev v = [] \<and> v_sameline v = [] \<and>
     length (v_name v) + length (v_value v) < 8000"

definition saveable_section :: "spd_section \<Rightarrow> bool" where
  "saveable_section s \<longleftrightarrow> plain_section (s_name s) \<and> \<not> s_ignored s \<and> s_templates s = [] \<and> s_prev s = [] \<and>
     s_sameline s = [] \<and> (\<forall>v \<in> set (s_vars s). saveable_var v)"

lemma load_blank_lines:
  "load_lines False (fgets_lines (concat (replicate k [LF]) @ s)) n 0 cat cm cfg =
   load_lines False (fgets_lines s) (n + k) 0 cat cm cfg"
proof (induction k arbitrary: n)
  case (Suc k)
  have "fgets_lines ([] @ LF # (concat (replicate k [LF]) @ s)) = ([] @ [LF]) # fgets_lines (concat (replicate k [LF]) @ s)"
    by (intro fgets_lines_line) auto
  moreover have "strip_text [LF] = []"
    using strip_text_blanks [of "[]" "[]" "[LF]"] by (simp add: stripped_def LF_def byte_def)
  ultimately show ?case
    using Suc [of "n + 1"] load_plain_line [of "[LF]"] by (simp add: LF_def)
qed simp

lemma load_saved_vars:
  assumes "\<forall>v \<in> set vs. saveable_var v" "cfg_ok cfg" "c_sections cfg \<noteq> []" "abs_config cfg = ss @ [(sn, xs)]"
  shows "\<exists>cfg' n'. load_lines False (fgets_lines (concat (map save_variable vs) @ rest)) n 0 (c_last cfg) cm cfg =
      load_lines False (fgets_lines rest) n' 0 (c_last cfg') cm cfg' \<and>
    cfg_ok cfg' \<and> c_sections cfg' \<noteq> [] \<and>
    abs_config cfg' = ss @ [(sn, xs @ map (\<lambda>v. (v_name v, v_value v, v_object v)) vs)]"
  using assms
proof (induction vs arbitrary: cfg n xs)
  case Nil
  then show ?case by auto
next
  case (Cons v vs)
  define line where "line = v_name v @ '' '' @ (if v_object v then ''=>'' else ''='') @ '' '' @ v_value v"
  let ?rest = "concat (map save_variable vs) @ rest"
  have v: "plain_name (v_name v)" "plain_value (v_value v)" "v_prev v = []" "v_sameline v = []"
    "length (v_name v) + length (v_value v) < 8000"
    using Cons.prems(1) by (auto simp: saveable_var_def)
  have tx: "concat (map save_variable (v # vs)) @ rest =
      line @ LF # (concat (replicate (v_blanklines v) [LF]) @ ?rest)"
    using v(3,4) by (simp add: save_variable_def nl_def LF_def line_def)
  have nm: "v_name v \<noteq> []" "\<not> is_blank (hd (v_name v))" "\<forall>c \<in> set (v_name v). plain_char c"
    "\<forall>c \<in> set (v_value v). plain_char c"
    using v(1,2) unfolding plain_name_def plain_value_def stripped_def by blast+
  have pc: "\<forall>c \<in> set line. plain_char c"
    using nm(3,4) by (auto simp: line_def plain_char_def LF_def)
  then have lf: "LF \<notin> set line" "CHR '';'' \<notin> set (line @ [LF])" "is_cstr (line @ [LF])"
    by (auto simp: plain_char_def is_cstr_def LF_def)
  have len: "length line < 8191" using v(5) by (simp add: line_def)
  obtain cfg' where cfg': "process_text_line cfg (c_last cfg) (strip_text (line @ [LF])) (n + 1) False cm =
      Some (0, cfg', c_last cfg', cm)" "cfg_ok cfg'" "c_sections cfg' \<noteq> []"
      "abs_config cfg' = ss @ [(sn, xs @ [(v_name v, v_value v, v_object v)])]"
    using process_variable_text [OF v(1,2) Cons.prems(2,3) line_def Cons.prems(4)] by blast
  have lh: "line \<noteq> []" "\<not> is_blank (hd line)" using nm(1,2) by (simp_all add: line_def)
  have ne: "strip_text (line @ [LF]) \<noteq> []"
  proof
    assume e: "strip_text (line @ [LF]) = []"
    then have "rtrim (dropWhile is_blank (line @ [LF])) = []" using lf(3) by (simp only: strip_text_rtrim)
    moreover have "dropWhile is_blank (line @ [LF]) = line @ [LF]" using lh by (cases line) auto
    ultimately have "\<forall>c \<in> set (line @ [LF]). is_blank c"
      unfolding rtrim_def by (metis dropWhile_eq_Nil_conv rev_is_Nil_conv set_rev)
    with lh show False by simp
  qed
  have "load_lines False (fgets_lines (concat (map save_variable (v # vs)) @ rest)) n 0 (c_last cfg) cm cfg =
      load_lines False (fgets_lines ?rest) (n + 1 + v_blanklines v) 0 (c_last cfg') cm cfg'"
    unfolding tx fgets_lines_line [OF lf(1) len] load_plain_line [OF lf(3,2)]
    using ne cfg'(1) load_blank_lines by simp
  with Cons.IH [OF _ cfg'(2-4)] Cons.prems(1) show ?case by fastforce
qed

definition abs_section :: "spd_section \<Rightarrow> string \<times> (string \<times> string \<times> bool) list" where
  "abs_section s = (s_name s, map (\<lambda>v. (v_name v, v_value v, v_object v)) (s_vars s))"

lemma abs_config_sections: "abs_config cfg = map abs_section (c_sections cfg)"
  by (simp add: abs_config_def abs_section_def)

lemma load_saved_section:
  assumes "saveable_section s" "cfg_ok cfg"
  shows "\<exists>cfg' n'. load_lines False (fgets_lines (save_section c0 s @ rest)) n 0 cat cm cfg =
      load_lines False (fgets_lines rest) n' 0 (c_last cfg') cm cfg' \<and>
    cfg_ok cfg' \<and> abs_config cfg' = abs_config cfg @ [abs_section s]"
proof -
  have s: "plain_section (s_name s)" "\<not> s_ignored s" "s_templates s = []" "s_prev s = []" "s_sameline s = []"
    "\<forall>v \<in> set (s_vars s). saveable_var v" using assms(1) by (auto simp: saveable_section_def)
  define h where "h = ''['' @ s_name s @ '']''"
  let ?vars = "concat (map save_variable (s_vars s)) @ rest"
  have tx: "save_section c0 s @ rest = concat (replicate 1 [LF]) @ h @ LF # ?vars"
    using s by (simp add: save_section_def save_section_header_def h_def inherited_var_def nl_def LF_def)
  have pc: "\<forall>c \<in> set (s_name s). plain_char c" using s(1) by (simp add: plain_section_def)
  then have lf: "LF \<notin> set h" "CHR '';'' \<notin> set (h @ [LF])" "is_cstr (h @ [LF])"
    by (auto simp: h_def plain_char_def is_cstr_def LF_def)
  have len: "length h < 8191" using s(1) by (simp add: h_def plain_section_def)
  have "stripped h" using lf(3) by (simp add: stripped_def h_def) (simp add: byte_def)
  then have st: "strip_text (h @ [LF]) = h" using strip_text_blanks [of h "[]" "[LF]"] by simp
  obtain cfg1 where c1: "process_text_line cfg cat h (n + 1 + 1) False cm = Some (0, cfg1, c_last cfg1, cm)"
    "cfg_ok cfg1" "c_sections cfg1 \<noteq> []" "abs_config cfg1 = abs_config cfg @ [(s_name s, [])]"
    using process_section_header [OF s(1) assms(2)] unfolding h_def by blast
  have hne: "h \<noteq> []" by (simp add: h_def)
  have "load_lines False (fgets_lines (save_section c0 s @ rest)) n 0 cat cm cfg =
      load_lines False (fgets_lines ?vars) (n + 1 + 1) 0 (c_last cfg1) cm cfg1"
    unfolding tx load_blank_lines fgets_lines_line [OF lf(1) len] load_plain_line [OF lf(3,2)] st
    using c1(1) hne by simp
  with load_saved_vars [OF s(6) c1(2-4)] show ?thesis by (fastforce simp: abs_section_def)
qed

lemma load_saved_sections:
  assumes "\<forall>s \<in> set ss. saveable_section s" "cfg_ok cfg"
  shows "\<exists>cfg'. load_lines False (fgets_lines (concat (map (save_section c0) ss))) n 0 cat cm cfg = Some (True, cfg') \<and>
    cfg_ok cfg' \<and> abs_config cfg' = abs_config cfg @ map abs_section ss"
  using assms
proof (induction ss arbitrary: cfg n cat)
  case Nil
  have "fgets_lines [] = []" by (subst fgets_lines.simps) simp
  with Nil show ?case by (simp add: load_end_def)
next
  case (Cons s ss)
  from load_saved_section [of s cfg c0 "concat (map (save_section c0) ss)" n cat cm] Cons.prems
  obtain cfg1 n1 where
    "load_lines False (fgets_lines (save_section c0 s @ concat (map (save_section c0) ss))) n 0 cat cm cfg =
      load_lines False (fgets_lines (concat (map (save_section c0) ss))) n1 0 (c_last cfg1) cm cfg1"
    "cfg_ok cfg1" "abs_config cfg1 = abs_config cfg @ [abs_section s]" by auto
  with Cons.IH [of cfg1 n1 "c_last cfg1"] Cons.prems show ?case by auto
qed

lemma load_generated_line:
  assumes "LF \<notin> set t" "length t < 8000"
  shows "load_lines False (fgets_lines ('';!'' @ t @ LF # rest)) n 0 cat cm cfg =
    load_lines False (fgets_lines rest) (n + 1) 0 cat cm cfg"
proof -
  have "fgets_lines (('';!'' @ t) @ LF # rest) = (('';!'' @ t) @ [LF]) # fgets_lines rest"
    using assms by (intro fgets_lines_line) (auto simp: LF_def)
  then show ?thesis using load_comment_line [of "CHR ''!''" "t @ [LF]"] by simp
qed

lemma load_preamble:
  assumes "LF \<notin> set configfile" "LF \<notin> set fn" "LF \<notin> set generator" "date = d @ [LF]" "LF \<notin> set d"
    and "length configfile + length fn + length generator + length d < 7000"
  shows "\<exists>n'. load_lines False (fgets_lines (save_preamble configfile fn generator date @ rest)) n 0 cat cm cfg =
    load_lines False (fgets_lines rest) n' 0 cat cm cfg"
proof -
  define l3 where "l3 = (if configfile \<noteq> fn then '' Filename: '' @ configfile @ '' ('' @ fn @ '')'' else '' Filename: '' @ configfile)"
  have l3: "LF \<notin> set l3" "length l3 < 8000" using assms by (auto simp: l3_def LF_def)
  have g: "LF \<notin> set ('' Generator: '' @ generator)" "length ('' Generator: '' @ generator) < 8000"
    using assms by (auto simp: LF_def)
  have c: "LF \<notin> set ('' Creation Date: '' @ d)" "length ('' Creation Date: '' @ d) < 8000"
    using assms by (auto simp: LF_def)
  have a: "LF \<notin> set '' Automatically generated configuration file''"
    "length '' Automatically generated configuration file'' < 8000" by (auto simp: LF_def)
  have e: "LF \<notin> set []" "length ([] :: string) < 8000" by auto
  have "save_preamble configfile fn generator date @ rest =
    '';!'' @ [] @ LF # ('';!'' @ '' Automatically generated configuration file'' @ LF # ('';!'' @ l3 @ LF #
      ('';!'' @ ('' Generator: '' @ generator) @ LF # ('';!'' @ ('' Creation Date: '' @ d) @ LF #
      ('';!'' @ [] @ LF # rest)))))"
    using assms(4) by (simp add: save_preamble_def l3_def nl_def LF_def)
  then show ?thesis
    by (simp only: load_generated_line [OF e] load_generated_line [OF a] load_generated_line [OF l3]
        load_generated_line [OF g] load_generated_line [OF c]) blast
qed

section \<open>Properties\<close>

lemma config_text_roundtrip:
  assumes "\<forall>s \<in> set (c_sections cfg). saveable_section s" "cfg_ok c0" "abs_config c0 = []"
    and "LF \<notin> set configfile" "LF \<notin> set fn" "LF \<notin> set generator" "date = d @ [LF]" "LF \<notin> set d"
    and "length configfile + length fn + length generator + length d < 7000"
  shows "\<exists>cfg'. load_lines False (fgets_lines (config_file_text configfile fn cfg generator date)) 0 0 cat cm c0 =
       Some (True, cfg') \<and> abs_config cfg' = abs_config cfg"
proof -
  obtain n' where
    "load_lines False (fgets_lines (config_file_text configfile fn cfg generator date)) 0 0 cat cm c0 =
     load_lines False (fgets_lines (concat (map (save_section cfg) (c_sections cfg)))) n' 0 cat cm c0"
    unfolding config_file_text_def using load_preamble [OF assms(4-9)] by blast
  then show ?thesis
    using load_saved_sections [OF assms(1,2), of cfg n' cat cm] assms(3)
    by (auto simp: abs_config_sections)
qed

lemma config_file_name_line:
  "LF \<notin> set f \<Longrightarrow> LF \<notin> set (config_file_name f) \<and> length (config_file_name f) \<le> 255"
  by (auto simp: config_file_name_def snprintf_out_def LF_def dest: in_set_takeD)

text \<open>Without mappings every file is read by the text file engine.\<close>

lemma spd_config_load_text:
  "spd_config_load [] engs (\<lambda>_. config_text_file_load fs) filename =
   map_option (\<lambda>(ok, cfg). if ok then Some (cfg\<lparr>c_include_level := c_include_level cfg - 1\<rparr>) else None)
     (config_text_file_load fs filename (spd_config_new\<lparr>c_include_level := 1\<rparr>) False)"
  by (cases "config_text_file_load fs filename (spd_config_new\<lparr>c_include_level := 1\<rparr>) False")
    (auto simp: spd_config_load_def spd_config_internal_load_def spd_config_new_def find_engine_def Let_def)

definition saved_files :: "(string \<Rightarrow> string option) \<Rightarrow> string \<Rightarrow> file_state" where
  "saved_files fs f = (case fs f of None \<Rightarrow> No_File | Some txt \<Rightarrow> Text_File txt)"

text \<open>
  C1: saving a configuration under a name and loading that name again gives the same sections
  with the same variables, values and kinds of assignment in the same order, and changes no other
  file. It holds for configurations without comments, templates and ignored sections whose names and
  values the format can carry: stripped, on one line, without semicolon, a variable's name not empty,
  without \<open>=\<close> and not starting a section or directive, a section's name of at most 79 bytes
  without a closing bracket; with any number of blank lines behind a variable and whatever the
  file, the generator and the date are called.
\<close>

theorem config_save_load:
  assumes "\<forall>s \<in> set (c_sections cfg). saveable_section s"
    and "LF \<notin> set configfile" "LF \<notin> set generator" "date = d @ [LF]" "LF \<notin> set d"
    and "length configfile + length generator < 6000" "length d < 255"
  shows "\<exists>fs' cfg'. config_text_file_save fs True True True configfile cfg generator date = (0, fs') \<and>
     (\<forall>f. f \<noteq> config_file_name configfile \<longrightarrow> fs' f = fs f) \<and>
     spd_config_load [] engs (\<lambda>_. config_text_file_load (saved_files fs')) configfile = Some (Some cfg') \<and>
     abs_config cfg' = abs_config cfg"
proof -
  let ?fn = "config_file_name configfile" and ?c0 = "spd_config_new\<lparr>c_include_level := 1\<rparr>"
  let ?fs = "fs(?fn := Some (config_file_text configfile ?fn cfg generator date))"
  have c0: "cfg_ok ?c0" "abs_config ?c0 = []" by (simp_all add: cfg_ok_def spd_config_new_def abs_config_def)
  have fn: "LF \<notin> set ?fn" "length configfile + length ?fn + length generator + length d < 7000"
    using config_file_name_line [OF assms(2)] assms(6,7) by simp_all
  obtain cfg' where l: "load_lines False (fgets_lines (config_file_text configfile ?fn cfg generator date)) 0 0
      (c_current ?c0) \<lparr>cm_buf = [], cm_line = []\<rparr> ?c0 = Some (True, cfg')" "abs_config cfg' = abs_config cfg"
    using config_text_roundtrip [OF assms(1) c0 assms(2) fn(1) assms(3-5) fn(2)] by blast
  have "config_text_file_save fs True True True configfile cfg generator date = (0, ?fs)"
    using assms(4,7) by (simp add: config_text_file_save_def Let_def)
  moreover have "spd_config_load [] engs (\<lambda>_. config_text_file_load (saved_files ?fs)) configfile =
      Some (Some (cfg'\<lparr>c_include_level := c_include_level cfg' - 1\<rparr>))"
    using l(1) by (simp add: spd_config_load_text config_text_file_load_def saved_files_def)
  moreover have "abs_config (cfg'\<lparr>c_include_level := c_include_level cfg' - 1\<rparr>) = abs_config cfg"
    using l(2) by (simp add: abs_config_def)
  ultimately show ?thesis by fastforce
qed

definition demo_config :: spd_config where
  "demo_config = spd_config_new\<lparr>c_sections :=
     [(spd_section_new 1 ''general'')\<lparr>s_vars :=
        [(spd_variable_new 2 ''port'' ''5060'')\<lparr>v_blanklines := 2\<rparr>,
         (spd_variable_new 3 ''bind addr'' [])\<lparr>v_object := True\<rparr>], s_last := Some 3\<rparr>,
      spd_section_new 4 ''logger'']\<rparr>"

theorem config_save_load_witness:
  "\<exists>fs' cfg'. config_text_file_save (\<lambda>_. None) True True True ''a.conf'' demo_config ''spider'' (''today'' @ [LF]) = (0, fs') \<and>
     spd_config_load [] [] (\<lambda>_. config_text_file_load (saved_files fs')) ''a.conf'' = Some (Some cfg') \<and>
     abs_config cfg' = [(''general'', [(''port'', ''5060'', False), (''bind addr'', [], True)]), (''logger'', [])]"
proof -
  have "\<forall>s \<in> set (c_sections demo_config). saveable_section s"
    by (simp add: demo_config_def saveable_section_def spd_section_new_def plain_section_def plain_char_def LF_def
        saveable_var_def spd_variable_new_def plain_name_def plain_value_def stripped_def byte_def)
  moreover have "abs_config demo_config =
      [(''general'', [(''port'', ''5060'', False), (''bind addr'', [], True)]), (''logger'', [])]"
    by (simp add: demo_config_def abs_config_def spd_section_new_def spd_variable_new_def)
  ultimately show ?thesis
    using config_save_load [of demo_config "''a.conf''" "''spider''" _ "''today''" "\<lambda>_. None" "[]"]
    by (fastforce simp: LF_def)
qed

text \<open>
  on a section whose \<open>last\<close> pointer is the end of its chain
  \<open>spd_variable_delete\<close> by name removes exactly the variables that match, returns 0 when there was
  one and -1 otherwise, and \<open>last\<close> is the end of the chain again; a chain appended after that is
  hung behind what is left.
\<close>

lemma variable_delete_correct:
  assumes "sec_ok cat" "spd_variable_delete cat (CP None variable) mtch = (res, cat')"
    and "distinct (map v_addr (s_vars cat @ vs))"
  shows "s_vars cat' = filter (\<lambda>v. \<not> var_matches variable mtch v) (s_vars cat) \<and> sec_ok cat' \<and>
     res = (if \<exists>v \<in> set (s_vars cat). var_matches variable mtch v then 0 else - 1) \<and>
     map_option s_vars (spd_variable_append cat' vs) = Some (s_vars cat' @ vs)"
proof -
  have c: "s_vars cat' = filter (\<lambda>v. \<not> var_matches variable mtch v) (s_vars cat)"
    "res = (if \<exists>v \<in> set (s_vars cat). var_matches variable mtch v then 0 else - 1)"
    "s_last cat' = (if s_vars cat' = [] then None else Some (v_addr (last (s_vars cat'))))"
    using delete_by_name_result [of "[]" "s_vars cat" cat variable mtch "- 1"] assms(1,2)
    by (auto simp: spd_variable_delete_def sec_ok_def Let_def)
  moreover have "sec_ok cat'"
    using assms(1) c by (simp add: sec_ok_def distinct_map_filter)
  moreover have "distinct (map v_addr (s_vars cat' @ vs))"
    using assms(3) c(1) by (auto simp: distinct_map_filter)
  ultimately show ?thesis using variable_append_ok [of cat' vs] by auto
qed

theorem variable_delete_correct_witness:
  "\<exists>res cat'. spd_variable_delete (hd (c_sections demo_config)) (CP None ''port'') None = (res, cat') \<and> res = 0 \<and>
     map v_name (s_vars cat') = [''bind addr''] \<and> sec_ok cat'"
proof -
  let ?cat = "hd (c_sections demo_config)"
  obtain res cat' where d: "spd_variable_delete ?cat (CP None ''port'') None = (res, cat')" by fastforce
  have ok: "sec_ok ?cat" by (simp add: demo_config_def sec_ok_def spd_section_new_def spd_variable_new_def)
  have "distinct (map v_addr (s_vars ?cat @ []))" using ok by (simp add: sec_ok_def)
  from variable_delete_correct [OF ok d this] d show ?thesis
    by (simp add: demo_config_def spd_section_new_def spd_variable_new_def var_matches_def c_tolower_def
        byte_def spd_strlen_zero_def)
qed

text \<open>
  when no variable matches, \<open>spd_variable_update\<close> adds the new one to
  the chain without moving \<open>last\<close>; the next variable that is appended cuts it off again.
\<close>

lemma update_then_append_loses:
  assumes "sec_ok cat" "\<forall>v \<in> set (s_vars cat). \<not> var_matches variable mtch v"
    and "distinct (map v_addr (s_vars cat) @ [a])"
  shows "\<exists>cat1 cat2. spd_variable_update a cat variable val mtch obj = (0, cat1) \<and>
     map v_addr (s_vars cat1) = map v_addr (s_vars cat) @ [a] \<and>
     spd_variable_append cat1 [w] = Some cat2 \<and> s_vars cat2 = s_vars cat @ [w]"
proof -
  let ?n = "(spd_variable_new a variable val)\<lparr>v_object := obj\<rparr>"
  have u: "spd_variable_update a cat variable val mtch obj = (0, cat\<lparr>s_vars := s_vars cat @ [?n]\<rparr>)"
    using update_loop_new [OF assms(2), of ?n cat "[]"] by (simp add: spd_variable_update_def)
  show ?thesis
  proof (cases "s_vars cat" rule: rev_cases)
    case Nil
    with assms(1) u show ?thesis by (simp add: sec_ok_def spd_variable_append_def spd_variable_new_def)
  next
    case (snoc us l)
    have "distinct (map v_addr (us @ l # [?n]))" using assms(3) snoc by (simp add: spd_variable_new_def)
    from link_behind_middle [OF this, of "[w]"] snoc assms(1) u show ?thesis
      by (simp add: sec_ok_def spd_variable_append_def) (simp add: spd_variable_new_def)
  qed
qed

theorem update_then_append_loses_witness:
  "\<exists>cat1 cat2. spd_variable_update 9 (hd (c_sections demo_config)) ''host'' ''h'' None False = (0, cat1) \<and>
     spd_variable_append cat1 [spd_variable_new 10 ''x'' ''y''] = Some cat2 \<and>
     map v_name (s_vars cat2) = [''port'', ''bind addr'', ''x'']"
proof -
  let ?cat = "hd (c_sections demo_config)"
  have ok: "sec_ok ?cat" by (simp add: demo_config_def sec_ok_def spd_section_new_def spd_variable_new_def)
  have nm: "\<forall>v \<in> set (s_vars ?cat). \<not> var_matches ''host'' None v"
    by (simp add: demo_config_def spd_section_new_def spd_variable_new_def var_matches_def c_tolower_def byte_def)
  have d: "distinct (map v_addr (s_vars ?cat) @ [9])"
    by (simp add: demo_config_def spd_section_new_def spd_variable_new_def)
  from update_then_append_loses [OF ok nm d, of "''h''" False "spd_variable_new 10 ''x'' ''y''"] show ?thesis
    by (auto simp: demo_config_def spd_section_new_def spd_variable_new_def)
qed

text \<open>
  browsing as documented, first with \<open>NULL\<close> and then with the pointer
  returned before, gives the names of all sections that are not ignored, each once and in the
  order of the file, also when names repeat; one call per name and a last one are enough.
\<close>

lemma section_browse_enumerates:
  assumes "distinct (map s_addr (c_sections cfg))" "length (c_sections cfg) < k"
  shows "browse_all k cfg None = Some (map s_name (filter (\<lambda>s. \<not> s_ignored s) (c_sections cfg)))"
  using browse_all_rest [of cfg "[]" "c_sections cfg" None k] assms by simp

theorem section_browse_enumerates_witness:
  "browse_all 3 demo_config None = Some [''general'', ''logger'']"
  using section_browse_enumerates [of demo_config 3]
  by (simp add: demo_config_def spd_section_new_def)

section \<open>Lookups in a section return the name\<close>

lemma variable_retrive_returns_name:
  assumes "c_last_browse cfg = None" "spd_section_get cfg s = Some cat"
    and "find (\<lambda>v. strcasecmp variable (v_name v) = 0) (s_vars cat) = Some v"
  shows "spd_variable_retrive cfg (Some s) variable = Some (Some (v_name v))"
  using assms by (simp add: spd_variable_retrive_def spd_variable_browse_def)

end
