(* ===== verification/Spd_Cli.thy ===== *)
theory Spd_Cli
  imports Spd_LinkedList Spd_Utils Spd_Str
begin

text \<open>
  The command line: \<open>src/cli.c\<close>. Arrays of words that end with \<open>NULL\<close> are lists; reading the
  terminator gives \<open>None\<close>. The list of entries is a HOL list in the sense of the refinement lemmas
  of the linked lists. \<open>cli_next\<close> has no return statement; the functions that use it take the
  list of entries it is meant to walk. The state also says whether the write lock is held.
\<close>

section \<open>Data\<close>

definition SPD_MAX_CMD_LEN :: nat where "SPD_MAX_CMD_LEN = 16"
definition SPD_MAX_ARGS :: nat where "SPD_MAX_ARGS = 64"
definition SPD_CLI_BUF_LEN :: nat where "SPD_CLI_BUF_LEN = 256"

definition cli_rsvd :: string where
  "cli_rsvd = ''[]{}|*%''"

record spd_cli_entry =
  ce_addr :: addr
  ce_cmda :: "string list"
  ce_command :: "string option"
  ce_full_cmd :: "string option"
  ce_cmdlen :: nat
  ce_args :: nat
  ce_inuse :: int

record cli_state =
  cs_entries :: "spd_cli_entry list"
  cs_wrlock :: bool

definition at :: "string list \<Rightarrow> nat \<Rightarrow> string option" where
  "at ws i = (if i < length ws then Some (ws ! i) else None)"

section \<open>Output\<close>

text \<open>
  \<open>spd_cli\<close> formats into the thread's dynamic string without a limit and writes it; \<open>out\<close> is the
  formatted text, \<open>rounds\<close> the outcome of the write.
\<close>

definition spd_cli ::
  "(addr \<Rightarrow> spd_str option) \<Rightarrow> bool \<Rightarrow> write_round list \<Rightarrow> string \<Rightarrow> string option" where
  "spd_cli store mem rounds out =
     (case spd_str_thread_get store mem 0 SPD_CLI_BUF_LEN of
        (None, _) \<Rightarrow> Some []
      | (Some buf, _) \<Rightarrow>
          (case u_spd_str_helper mem buf 0 False out of
             None \<Rightarrow> None
           | Some (res, buf) \<Rightarrow>
               if res = SPD_STR_BUILD_FAILED then Some []
               else map_option snd (spd_timeout_write rounds (take (spd_str_len buf) (spd_str_buffer buf)) 100)))"

section \<open>Words\<close>

fun cli_complete_loop :: "string option \<Rightarrow> nat \<Rightarrow> nat \<Rightarrow> string list \<Rightarrow> string option" where
  "cli_complete_loop word state which [] = None"
| "cli_complete_loop word state which (c # cs) =
     (let len = (if spd_strlen_zero word then 0 else length (the word))
      in if len = 0 \<or> strncasecmp (the word) c len = 0
         then (if which + 1 > state then Some c else cli_complete_loop word state (which + 1) cs)
         else cli_complete_loop word state which cs)"

definition spd_cli_complete :: "string option \<Rightarrow> string list \<Rightarrow> nat \<Rightarrow> string option" where
  "spd_cli_complete word choices state = cli_complete_loop word state 0 choices"

definition strcspn :: "string \<Rightarrow> string \<Rightarrow> nat" where
  "strcspn s rej = length (takeWhile (\<lambda>c. c \<notin> set rej) s)"

definition spd_cli_set_full_cmd :: "spd_cli_entry \<Rightarrow> spd_cli_entry option" where
  "spd_cli_set_full_cmd e =
     (case spd_str_join (replicate 80 NUL) 80 (ce_cmda e) of
        None \<Rightarrow> None
      | Some buf \<Rightarrow>
          (let full = cstr buf
           in Some (e\<lparr>ce_full_cmd := Some full, ce_cmdlen := strcspn full cli_rsvd, ce_args := length (ce_cmda e)\<rparr>)))"

definition strcasestr :: "string \<Rightarrow> string \<Rightarrow> nat option" where
  "strcasestr s sub = strstr (lower s) (lower sub)"

text \<open>The search for \<open>cmd\<close> between reserved characters, from position \<open>k\<close> of the pattern on.\<close>

function word_search :: "string \<Rightarrow> string \<Rightarrow> nat \<Rightarrow> int" where
  "word_search cli_word cmd k =
     (case strcasestr (drop k cli_word) cmd of
        None \<Rightarrow> - 1
      | Some m \<Rightarrow>
          (let pos = k + m
           in if pos \<noteq> 0 \<and> strchr cli_rsvd (cli_word ! (pos - 1)) \<noteq> None \<and>
                 strchr cli_rsvd ((cli_word @ [NUL]) ! (pos + length cmd)) \<noteq> None
              then 1
              else if pos < length cli_word then word_search cli_word cmd (pos + 1) else - 1))"
  by pat_completeness auto
termination
  by (relation "measure (\<lambda>(w, _, k). length w - k)") auto

declare word_search.simps [simp del]

definition word_match :: "string option \<Rightarrow> string option \<Rightarrow> int" where
  "word_match cmd cli_word =
     (if spd_strlen_zero cmd \<or> spd_strlen_zero cli_word then - 1
      else
        (let cmd = the cmd; cli_word = the cli_word
         in if strchr cli_rsvd (hd cli_word) = None then (if strcasecmp cmd cli_word = 0 then 1 else - 1)
            else if hd cli_word = CHR ''%'' then 1
            else word_search cli_word cmd 0))"

fun strsep_rsvd :: "nat \<Rightarrow> string \<Rightarrow> string list" where
  "strsep_rsvd 0 s = []"
| "strsep_rsvd (Suc fuel) s =
     (let t = takeWhile (\<lambda>c. c \<notin> set cli_rsvd) s; r = dropWhile (\<lambda>c. c \<notin> set cli_rsvd) s
      in t # (if r = [] then [] else strsep_rsvd fuel (tl r)))"

text \<open>The loop over the alternatives of a pattern; the tokens are those of \<open>strsep\<close>.\<close>

fun prefix_loop :: "string \<Rightarrow> string list \<Rightarrow> int \<Rightarrow> nat \<Rightarrow> string option \<times> nat" where
  "prefix_loop word [] pos actual = (None, actual)"
| "prefix_loop word (s # ss) pos actual =
     (if pos < 0 \<or> s = [] then (None, actual)
      else if hd s = CHR ''%'' then prefix_loop word ss pos actual
      else if strncasecmp s word (length word) \<noteq> 0 then prefix_loop word ss pos actual
      else if pos = 0 then (Some s, actual + 1)
      else prefix_loop word ss (pos - 1) (actual + 1))"

definition is_prefix :: "string option \<Rightarrow> string option \<Rightarrow> int \<Rightarrow> string option \<times> nat" where
  "is_prefix word token pos =
     (if spd_strlen_zero token then (None, 0)
      else
        (let word = (if spd_strlen_zero word then [] else the word); token = the token; lw = length word
         in if strcspn word cli_rsvd \<noteq> lw then (None, 0)
            else if strchr cli_rsvd (hd token) = None then
              (if strncasecmp token word lw \<noteq> 0 then (None, 0)
               else ((if pos \<noteq> 0 then None else Some token), 1))
            else prefix_loop word (strsep_rsvd (length token) (tl token)) pos 0))"

section \<open>Finding an entry\<close>

text \<open>
  Word by word: \<open>word_match\<close> returns 1 or -1, so source and pattern advance together. The result
  is the number of words that matched.
\<close>

fun match_words :: "string list \<Rightarrow> string list \<Rightarrow> nat" where
  "match_words (s # ss) (d # ds) = (if word_match (Some s) (Some d) < 0 then 0 else Suc (match_words ss ds))"
| "match_words _ _ = 0"

fun find_cli_loop ::
  "string list \<Rightarrow> int \<Rightarrow> int \<Rightarrow> spd_cli_entry option \<Rightarrow> spd_cli_entry list \<Rightarrow> spd_cli_entry option" where
  "find_cli_loop cmds match_type matchlen cand [] = cand"
| "find_cli_loop cmds match_type matchlen cand (e # es) =
     (let n = match_words cmds (ce_cmda e);
          src = at cmds n; dst = at (ce_cmda e) n;
          no_more = spd_strlen_zero dst \<or> (hd (the dst) = CHR ''['' \<and> spd_strlen_zero (at (ce_cmda e) (n + 1)));
          accept =
            (if no_more then match_type = 0
             else \<not> spd_strlen_zero src \<and> match_type = - 1 \<and> spd_strlen_zero (at cmds (n + 1)) \<and>
                  spd_strlen_zero (at (ce_cmda e) (n + 1)))
      in if no_more \<and> spd_strlen_zero src then Some e
         else if accept \<and> int n > matchlen then find_cli_loop cmds match_type (int n) (Some e) es
         else find_cli_loop cmds match_type matchlen cand es)"

definition find_cli :: "spd_cli_entry list \<Rightarrow> string list \<Rightarrow> int \<Rightarrow> spd_cli_entry option" where
  "find_cli entries cmds match_type = find_cli_loop cmds match_type (- 1) None entries"

text \<open>
  \<open>find_best\<close> stores the bytes of its string as pointers to words, so that any byte is followed as an
  address; its loop over an empty string leaves an empty line.
\<close>

definition find_best :: "string \<Rightarrow> string option" where
  "find_best argv = (if argv = [] then map_option cstr (spd_str_join (replicate 80 NUL) 80 []) else None)"

text \<open>\<open>cli_next\<close> as it is meant: the entry behind \<open>e\<close>, or the first one.\<close>

fun entry_behind :: "addr \<Rightarrow> spd_cli_entry list \<Rightarrow> spd_cli_entry option" where
  "entry_behind a (x # y # es) = (if ce_addr x = a then Some y else entry_behind a (y # es))"
| "entry_behind a _ = None"

definition cli_next :: "spd_cli_entry option \<Rightarrow> spd_cli_entry list \<Rightarrow> spd_cli_entry option" where
  "cli_next e entries =
     (case e of Some x \<Rightarrow> entry_behind (ce_addr x) entries
      | None \<Rightarrow> (case entries of [] \<Rightarrow> None | x # _ \<Rightarrow> Some x))"

lemma entry_behind_at:
  "distinct (map ce_addr es) \<Longrightarrow> i < length es \<Longrightarrow>
   entry_behind (ce_addr (es ! i)) es = (if Suc i < length es then Some (es ! Suc i) else None)"
proof (induction "ce_addr (es ! i)" es arbitrary: i rule: entry_behind.induct)
  case (1 x y es)
  then show ?case
  proof (cases i)
    case (Suc j)
    then have "(y # es) ! j \<in> set (y # es)" using 1(3) by (intro nth_mem) simp
    then have "ce_addr ((y # es) ! j) \<in> ce_addr ` set (y # es)" by (rule imageI)
    then have "ce_addr x \<noteq> ce_addr ((y # es) ! j)" using 1(2) by auto
    with 1 Suc show ?thesis by auto
  qed simp
qed (auto simp: less_Suc_eq_0_disj)

text \<open>The loop that starts with \<open>NULL\<close> sees the entries in their order and ends behind the last.\<close>

lemma cli_next_walks:
  assumes "distinct (map ce_addr es)" "i < length es"
  shows "cli_next None es = Some (es ! 0)"
    and "cli_next (Some (es ! i)) es = (if Suc i < length es then Some (es ! Suc i) else None)"
  using assms entry_behind_at [OF assms] by (cases es; simp add: cli_next_def)+

section \<open>Registration\<close>

text \<open>The words of a command; \<open>i\<close> counts those already stored.\<close>

fun command_words :: "nat \<Rightarrow> nat \<Rightarrow> string \<Rightarrow> string list" where
  "command_words 0 i s = []"
| "command_words (Suc fuel) i s =
     (if s = [] \<or> i \<ge> SPD_MAX_CMD_LEN - 1 then []
      else
        (let w = takeWhile (\<lambda>c. byte c > 32) s; r = dropWhile (\<lambda>c. byte c > 32) s
         in w # (if r = [] then [] else command_words fuel (i + 1) (spd_skip_blanks (tl r)))))"

fun cli_insert :: "spd_cli_entry \<Rightarrow> spd_cli_entry list \<Rightarrow> spd_cli_entry list" where
  "cli_insert e [] = [e]"
| "cli_insert e (cur # es) =
     (let len = (if ce_cmdlen e < ce_cmdlen cur then ce_cmdlen e else ce_cmdlen cur)
      in if strncasecmp (the (ce_full_cmd e)) (the (ce_full_cmd cur)) len < 0 then e # cur # es
         else cur # cli_insert e es)"

text \<open>
  \<open>command\<close> is what the handler stores on \<open>CLI_USAGE\<close>. A successful registration returns without
  releasing the lock.
\<close>

definition spd_cli_register :: "spd_cli_entry \<Rightarrow> string \<Rightarrow> cli_state \<Rightarrow> (int \<times> cli_state) option" where
  "spd_cli_register e command st =
     (let s = spd_skip_blanks command;
          e = e\<lparr>ce_command := Some s, ce_cmda := command_words (length s) 0 s\<rparr>;
          st = st\<lparr>cs_wrlock := True\<rparr>
      in if find_cli (cs_entries st) (ce_cmda e) 1 \<noteq> None then Some (- 1, st\<lparr>cs_wrlock := False\<rparr>)
         else map_option (\<lambda>e. (0, st\<lparr>cs_entries := cli_insert e (cs_entries st)\<rparr>)) (spd_cli_set_full_cmd e))"

text \<open>The return code is undefined when the entry is removed: the function has no return there.\<close>

definition spd_cli_unregister :: "spd_cli_entry \<Rightarrow> cli_state \<Rightarrow> int option \<times> cli_state" where
  "spd_cli_unregister e st =
     (if ce_inuse e \<noteq> 0 then (Some (- 1), st)
      else (None, st\<lparr>cs_entries := filter (\<lambda>c. ce_addr c \<noteq> ce_addr e) (cs_entries st), cs_wrlock := False\<rparr>))"

fun spd_cli_register_multiple :: "(spd_cli_entry \<times> string) list \<Rightarrow> cli_state \<Rightarrow> (bool \<times> cli_state) option" where
  "spd_cli_register_multiple [] st = Some (True, st)"
| "spd_cli_register_multiple ((e, cmd) # es) st =
     (case spd_cli_register e cmd st of
        None \<Rightarrow> None
      | Some (r, st) \<Rightarrow>
          map_option (\<lambda>(ok, st). (r = 0 \<and> ok, st)) (spd_cli_register_multiple es st))"

text \<open>The result is undefined as soon as one entry is removed.\<close>

fun spd_cli_unregister_multiple :: "spd_cli_entry list \<Rightarrow> cli_state \<Rightarrow> int option \<times> cli_state" where
  "spd_cli_unregister_multiple [] st = (Some 0, st)"
| "spd_cli_unregister_multiple (e # es) st =
     (case spd_cli_unregister e st of
        (r, st) \<Rightarrow>
          (case spd_cli_unregister_multiple es st of
             (res, st) \<Rightarrow> ((case (r, res) of (Some a, Some b) \<Rightarrow> Some (if a = 0 then b else - 1) | _ \<Rightarrow> None), st)))"

lemma unregister_multiple_removes:
  "cs_entries (snd (spd_cli_unregister_multiple es st)) =
     filter (\<lambda>c. \<forall>e \<in> set es. ce_inuse e = 0 \<longrightarrow> ce_addr c \<noteq> ce_addr e) (cs_entries st)"
  "fst (spd_cli_unregister_multiple es st) =
     (if \<exists>e \<in> set es. ce_inuse e = 0 then None else Some (if es = [] then 0 else - 1))"
  by (induction es arbitrary: st)
    (auto simp: spd_cli_unregister_def case_prod_beta conj_commute split: option.splits intro!: filter_cong)

section \<open>Arguments\<close>

record arg_state =
  as_argv :: "string list"
  as_whitespace :: bool
  as_quoted :: bool
  as_escaped :: bool

text \<open>\<open>argv\<close> holds the finished arguments and, outside white space, the one being copied as its last.\<close>

definition add_byte :: "char \<Rightarrow> arg_state \<Rightarrow> arg_state" where
  "add_byte c st = st\<lparr>as_argv := butlast (as_argv st) @ [last (as_argv st) @ [c]]\<rparr>"

definition arg_step :: "char \<Rightarrow> arg_state \<Rightarrow> arg_state" where
  "arg_step c st =
     (if c = CHR 0x22 \<and> \<not> as_escaped st then
        (let st = st\<lparr>as_quoted := \<not> as_quoted st\<rparr>
         in if as_quoted st \<and> as_whitespace st
            then st\<lparr>as_argv := as_argv st @ [[]], as_whitespace := False\<rparr> else st)
      else if (c = CHR '' '' \<or> c = CHR 0x09) \<and> \<not> (as_quoted st \<or> as_escaped st) then st\<lparr>as_whitespace := True\<rparr>
      else if c = CHR 0x5C \<and> \<not> as_escaped st then st\<lparr>as_escaped := True\<rparr>
      else
        (let st = (if as_whitespace st then st\<lparr>as_argv := as_argv st @ [[]], as_whitespace := False\<rparr> else st)
         in (add_byte c st)\<lparr>as_escaped := False\<rparr>))"

fun parse_loop :: "nat \<Rightarrow> string \<Rightarrow> arg_state \<Rightarrow> arg_state" where
  "parse_loop mx [] st = st"
| "parse_loop mx (c # s) st =
     (if length (as_argv st) + 1 \<ge> mx then st else parse_loop mx s (arg_step c st))"

definition parse_args :: "string \<Rightarrow> nat \<Rightarrow> string list \<times> bool" where
  "parse_args s mx =
     (let st = parse_loop mx s \<lparr>as_argv = [], as_whitespace = True, as_quoted = False, as_escaped = False\<rparr>
      in (as_argv st, as_whitespace st))"

section \<open>Completion\<close>

definition more_words :: "string list \<Rightarrow> bool" where
  "more_words dst \<longleftrightarrow> (\<exists>d \<in> set dst. take 1 d \<noteq> ''['')"

text \<open>
  \<open>complete\<close> is the entry's handler called with \<open>CLI_COMPLETE\<close>: it sees the entry, the line, the
  word, the position and the count.
\<close>

fun generator_loop ::
  "(addr \<Rightarrow> string \<Rightarrow> string option \<Rightarrow> nat \<Rightarrow> int \<Rightarrow> string option) \<Rightarrow> string list \<Rightarrow> string \<Rightarrow> string option
     \<Rightarrow> nat \<Rightarrow> int \<Rightarrow> int \<Rightarrow> spd_cli_entry list \<Rightarrow> string option" where
  "generator_loop complete argv line word argindex state matchnum [] = None"
| "generator_loop complete argv line word argindex state matchnum (e # es) =
     (if take 1 (the (ce_command e)) = ''_''
      then generator_loop complete argv line word argindex state matchnum es
      else
        (let src = match_words (take argindex argv) (ce_cmda e); dst = src
         in if src \<noteq> argindex \<and> more_words (drop dst (ce_cmda e))
            then generator_loop complete argv line word argindex state matchnum es
            else
              (case is_prefix (at argv src) (at (ce_cmda e) dst) (state - matchnum) of
                 (ret, n) \<Rightarrow>
                   (let matchnum = matchnum + int n
                    in if ret \<noteq> None then
                         (if matchnum > state then ret
                          else generator_loop complete argv line word argindex state matchnum es)
                       else if spd_strlen_zero (at (ce_cmda e) dst) then
                         (case complete (ce_addr e) line word argindex (state - matchnum) of
                            Some r \<Rightarrow> Some r
                          | None \<Rightarrow> generator_loop complete argv line word argindex state matchnum es)
                       else generator_loop complete argv line word argindex state matchnum es))))"

definition spd_cli_generator ::
  "(addr \<Rightarrow> string \<Rightarrow> string option \<Rightarrow> nat \<Rightarrow> int \<Rightarrow> string option) \<Rightarrow> spd_cli_entry list
     \<Rightarrow> string \<Rightarrow> string option \<Rightarrow> int \<Rightarrow> string option" where
  "spd_cli_generator complete entries txt word state =
     (let (argv, tws) = parse_args txt SPD_MAX_ARGS;
          x = length argv;
          argindex = (if \<not> spd_strlen_zero word \<and> x > 0 then x - 1 else x);
          line = (case spd_str_join (replicate 80 NUL) 79 argv of None \<Rightarrow> [] | Some b \<Rightarrow> cstr b);
          line = (if tws then line @ '' '' else line)
      in generator_loop complete argv line word argindex state 0 entries)"

text \<open>The matches as the generator returns them for states 0, 1, ...; \<open>fuel\<close> bounds their number.\<close>

fun generate_all :: "nat \<Rightarrow> (int \<Rightarrow> string option) \<Rightarrow> nat \<Rightarrow> string list option" where
  "generate_all 0 gen i = None"
| "generate_all (Suc fuel) gen i =
     (case gen (int i) of None \<Rightarrow> Some [] | Some r \<Rightarrow> map_option ((#) r) (generate_all fuel gen (i + 1)))"

fun count_changes :: "string option \<Rightarrow> string list \<Rightarrow> nat" where
  "count_changes oldbuf [] = 0"
| "count_changes oldbuf (b # bs) = (if oldbuf \<noteq> Some b then 1 else 0) + count_changes (Some b) bs"

definition spd_cli_generatornummatches :: "nat \<Rightarrow> (int \<Rightarrow> string option) \<Rightarrow> nat option" where
  "spd_cli_generatornummatches fuel gen = map_option (count_changes None) (generate_all fuel gen 0)"

text \<open>How far two strings agree up to case; a string ends with NUL, which the loop compares too.\<close>

fun equal_upto :: "nat \<Rightarrow> string \<Rightarrow> string \<Rightarrow> nat" where
  "equal_upto 0 a b = 0"
| "equal_upto (Suc n) (x # a) (y # b) = (if c_toupper x = c_toupper y then Suc (equal_upto n a b) else 0)"
| "equal_upto (Suc n) [] b = 0"
| "equal_upto (Suc n) (x # a) [] = 0"

fun max_equal_loop :: "string \<Rightarrow> nat \<Rightarrow> string list \<Rightarrow> nat" where
  "max_equal_loop prevstr n [] = n"
| "max_equal_loop prevstr n (m # ms) = max_equal_loop prevstr (equal_upto n prevstr m) ms"

definition spd_cli_completion_matches :: "nat \<Rightarrow> (int \<Rightarrow> string option) \<Rightarrow> string list option option" where
  "spd_cli_completion_matches fuel gen =
     map_option (\<lambda>ms. case ms of [] \<Rightarrow> None
                      | p # rest \<Rightarrow> Some (take (max_equal_loop p (length p) rest) p # ms))
       (generate_all fuel gen 0)"

section \<open>Running commands\<close>

datatype cli_result = CLI_SUCCESS | CLI_SHOWUSAGE | CLI_FAILURE
datatype cli_outcome = Ignored | No_such_command | Ran addr cli_result

text \<open>\<open>run\<close> is the handler called with \<open>CLI_HANDLER\<close>. The entry's use count is raised around the call.\<close>

definition spd_cli_command_full ::
  "spd_cli_entry list \<Rightarrow> (spd_cli_entry \<Rightarrow> string list \<Rightarrow> cli_result) \<Rightarrow> string \<Rightarrow> cli_outcome" where
  "spd_cli_command_full entries run s =
     (let argv = fst (parse_args s SPD_MAX_ARGS)
      in if argv = [] then Ignored
         else (case find_cli entries argv 0 of
                 None \<Rightarrow> No_such_command
               | Some e \<Rightarrow> Ran (ce_addr e) (run (e\<lparr>ce_inuse := ce_inuse e + 1\<rparr>) argv)))"

text \<open>
  Commands separated by NUL bytes in \<open>s\<close>: the list of the commands that are run, in order. The
  buffer of 512 bytes overflows on a longer command.
\<close>

fun command_multiple_loop :: "string \<Rightarrow> char list \<Rightarrow> string list option" where
  "command_multiple_loop cmd [] = Some []"
| "command_multiple_loop cmd (c # s) =
     (if length cmd \<ge> 512 then None
      else if c = NUL then map_option ((#) cmd) (command_multiple_loop [] s)
      else command_multiple_loop (cmd @ [c]) s)"

definition spd_cli_command_multiple_full :: "char list \<Rightarrow> (string list \<times> nat) option" where
  "spd_cli_command_multiple_full s = map_option (\<lambda>cs. (cs, length cs)) (command_multiple_loop [] s)"

section \<open>Parsing what a careful caller writes\<close>

text \<open>An argument in quotes, with the quote and the backslash escaped, and a line of such arguments.\<close>

fun escape_arg :: "string \<Rightarrow> string" where
  "escape_arg [] = []"
| "escape_arg (c # s) = (if c = CHR 0x22 \<or> c = CHR 0x5C then CHR 0x5C # c # escape_arg s else c # escape_arg s)"

definition quote_arg :: "string \<Rightarrow> string" where
  "quote_arg a = CHR 0x22 # escape_arg a @ [CHR 0x22]"

fun quote_args :: "string list \<Rightarrow> string" where
  "quote_args [] = []"
| "quote_args [a] = quote_arg a"
| "quote_args (a # as) = quote_arg a @ CHR '' '' # quote_args as"

lemma parse_escaped:
  assumes "length args + 2 < mx"
  shows "parse_loop mx (escape_arg a @ rest)
      \<lparr>as_argv = args @ [cur], as_whitespace = False, as_quoted = True, as_escaped = False\<rparr> =
    parse_loop mx rest \<lparr>as_argv = args @ [cur @ a], as_whitespace = False, as_quoted = True, as_escaped = False\<rparr>"
  using assms by (induction a arbitrary: cur) (auto simp: arg_step_def add_byte_def Let_def)

lemma parse_quoted:
  assumes "length args + 2 < mx"
  shows "parse_loop mx (quote_arg a @ rest)
      \<lparr>as_argv = args, as_whitespace = True, as_quoted = False, as_escaped = False\<rparr> =
    parse_loop mx rest \<lparr>as_argv = args @ [a], as_whitespace = False, as_quoted = False, as_escaped = False\<rparr>"
  using assms parse_escaped [OF assms, of a "CHR 0x22 # rest" "[]"]
  by (simp add: quote_arg_def arg_step_def Let_def)

lemma parse_quoted_args:
  assumes "args \<noteq> []" "length pre + length args + 1 < mx"
  shows "parse_loop mx (quote_args args)
      \<lparr>as_argv = pre, as_whitespace = True, as_quoted = False, as_escaped = False\<rparr> =
    \<lparr>as_argv = pre @ args, as_whitespace = False, as_quoted = False, as_escaped = False\<rparr>"
  using assms
proof (induction args arbitrary: pre rule: quote_args.induct)
  case (2 a)
  then show ?case using parse_quoted [of pre mx a "[]"] by simp
next
  case (3 a b bs)
  let ?d = "pre @ [a]"
  have "parse_loop mx (quote_args (a # b # bs))
      \<lparr>as_argv = pre, as_whitespace = True, as_quoted = False, as_escaped = False\<rparr> =
    parse_loop mx (quote_args (b # bs)) \<lparr>as_argv = ?d, as_whitespace = True, as_quoted = False, as_escaped = False\<rparr>"
    using 3(3) parse_quoted [of pre mx a "CHR '' '' # quote_args (b # bs)"] by (simp add: arg_step_def)
  also have "\<dots> = \<lparr>as_argv = ?d @ b # bs, as_whitespace = False, as_quoted = False, as_escaped = False\<rparr>"
    using 3(3) by (intro "3.IH") auto
  finally show ?case by simp
qed simp

section \<open>The longest common prefix of the matches\<close>

lemma equal_upto_le: "equal_upto n a b \<le> n"
  by (induction n a b rule: equal_upto.induct) auto

lemma equal_upto_iff:
  "k \<le> length a \<Longrightarrow> k \<le> n \<Longrightarrow>
     (k \<le> equal_upto n a b) = (k \<le> length b \<and> map c_toupper (take k a) = map c_toupper (take k b))"
proof (induction n a b arbitrary: k rule: equal_upto.induct)
  case (2 n x a y b)
  then show ?case by (cases k) auto
next
  case (4 n x a)
  then show ?case by (cases k) auto
qed auto

lemma max_equal_loop_le: "max_equal_loop p n ms \<le> n"
  by (induction p n ms rule: max_equal_loop.induct) (auto intro: order_trans equal_upto_le)

lemma max_equal_loop_iff:
  "k \<le> length p \<Longrightarrow> k \<le> n \<Longrightarrow>
     (k \<le> max_equal_loop p n ms) =
       (\<forall>m \<in> set ms. k \<le> length m \<and> map c_toupper (take k p) = map c_toupper (take k m))"
proof (induction p n ms rule: max_equal_loop.induct)
  case (2 p n m ms)
  show ?case
  proof (cases "k \<le> equal_upto n p m")
    case True
    with 2 show ?thesis using equal_upto_iff [of k p n m] by auto
  next
    case False
    then have "\<not> k \<le> max_equal_loop p (equal_upto n p m) ms"
      using max_equal_loop_le [of p "equal_upto n p m" ms] by linarith
    with False 2 show ?thesis using equal_upto_iff [of k p n m] by auto
  qed
qed simp

lemma generate_all_list:
  "length ms < fuel \<Longrightarrow> (\<And>j. j < length ms \<Longrightarrow> gen (int (i + j)) = Some (ms ! j)) \<Longrightarrow>
     gen (int (i + length ms)) = None \<Longrightarrow> generate_all fuel gen i = Some ms"
proof (induction fuel arbitrary: ms i)
  case (Suc fuel)
  show ?case
  proof (cases ms)
    case Nil
    with Suc.prems show ?thesis by simp
  next
    case (Cons m ms')
    have "generate_all fuel gen (i + 1) = Some ms'"
    proof (rule Suc.IH)
      fix j assume "j < length ms'"
      with Suc.prems(2) [of "Suc j"] Cons show "gen (int (i + 1 + j)) = Some (ms' ! j)"
        by (simp add: ac_simps)
    qed (use Suc.prems Cons in \<open>auto simp: ac_simps\<close>)
    with Suc.prems(2) [of 0] Cons show ?thesis by simp
  qed
qed simp

section \<open>Exact matches\<close>

definition full_match :: "string list \<Rightarrow> spd_cli_entry \<Rightarrow> bool" where
  "full_match cmds e \<longleftrightarrow>
     (let n = match_words cmds (ce_cmda e); dst = at (ce_cmda e) n
      in (spd_strlen_zero dst \<or> (hd (the dst) = CHR ''['' \<and> spd_strlen_zero (at (ce_cmda e) (n + 1)))) \<and>
         spd_strlen_zero (at cmds n))"

lemma find_cli_full:
  "(\<exists>e \<in> set es. full_match cmds e) \<Longrightarrow>
     find_cli_loop cmds mt ml cand es = List.find (full_match cmds) es"
  by (induction es arbitrary: ml cand) (auto simp: full_match_def Let_def)

lemma find_cli_exact_type:
  "find_cli_loop cmds 1 ml cand es =
     (if \<exists>e \<in> set es. full_match cmds e then List.find (full_match cmds) es else cand)"
  by (induction es arbitrary: ml cand) (auto simp: full_match_def Let_def)

lemma find_cli_1: "find_cli es cmds 1 = None \<longleftrightarrow> (\<forall>e \<in> set es. \<not> full_match cmds e)"
  by (auto simp: find_cli_def find_cli_exact_type find_None_iff)

definition plain_word :: "string \<Rightarrow> bool" where
  "plain_word w \<longleftrightarrow> w \<noteq> [] \<and> hd w \<noteq> NUL \<and> hd w \<notin> set cli_rsvd"

lemma match_words_self: "\<forall>w \<in> set ws. plain_word w \<Longrightarrow> match_words ws ws = length ws"
  by (induction ws) (auto simp: plain_word_def word_match_def spd_strlen_zero_def strchr_None Let_def)

lemma full_match_self: "\<forall>w \<in> set (ce_cmda e). plain_word w \<Longrightarrow> full_match (ce_cmda e) e"
  by (simp add: full_match_def match_words_self at_def spd_strlen_zero_def)

lemma cli_insert_split: "\<exists>pre post. es = pre @ post \<and> cli_insert e es = pre @ e # post"
proof (induction es)
  case (Cons c es)
  then obtain pre post where "es = pre @ post" "cli_insert e es = pre @ e # post" by blast
  then have "c # es = (c # pre) @ post" "c # cli_insert e es = (c # pre) @ e # post" by auto
  then show ?case by (metis append_Nil cli_insert.simps(2))
qed simp

lemma find_unique: "\<forall>x \<in> set pre. \<not> P x \<Longrightarrow> P e \<Longrightarrow> List.find P (pre @ e # post) = Some e"
  by (induction pre) auto

lemma full_match_cmda: "ce_cmda a = ce_cmda b \<Longrightarrow> full_match cmds a = full_match cmds b"
  by (simp add: full_match_def)

section \<open>Properties\<close>

text \<open>
  C38: arguments written in quotes, with quotes and backslashes escaped and single
  spaces between them, are parsed back unchanged, whatever characters they contain, as long as
  there are at least two fewer than the table has places.
\<close>

theorem parse_args_roundtrip:
  assumes "args \<noteq> []" "length args + 1 < mx"
  shows "parse_args (quote_args args) mx = (args, False)"
  using parse_quoted_args [OF assms(1), of "[]" mx] assms(2) by (simp add: parse_args_def)

theorem parse_args_roundtrip_witness:
  "parse_args (quote_args [''a b'', [], [CHR 0x22, CHR 0x5C]]) SPD_MAX_ARGS = ([''a b'', [], [CHR 0x22, CHR 0x5C]], False)"
  by (rule parse_args_roundtrip) (simp_all add: SPD_MAX_ARGS_def)

text \<open>
  when the generator gives the matches one by one and then \<open>NULL\<close>, the
  completion list holds them in order behind an entry that is the longest prefix of the first match
  which all matches share up to case.
\<close>

lemma cli_completion_prefix:
  assumes "ms \<noteq> []" "length ms < fuel" "\<And>i. i < length ms \<Longrightarrow> gen (int i) = Some (ms ! i)"
    and "gen (int (length ms)) = None"
  shows "\<exists>p. spd_cli_completion_matches fuel gen = Some (Some (p # ms)) \<and>
     (\<forall>k \<le> length (ms ! 0). (k \<le> length p) =
        (\<forall>m \<in> set ms. k \<le> length m \<and> map c_toupper (take k (ms ! 0)) = map c_toupper (take k m))) \<and>
     p = take (length p) (ms ! 0)"
proof -
  obtain m rest where ms: "ms = m # rest" using assms(1) by (cases ms) auto
  have "generate_all fuel gen 0 = Some ms"
    using assms(2-4) by (intro generate_all_list) auto
  moreover have "max_equal_loop m (length m) rest \<le> length m" by (rule max_equal_loop_le)
  ultimately show ?thesis
    by (auto simp: spd_cli_completion_matches_def ms max_equal_loop_iff)
qed

theorem cli_completion_prefix_witness:
  "\<exists>p. spd_cli_completion_matches 5 (\<lambda>i. if i = 0 then Some ''Show'' else if i = 1 then Some ''shoot'' else None)
     = Some (Some (p # [''Show'', ''shoot''])) \<and> p = take (length p) ''Show''"
proof -
  let ?g = "\<lambda>i::int. if i = 0 then Some ''Show'' else if i = 1 then Some ''shoot'' else None" and ?ms = "[''Show'', ''shoot'']"
  have "\<exists>p. spd_cli_completion_matches 5 ?g = Some (Some (p # ?ms)) \<and>
     (\<forall>k \<le> length (?ms ! 0). (k \<le> length p) =
        (\<forall>m \<in> set ?ms. k \<le> length m \<and> map c_toupper (take k (?ms ! 0)) = map c_toupper (take k m))) \<and>
     p = take (length p) (?ms ! 0)"
    by (rule cli_completion_prefix) (auto simp: less_Suc_eq)
  then show ?thesis by auto
qed



end
