(* ===== verification/Spd_TaskQueue.thy ===== *)
theory Spd_TaskQueue
  imports Spd_Obj Spd_Strings
begin

text \<open>
  Task queues: \<open>src/taskqueue.c\<close>. The first part is one queue: its worker thread, which is a
  step function between program points (the sections under the queue's mutex are one step each),
  and the other threads, which push tasks and stop the queue, as a step relation. The second part
  is the registry of the queues by name, on the model of the object containers.
\<close>

section \<open>One queue\<close>

type_synonym ulong = "64 word"

record tps_task =
  t_execute :: nat
  t_data :: nat

record spd_taskqueue_stats =
  max_qsize :: ulong
  task_processed_count :: ulong

record spd_taskqueue =
  poll_thread_run :: bool
  tq_stats :: "spd_taskqueue_stats option"
  tps_queue_size :: int
  tps_queue :: "lhead \<times> links"

text \<open>
  Where the worker is: in front of the loop test, in front of the first locked section, in
  \<open>spd_cond_wait\<close> (woken or not), in front of the pop with its local \<open>size\<close>, in front of the
  call of the task, in front of the statistics, in the final loop, returned.
\<close>

datatype tps_pc =
    AtTest | AtLock | AtWait bool | AtPop int | AtExecute addr int | AtStats addr int | AtDrain | Returned

record tps_state =
  ts_tq :: spd_taskqueue
  ts_tasks :: "addr \<Rightarrow> tps_task option"
  ts_pc :: tps_pc
  ts_log :: "(nat \<times> nat) list"

definition tps_taskqueue_depth :: "spd_taskqueue option \<Rightarrow> int" where
  "tps_taskqueue_depth tps = (case tps of None \<Rightarrow> - 1 | Some tq \<Rightarrow> tps_queue_size tq)"

definition tps_taskqueue_pop :: "spd_taskqueue \<Rightarrow> addr option \<times> spd_taskqueue" where
  "tps_taskqueue_pop tq =
     (case ll_deq (tps_queue tq) of
        (task, q) \<Rightarrow>
          (let tq = tq\<lparr>tps_queue := q\<rparr>
           in (task, if task \<noteq> None then tq\<lparr>tps_queue_size := tps_queue_size tq - 1\<rparr> else tq)))"

definition tps_task_alloc :: "addr \<Rightarrow> nat \<Rightarrow> nat \<Rightarrow> tps_state \<Rightarrow> tps_state" where
  "tps_task_alloc a exe dat st =
     (let tq = ts_tq st
      in st\<lparr>ts_tasks := (ts_tasks st)(a := Some \<lparr>t_execute = exe, t_data = dat\<rparr>),
            ts_tq := tq\<lparr>tps_queue := (fst (tps_queue tq), (snd (tps_queue tq))(a := None))\<rparr>\<rparr>)"

definition tps_task_free :: "addr option \<Rightarrow> tps_state \<Rightarrow> tps_state" where
  "tps_task_free task st =
     (case task of None \<Rightarrow> st | Some a \<Rightarrow> st\<lparr>ts_tasks := (ts_tasks st)(a := None)\<rparr>)"

text \<open>The statistics: \<open>size\<close> is compared as an unsigned number.\<close>

definition tps_count :: "int \<Rightarrow> spd_taskqueue \<Rightarrow> spd_taskqueue" where
  "tps_count sz tq =
     (case tq_stats tq of
        None \<Rightarrow> tq
      | Some s \<Rightarrow>
          (let s = s\<lparr>task_processed_count := task_processed_count s + 1\<rparr>;
               s = (if word_of_int sz > max_qsize s then s\<lparr>max_qsize := word_of_int sz\<rparr> else s)
           in tq\<lparr>tq_stats := Some s\<rparr>))"

text \<open>
  One step of the worker. A worker that waits and has not been woken stays where it is. Executing
  a task that has been freed has no result.
\<close>

definition tps_work_thread :: "tps_state \<Rightarrow> tps_state option" where
  "tps_work_thread st =
     (let tq = ts_tq st
      in case ts_pc st of
           AtTest \<Rightarrow> Some (st\<lparr>ts_pc := if poll_thread_run tq then AtLock else AtDrain\<rparr>)
         | AtLock \<Rightarrow>
             if \<not> poll_thread_run tq then Some (st\<lparr>ts_pc := AtDrain\<rparr>)
             else (let sz = tps_taskqueue_depth (Some tq)
                   in Some (st\<lparr>ts_pc := if sz = 0 then AtWait False else AtPop sz\<rparr>))
         | AtWait woken \<Rightarrow>
             if \<not> woken then Some st
             else Some (st\<lparr>ts_pc := if poll_thread_run tq then AtPop 0 else AtDrain\<rparr>)
         | AtPop sz \<Rightarrow>
             (case tps_taskqueue_pop tq of
                (None, tq) \<Rightarrow> Some (st\<lparr>ts_tq := tq, ts_pc := AtTest\<rparr>)
              | (Some a, tq) \<Rightarrow> Some (st\<lparr>ts_tq := tq, ts_pc := AtExecute a sz\<rparr>))
         | AtExecute a sz \<Rightarrow>
             (case ts_tasks st a of
                None \<Rightarrow> None
              | Some t \<Rightarrow> Some (st\<lparr>ts_log := ts_log st @ [(t_execute t, t_data t)], ts_pc := AtStats a sz\<rparr>))
         | AtStats a sz \<Rightarrow> Some (tps_task_free (Some a) (st\<lparr>ts_tq := tps_count sz tq, ts_pc := AtTest\<rparr>))
         | AtDrain \<Rightarrow>
             (case tps_taskqueue_pop tq of
                (None, tq) \<Rightarrow> Some (st\<lparr>ts_tq := tq, ts_pc := Returned\<rparr>)
              | (Some a, tq) \<Rightarrow> Some (tps_task_free (Some a) (st\<lparr>ts_tq := tq\<rparr>)))
         | Returned \<Rightarrow> Some st)"

text \<open>A signal wakes the worker when it waits and is lost otherwise.\<close>

definition spd_cond_signal :: "tps_state \<Rightarrow> tps_state" where
  "spd_cond_signal st = (case ts_pc st of AtWait _ \<Rightarrow> st\<lparr>ts_pc := AtWait True\<rparr> | _ \<Rightarrow> st)"

text \<open>\<open>a\<close> is the address of the block that \<open>tps_task_alloc\<close> gets.\<close>

definition spd_taskqueue_push ::
  "addr \<Rightarrow> nat option \<Rightarrow> nat \<Rightarrow> tps_state option \<Rightarrow> (int \<times> tps_state option) option" where
  "spd_taskqueue_push a task_exe dat tps =
     (case (tps, task_exe) of
        (Some st, Some exe) \<Rightarrow>
          (let st = tps_task_alloc a exe dat st; tq = ts_tq st
           in case ll_enq (tps_queue tq) a of
                None \<Rightarrow> None
              | Some q \<Rightarrow>
                  (let tq = tq\<lparr>tps_queue := q, tps_queue_size := tps_queue_size tq + 1\<rparr>
                   in Some (0, Some (spd_cond_signal (st\<lparr>ts_tq := tq\<rparr>)))))
      | _ \<Rightarrow> Some (- 1, tps))"

text \<open>
  The part of \<open>tps_taskqueue_destroy\<close> before it waits for the worker to return, and the part
  from \<open>pthread_join\<close> on, which does not go on while the worker runs.
\<close>

definition tps_taskqueue_destroy :: "tps_state \<Rightarrow> tps_state" where
  "tps_taskqueue_destroy st = spd_cond_signal (st\<lparr>ts_tq := (ts_tq st)\<lparr>poll_thread_run := False\<rparr>\<rparr>)"

definition tps_taskqueue_join :: "tps_state \<Rightarrow> tps_state option" where
  "tps_taskqueue_join st =
     (case ts_pc st of
        Returned \<Rightarrow> Some (st\<lparr>ts_tq := (ts_tq st)\<lparr>tq_stats := None\<rparr>\<rparr>)
      | _ \<Rightarrow> None)"

definition tps_new :: tps_state where
  "tps_new =
     \<lparr>ts_tq = \<lparr>poll_thread_run = True, tq_stats = Some \<lparr>max_qsize = 0, task_processed_count = 0\<rparr>,
               tps_queue_size = 0, tps_queue = (SPD_LIST_HEAD_INIT, \<lambda>_. None)\<rparr>,
      ts_tasks = \<lambda>_. None, ts_pc = AtTest, ts_log = []\<rparr>"

text \<open>
  The system: the states that a new queue can reach, with the tasks pushed so far. A wait can
  also return without a signal.
\<close>

inductive tps_reach :: "(nat \<times> nat) list \<Rightarrow> tps_state \<Rightarrow> bool" where
  Start: "tps_reach [] tps_new"
| Work: "tps_reach ps st \<Longrightarrow> tps_work_thread st = Some st' \<Longrightarrow> tps_reach ps st'"
| Push: "tps_reach ps st \<Longrightarrow> ts_tasks st a = None \<Longrightarrow>
    spd_taskqueue_push a (Some exe) dat (Some st) = Some (0, Some st') \<Longrightarrow> tps_reach (ps @ [(exe, dat)]) st'"
| Stop: "tps_reach ps st \<Longrightarrow> tps_reach ps (tps_taskqueue_destroy st)"
| Spurious: "tps_reach ps st \<Longrightarrow> ts_pc st = AtWait False \<Longrightarrow> tps_reach ps (st\<lparr>ts_pc := AtWait True\<rparr>)"

inductive_cases tps_reach_nonempty: "tps_reach (ps @ [p]) st"

section \<open>The invariant of a queue\<close>

definition pair_of :: "tps_task \<Rightarrow> nat \<times> nat" where
  "pair_of t = (t_execute t, t_data t)"

definition queued :: "tps_state \<Rightarrow> addr list \<Rightarrow> (nat \<times> nat) list" where
  "queued st xs = map (\<lambda>a. pair_of (the (ts_tasks st a))) xs"

definition processed_ok :: "tps_state \<Rightarrow> nat \<Rightarrow> bool" where
  "processed_ok st n \<longleftrightarrow> (\<forall>s. tq_stats (ts_tq st) = Some s \<longrightarrow> task_processed_count s = of_nat n)"

text \<open>What each program point promises; \<open>ps\<close> are the tasks pushed, \<open>xs\<close> the tasks linked.\<close>

fun pc_ok :: "(nat \<times> nat) list \<Rightarrow> tps_state \<Rightarrow> addr list \<Rightarrow> tps_pc \<Rightarrow> bool" where
  "pc_ok ps st xs (AtWait False) \<longleftrightarrow>
     xs = [] \<and> poll_thread_run (ts_tq st) \<and> ps = ts_log st \<and> processed_ok st (length (ts_log st))"
| "pc_ok ps st xs (AtExecute a sz) \<longleftrightarrow>
     a \<notin> set xs \<and> ts_tasks st a \<noteq> None \<and>
     ps = ts_log st @ queued st (a # xs) \<and> processed_ok st (length (ts_log st))"
| "pc_ok ps st xs (AtStats a sz) \<longleftrightarrow>
     a \<notin> set xs \<and> ts_tasks st a \<noteq> None \<and>
     ps = ts_log st @ queued st xs \<and> ts_log st \<noteq> [] \<and> processed_ok st (length (ts_log st) - 1)"
| "pc_ok ps st xs AtDrain \<longleftrightarrow>
     \<not> poll_thread_run (ts_tq st) \<and> (\<exists>ds. ps = ts_log st @ ds @ queued st xs) \<and> processed_ok st (length (ts_log st))"
| "pc_ok ps st xs Returned \<longleftrightarrow>
     \<not> poll_thread_run (ts_tq st) \<and> (\<exists>ds. ps = ts_log st @ ds @ queued st xs) \<and> processed_ok st (length (ts_log st))"
| "pc_ok ps st xs pc \<longleftrightarrow> ps = ts_log st @ queued st xs \<and> processed_ok st (length (ts_log st))"

text \<open>The task the worker has taken off the queue and not freed yet.\<close>

fun in_hand :: "tps_pc \<Rightarrow> addr option" where
  "in_hand (AtExecute a sz) = Some a"
| "in_hand (AtStats a sz) = Some a"
| "in_hand pc = None"

text \<open>The allocated tasks are the linked ones and the one in hand: none is leaked.\<close>

definition tps_inv :: "(nat \<times> nat) list \<Rightarrow> tps_state \<Rightarrow> addr list \<Rightarrow> bool" where
  "tps_inv ps st xs \<longleftrightarrow>
     ll_rep (tps_queue (ts_tq st)) xs \<and> tps_queue_size (ts_tq st) = int (length xs) \<and>
     (\<forall>a. ts_tasks st a \<noteq> None \<longleftrightarrow> a \<in> set xs \<or> in_hand (ts_pc st) = Some a) \<and>
     pc_ok ps st xs (ts_pc st)"

lemma queued_simps [simp]: "queued st [] = []" "queued st (a # xs) = pair_of (the (ts_tasks st a)) # queued st xs"
  "queued st (xs @ ys) = queued st xs @ queued st ys"
  by (simp_all add: queued_def)

lemma queued_cong [simp]:
  "queued (st\<lparr>ts_tq := tq\<rparr>) xs = queued st xs" "queued (st\<lparr>ts_pc := pc\<rparr>) xs = queued st xs"
  "queued (st\<lparr>ts_log := l\<rparr>) xs = queued st xs"
  "a \<notin> set xs \<Longrightarrow> queued (st\<lparr>ts_tasks := (ts_tasks st)(a := t)\<rparr>) xs = queued st xs"
  by (auto simp: queued_def)

lemma processed_cong [simp]:
  "processed_ok (st\<lparr>ts_pc := pc\<rparr>) n = processed_ok st n" "processed_ok (st\<lparr>ts_log := l\<rparr>) n = processed_ok st n"
  "processed_ok (st\<lparr>ts_tasks := t\<rparr>) n = processed_ok st n"
  "processed_ok (st\<lparr>ts_tq := (ts_tq st)\<lparr>tps_queue := q\<rparr>\<rparr>) n = processed_ok st n"
  "processed_ok (st\<lparr>ts_tq := (ts_tq st)\<lparr>tps_queue := q, tps_queue_size := k\<rparr>\<rparr>) n = processed_ok st n"
  "processed_ok (st\<lparr>ts_tq := (ts_tq st)\<lparr>poll_thread_run := b\<rparr>\<rparr>) n = processed_ok st n"
  by (simp_all add: processed_ok_def)

lemma pop_result:
  assumes "ll_rep (tps_queue tq) xs" "tps_queue_size tq = int (length xs)"
  shows "case tps_taskqueue_pop tq of
     (task, tq') \<Rightarrow> task = (if xs = [] then None else Some (hd xs)) \<and> ll_rep (tps_queue tq') (tl xs) \<and>
       tps_queue_size tq' = int (length (tl xs)) \<and> poll_thread_run tq' = poll_thread_run tq \<and>
       tq_stats tq' = tq_stats tq"
  using llq.deq_rep [OF assms(1)] llq.deq_ret [OF assms(1)] assms(2)
  by (cases xs) (auto simp: tps_taskqueue_pop_def Let_def split: prod.splits)

lemma tps_inv_new: "tps_inv [] tps_new []"
  by (simp add: tps_inv_def tps_new_def ll_rep_def list_head_init processed_ok_def)

lemma pop_cases:
  assumes "tps_inv ps st xs"
  obtains (empty) tq where "xs = []" "tps_taskqueue_pop (ts_tq st) = (None, tq)" "ll_rep (tps_queue tq) []"
      "tps_queue_size tq = 0" "poll_thread_run tq = poll_thread_run (ts_tq st)" "tq_stats tq = tq_stats (ts_tq st)"
  | (task) a ys tq where "xs = a # ys" "a \<notin> set ys" "tps_taskqueue_pop (ts_tq st) = (Some a, tq)"
      "ll_rep (tps_queue tq) ys" "tps_queue_size tq = int (length ys)"
      "poll_thread_run tq = poll_thread_run (ts_tq st)" "tq_stats tq = tq_stats (ts_tq st)"
proof -
  have l: "ll_rep (tps_queue (ts_tq st)) xs" "tps_queue_size (ts_tq st) = int (length xs)"
    using assms by (auto simp: tps_inv_def)
  then have d: "distinct xs" by (auto simp: ll_rep_def dest: is_list_distinct)
  obtain r tq where p: "tps_taskqueue_pop (ts_tq st) = (r, tq)" by fastforce
  note f = pop_result [OF l, unfolded p prod.case]
  show thesis
  proof (cases xs)
    case Nil
    with f p show thesis by (intro empty [of tq]) auto
  next
    case (Cons a ys)
    with f p d show thesis by (intro task [of a ys tq]) auto
  qed
qed

lemma processed_stats: "tq_stats (ts_tq st') = tq_stats (ts_tq st) \<Longrightarrow> processed_ok st' n = processed_ok st n"
  by (simp add: processed_ok_def)

lemma processed_count:
  "processed_ok st n \<Longrightarrow> processed_ok (st\<lparr>ts_tq := tps_count sz (ts_tq st)\<rparr>) (Suc n)"
  by (auto simp: processed_ok_def tps_count_def Let_def split: option.splits)

lemma tps_count_simps [simp]:
  "tps_queue (tps_count sz tq) = tps_queue tq" "tps_queue_size (tps_count sz tq) = tps_queue_size tq"
  "poll_thread_run (tps_count sz tq) = poll_thread_run tq"
  by (simp_all add: tps_count_def Let_def split: option.splits)

lemma worker_total: "tps_inv ps st xs \<Longrightarrow> \<exists>st'. tps_work_thread st = Some st'"
  by (cases "ts_pc st") (auto simp: tps_inv_def tps_work_thread_def Let_def split: prod.splits option.splits)

lemma worker_inv:
  assumes "tps_inv ps st xs" "tps_work_thread st = Some st'"
  shows "\<exists>xs'. tps_inv ps st' xs'"
proof (cases "ts_pc st")
  case AtTest
  with assms show ?thesis
    by (intro exI [of _ xs]) (auto simp: tps_inv_def tps_work_thread_def Let_def split: if_splits)
next
  case AtLock
  with assms show ?thesis
    by (intro exI [of _ xs])
      (auto simp: tps_inv_def tps_work_thread_def tps_taskqueue_depth_def Let_def split: if_splits)
next
  case (AtWait w)
  with assms show ?thesis
    by (intro exI [of _ xs], cases w) (auto simp: tps_inv_def tps_work_thread_def Let_def split: if_splits)
next
  case (AtPop sz)
  from assms(1) show ?thesis
  proof (cases rule: pop_cases)
    case empty
    with assms AtPop show ?thesis
      by (intro exI [of _ "[]"]) (auto simp: tps_inv_def tps_work_thread_def processed_ok_def Let_def)
  next
    case (task a ys tq)
    with assms AtPop show ?thesis
      by (intro exI [of _ ys]) (auto simp: tps_inv_def tps_work_thread_def processed_ok_def Let_def)
  qed
next
  case (AtExecute a sz)
  with assms show ?thesis
    by (intro exI [of _ xs]) (auto simp: tps_inv_def tps_work_thread_def pair_of_def Let_def split: option.splits)
next
  case (AtStats a sz)
  with assms processed_count [of st "length (ts_log st) - 1" sz] show ?thesis
    by (intro exI [of _ xs]) (auto simp: tps_inv_def tps_work_thread_def tps_task_free_def Let_def processed_ok_def queued_def)
next
  case AtDrain
  from assms(1) show ?thesis
  proof (cases rule: pop_cases)
    case empty
    with assms AtDrain show ?thesis
      by (intro exI [of _ "[]"]) (auto simp: tps_inv_def tps_work_thread_def processed_ok_def Let_def)
  next
    case (task a ys tq)
    from assms(1) AtDrain obtain ds where ds: "ps = ts_log st @ ds @ queued st xs"
      by (auto simp: tps_inv_def)
    then have "ps = ts_log st @ (ds @ [pair_of (the (ts_tasks st a))]) @ queued st ys" using task(1) by simp
    then have "\<exists>ds. ps = ts_log st @ ds @ queued st ys" by blast
    moreover have "queued st' ys = queued st ys"
      using task(2,3) assms(2) AtDrain
      by (auto simp: tps_work_thread_def tps_task_free_def Let_def queued_def)
    ultimately show ?thesis using task assms AtDrain
      by (intro exI [of _ ys])
        (auto simp: tps_inv_def tps_work_thread_def processed_ok_def tps_task_free_def Let_def split: if_splits)
  qed
next
  case Returned
  with assms show ?thesis by (auto simp: tps_work_thread_def)
qed

lemma signal_simps [simp]:
  "ts_tq (spd_cond_signal st) = ts_tq st" "ts_tasks (spd_cond_signal st) = ts_tasks st"
  "ts_log (spd_cond_signal st) = ts_log st"
  by (simp_all add: spd_cond_signal_def split: tps_pc.splits)

lemma push_result:
  assumes "tps_inv ps st xs" "ts_tasks st a = None"
    and "spd_taskqueue_push a (Some exe) dat (Some st) = Some (0, Some st')"
  shows "tps_inv (ps @ [(exe, dat)]) st' (xs @ [a])"
proof -
  let ?st = "tps_task_alloc a exe dat st"
  have x: "a \<notin> set xs" using assms(1,2) unfolding tps_inv_def by blast
  have r: "ll_rep (tps_queue (ts_tq ?st)) xs" "ll_fresh (tps_queue (ts_tq ?st)) a"
    using assms(1) x by (auto simp: tps_inv_def tps_task_alloc_def ll_rep_def ll_fresh_def Let_def is_list_frame)
  from llq.enq_rep [OF r x] obtain q where q: "ll_enq (tps_queue (ts_tq ?st)) a = Some q" "ll_rep q (xs @ [a])"
    by blast
  have st': "st' = spd_cond_signal (?st\<lparr>ts_tq := (ts_tq ?st)\<lparr>tps_queue := q,
      tps_queue_size := tps_queue_size (ts_tq ?st) + 1\<rparr>\<rparr>)"
    using assms(3) q(1) by (simp add: spd_taskqueue_push_def Let_def)
  have t: "ts_tq st' = (ts_tq st)\<lparr>tps_queue := q, tps_queue_size := tps_queue_size (ts_tq st) + 1\<rparr>"
    "ts_tasks st' = (ts_tasks st)(a := Some \<lparr>t_execute = exe, t_data = dat\<rparr>)" "ts_log st' = ts_log st"
    "ts_pc st' = (case ts_pc st of AtWait _ \<Rightarrow> AtWait True | pc \<Rightarrow> pc)"
    by (simp_all add: st' tps_task_alloc_def Let_def spd_cond_signal_def split: tps_pc.splits)
  have qu: "queued st' xs = queued st xs" "queued st' [a] = [(exe, dat)]"
    using x by (auto simp: queued_def t pair_of_def)
  have pr: "processed_ok st' n = processed_ok st n" for n by (rule processed_stats) (simp add: t)
  have "pc_ok (ps @ [(exe, dat)]) st' (xs @ [a]) (ts_pc st')"
  proof (cases "ts_pc st")
    case (AtWait w)
    with assms x show ?thesis by (cases w) (auto simp: tps_inv_def t qu pr pair_of_def)
  next
    case (AtExecute b sz)
    with assms x have "b \<noteq> a" by (auto simp: tps_inv_def)
    with AtExecute assms x show ?thesis by (auto simp: tps_inv_def t qu pr pair_of_def)
  next
    case (AtStats b sz)
    with assms x have "b \<noteq> a" by (auto simp: tps_inv_def)
    with AtStats assms x show ?thesis by (auto simp: tps_inv_def t qu pr pair_of_def)
  qed (use assms x in \<open>auto simp: tps_inv_def t qu pr pair_of_def\<close>)
  moreover have "in_hand (ts_pc st') = in_hand (ts_pc st)" by (simp add: t(4) split: tps_pc.splits)
  ultimately show ?thesis
    using assms(1) q(2) by (auto simp: tps_inv_def t(1,2))
qed

lemma stop_inv:
  assumes "tps_inv ps st xs"
  shows "tps_inv ps (tps_taskqueue_destroy st) xs"
proof -
  let ?st = "st\<lparr>ts_tq := (ts_tq st)\<lparr>poll_thread_run := False\<rparr>\<rparr>"
  show ?thesis
  proof (cases "ts_pc st")
    case (AtWait w)
    with assms show ?thesis
      by (cases w) (auto simp: tps_inv_def tps_taskqueue_destroy_def spd_cond_signal_def processed_ok_def)
  qed (use assms in \<open>auto simp: tps_inv_def tps_taskqueue_destroy_def spd_cond_signal_def processed_ok_def\<close>)
qed

lemma reach_inv: "tps_reach ps st \<Longrightarrow> \<exists>xs. tps_inv ps st xs"
proof (induction rule: tps_reach.induct)
  case Start
  show ?case using tps_inv_new by blast
next
  case (Work ps st st')
  then show ?case using worker_inv by blast
next
  case (Push ps st a exe dat st')
  then show ?case using push_result by blast
next
  case (Stop ps st)
  then show ?case using stop_inv by blast
next
  case (Spurious ps st)
  then obtain xs where "tps_inv ps st xs" by blast
  with Spurious(2) have "tps_inv ps (st\<lparr>ts_pc := AtWait True\<rparr>) xs" by (auto simp: tps_inv_def processed_ok_def)
  then show ?case by blast
qed

section \<open>The worker returns once the queue is stopped\<close>

fun work_n :: "nat \<Rightarrow> tps_state \<Rightarrow> tps_state option" where
  "work_n 0 st = Some st"
| "work_n (Suc n) st = Option.bind (tps_work_thread st) (work_n n)"

lemma drain_returns:
  assumes "tps_inv ps st xs" "ts_pc st = AtDrain"
  shows "\<exists>st'. work_n (Suc (length xs)) st = Some st' \<and> ts_pc st' = Returned \<and>
     lh_first (fst (tps_queue (ts_tq st'))) = None \<and> ts_log st' = ts_log st \<and> ts_tasks st' = (\<lambda>_. None)"
  using assms
proof (induction "length xs" arbitrary: st xs)
  case 0
  from 0(2) show ?case
  proof (cases rule: pop_cases)
    case (empty tq)
    with 0(2,3) show ?thesis
      by (auto simp: tps_work_thread_def Let_def ll_rep_def is_list_Nil tps_inv_def)
  qed (use 0(1) in auto)
next
  case (Suc n)
  from Suc(3) show ?case
  proof (cases rule: pop_cases)
    case (task a ys tq)
    define st1 where "st1 = tps_task_free (Some a) (st\<lparr>ts_tq := tq\<rparr>)"
    have w: "tps_work_thread st = Some st1"
      using task(3) Suc(4) by (simp add: tps_work_thread_def Let_def st1_def)
    obtain xs' where x: "tps_inv ps st1 xs'" using worker_inv [OF Suc(3) w] by blast
    have "int (length xs') = int (length ys)"
      using x task(5) by (simp add: tps_inv_def st1_def tps_task_free_def)
    then have "n = length xs'" using Suc(2) task(1) by simp
    with Suc(1) [OF this x] w task(1) Suc(4) show ?thesis
      by (auto simp: st1_def tps_task_free_def \<open>int (length xs') = int (length ys)\<close> [unfolded of_nat_eq_iff])
  qed (use Suc(2) in auto)
qed

lemma work_n_add: "work_n m st = Some st1 \<Longrightarrow> work_n n st1 = r \<Longrightarrow> work_n (m + n) st = r"
proof (induction m arbitrary: st)
  case (Suc m)
  then show ?case by (cases "tps_work_thread st") auto
qed simp

lemma worker_keeps_stop:
  "tps_work_thread st = Some st' \<Longrightarrow> poll_thread_run (ts_tq st') = poll_thread_run (ts_tq st)"
  by (cases "ts_pc st")
    (auto simp: tps_work_thread_def tps_taskqueue_pop_def tps_task_free_def Let_def split: prod.splits option.splits if_splits)

text \<open>The steps a stopped worker takes before its final loop.\<close>

fun to_drain :: "tps_pc \<Rightarrow> nat" where
  "to_drain (AtPop sz) = 4"
| "to_drain (AtExecute a sz) = 3"
| "to_drain (AtStats a sz) = 2"
| "to_drain AtDrain = 0"
| "to_drain Returned = 0"
| "to_drain pc = 1"

lemma stopped_step:
  assumes "tps_inv ps st xs" "\<not> poll_thread_run (ts_tq st)" "ts_pc st \<noteq> AtDrain" "ts_pc st \<noteq> Returned"
  shows "\<exists>st' xs'. tps_work_thread st = Some st' \<and> tps_inv ps st' xs' \<and> length xs' \<le> length xs \<and>
     to_drain (ts_pc st') < to_drain (ts_pc st) \<and> ts_pc st' \<noteq> Returned"
proof -
  obtain st' where w: "tps_work_thread st = Some st'" using worker_total [OF assms(1)] by blast
  obtain xs' where x: "tps_inv ps st' xs'" using worker_inv [OF assms(1) w] by blast
  have "tps_queue_size (ts_tq st') \<le> tps_queue_size (ts_tq st)"
    using w by (cases "ts_pc st")
      (auto simp: tps_work_thread_def tps_taskqueue_pop_def tps_task_free_def Let_def split: prod.splits option.splits if_splits)
  then have "length xs' \<le> length xs" using x assms(1) by (simp add: tps_inv_def)
  moreover have "to_drain (ts_pc st') < to_drain (ts_pc st) \<and> ts_pc st' \<noteq> Returned"
  proof (cases "ts_pc st")
    case (AtWait b)
    with assms(1,2) have b by (cases b) (auto simp: tps_inv_def)
    with AtWait w assms(2) show ?thesis by (auto simp: tps_work_thread_def Let_def)
  qed (use w assms in \<open>auto simp: tps_work_thread_def tps_task_free_def Let_def split: prod.splits option.splits\<close>)
  ultimately show ?thesis using w x by blast
qed

lemma stopped_reaches_drain:
  assumes "tps_inv ps st xs" "\<not> poll_thread_run (ts_tq st)" "ts_pc st \<noteq> Returned"
  shows "\<exists>n st' xs'. n \<le> to_drain (ts_pc st) \<and> work_n n st = Some st' \<and> tps_inv ps st' xs' \<and>
     length xs' \<le> length xs \<and> ts_pc st' = AtDrain"
  using assms
proof (induction "to_drain (ts_pc st)" arbitrary: st xs rule: less_induct)
  case less
  show ?case
  proof (cases "ts_pc st = AtDrain")
    case True
    with less(2) show ?thesis by (intro exI [of _ 0]) auto
  next
    case False
    obtain st1 xs1 where s: "tps_work_thread st = Some st1" "tps_inv ps st1 xs1" "length xs1 \<le> length xs"
      "to_drain (ts_pc st1) < to_drain (ts_pc st)" "ts_pc st1 \<noteq> Returned"
      using stopped_step [OF less(2,3) False less(4)] by blast
    have "\<not> poll_thread_run (ts_tq st1)" using worker_keeps_stop [OF s(1)] less(3) by simp
    from less(1) [OF s(4,2) this s(5)] obtain n st' xs' where
      "n \<le> to_drain (ts_pc st1)" "work_n n st1 = Some st'" "tps_inv ps st' xs'" "length xs' \<le> length xs1" "ts_pc st' = AtDrain"
      by blast
    with s show ?thesis by (intro exI [of _ "Suc n"]) (auto intro!: exI [of _ st'] exI [of _ xs'])
  qed
qed

section \<open>Properties of one queue\<close>

text \<open>
  C2: whatever the interleaving of pushes, wake-ups and the stop, the worker executes
  the tasks in the order in which they were pushed and each at most once; it never touches a task
  that has been freed, and the counter of processed tasks says how many it has finished. While
  the queue runs, what was pushed is what was executed, the task in hand and what is linked. In
  front of the loop test the allocated tasks are the linked ones: none is leaked.
\<close>

theorem taskqueue_fifo:
  assumes "tps_reach ps st"
  shows "(\<exists>rest. ps = ts_log st @ rest) \<and> tps_work_thread st \<noteq> None \<and>
     (\<forall>s. tq_stats (ts_tq st) = Some s \<and> ts_pc st = AtTest \<longrightarrow> task_processed_count s = of_nat (length (ts_log st))) \<and>
     (poll_thread_run (ts_tq st) \<and> ts_pc st = AtTest \<longrightarrow>
        int (length ps) = int (length (ts_log st)) + tps_taskqueue_depth (Some (ts_tq st))) \<and>
     (ts_pc st = AtTest \<longrightarrow> int (card {a. ts_tasks st a \<noteq> None}) = tps_taskqueue_depth (Some (ts_tq st)))"
proof -
  obtain xs where i: "tps_inv ps st xs" using reach_inv [OF assms] by blast
  then have "distinct xs" by (auto simp: tps_inv_def ll_rep_def dest: is_list_distinct)
  moreover have "ts_pc st = AtTest \<Longrightarrow> {a. ts_tasks st a \<noteq> None} = set xs"
    using i by (auto simp: tps_inv_def)
  ultimately have c: "ts_pc st = AtTest \<Longrightarrow> card {a. ts_tasks st a \<noteq> None} = length xs"
    by (simp add: distinct_card)
  have "\<exists>rest. ps = ts_log st @ rest"
  proof (cases "ts_pc st")
    case (AtWait w)
    with i show ?thesis by (cases w) (auto simp: tps_inv_def)
  qed (use i in \<open>auto simp: tps_inv_def\<close>)
  with i c worker_total [OF i] show ?thesis
    by (auto simp: tps_inv_def processed_ok_def tps_taskqueue_depth_def queued_def)
qed

definition demo_queue :: tps_state where
  "demo_queue = the (snd (the (spd_taskqueue_push 5 (Some 1) 10 (Some tps_new))))"

lemma demo_queue_reach: "tps_reach [(1, 10)] demo_queue"
proof -
  have "spd_taskqueue_push 5 (Some 1) 10 (Some tps_new) = Some (0, Some demo_queue)"
    by (simp add: demo_queue_def spd_taskqueue_push_def tps_new_def tps_task_alloc_def Let_def
        ll_enq_def SPD_LIST_INSERT_TAIL_def SPD_LIST_HEAD_INIT_def)
  from tps_reach.Push [OF tps_reach.Start _ this] show ?thesis by (simp add: tps_new_def)
qed

theorem taskqueue_fifo_witness: "\<exists>rest. [(1, 10)] = ts_log demo_queue @ rest"
  using taskqueue_fifo [OF demo_queue_reach] by blast

text \<open>
  C8: a worker that waits without having been woken waits for good reason:
  the queue is empty and has not been stopped. So no push and no stop is overlooked.
\<close>

theorem taskqueue_no_lost_wakeup:
  assumes "tps_reach ps st" "ts_pc st = AtWait False"
  shows "SPD_LIST_EMPTY (fst (tps_queue (ts_tq st))) \<and> tps_taskqueue_depth (Some (ts_tq st)) = 0 \<and>
     poll_thread_run (ts_tq st) \<and> ts_log st = ps"
proof -
  obtain xs where "tps_inv ps st xs" using reach_inv [OF assms(1)] by blast
  with assms(2) show ?thesis
    by (auto simp: tps_inv_def ll_rep_def is_list_Nil SPD_LIST_EMPTY_def tps_taskqueue_depth_def)
qed

theorem taskqueue_no_lost_wakeup_witness:
  "SPD_LIST_EMPTY (fst (tps_queue (ts_tq (tps_new\<lparr>ts_pc := AtWait False\<rparr>)))) \<and> ts_log (tps_new\<lparr>ts_pc := AtWait False\<rparr>) = []"
proof -
  have "tps_work_thread tps_new = Some (tps_new\<lparr>ts_pc := AtLock\<rparr>)"
    "tps_work_thread (tps_new\<lparr>ts_pc := AtLock\<rparr>) = Some (tps_new\<lparr>ts_pc := AtWait False\<rparr>)"
    by (simp_all add: tps_work_thread_def tps_new_def tps_taskqueue_depth_def Let_def)
  then have "tps_reach [] (tps_new\<lparr>ts_pc := AtWait False\<rparr>)"
    by (blast intro: tps_reach.intros)
  from taskqueue_no_lost_wakeup [OF this] show ?thesis by simp
qed

text \<open>
  C13: once the queue is stopped the worker returns on its own, so that
  \<open>pthread_join\<close> in \<open>tps_taskqueue_destroy\<close> ends: it executes at most the task it has in
  hand, then frees what is still linked. The join then goes on, and when the queue is gone no task
  and no statistics are left allocated. With \<open>n\<close> tasks linked at most \<open>n + 5\<close> of its steps
  are left.
\<close>

theorem taskqueue_stop_returns:
  assumes "tps_reach ps st" "ts_pc st \<noteq> Returned"
  shows "\<exists>n st'. int n \<le> tps_queue_size (ts_tq st) + 5 \<and> work_n n (tps_taskqueue_destroy st) = Some st' \<and>
     ts_pc st' = Returned \<and> lh_first (fst (tps_queue (ts_tq st'))) = None \<and>
     (\<exists>st''. tps_taskqueue_join st' = Some st'' \<and> ts_tasks st'' = (\<lambda>_. None) \<and> tq_stats (ts_tq st'') = None)"
proof -
  let ?st = "tps_taskqueue_destroy st"
  obtain xs where i: "tps_inv ps st xs" using reach_inv [OF assms(1)] by blast
  have s: "\<not> poll_thread_run (ts_tq ?st)" "ts_pc ?st \<noteq> Returned"
    using assms(2) by (auto simp: tps_taskqueue_destroy_def spd_cond_signal_def split: tps_pc.splits)
  from stopped_reaches_drain [OF stop_inv [OF i] s] obtain n st1 xs1 where
    n: "n \<le> to_drain (ts_pc ?st)" "work_n n ?st = Some st1" "tps_inv ps st1 xs1" "length xs1 \<le> length xs" "ts_pc st1 = AtDrain"
    by blast
  obtain st' where "work_n (Suc (length xs1)) st1 = Some st'" "ts_pc st' = Returned"
    "lh_first (fst (tps_queue (ts_tq st'))) = None" "ts_tasks st' = (\<lambda>_. None)"
    using drain_returns [OF n(3,5)] by blast
  moreover have "to_drain (ts_pc ?st) \<le> 4" by (cases "ts_pc ?st") auto
  moreover have "int (length xs) = tps_queue_size (ts_tq st)" using i by (simp add: tps_inv_def)
  ultimately show ?thesis
    using n work_n_add [OF n(2), of "Suc (length xs1)"]
    by (intro exI [of _ "n + Suc (length xs1)"] exI [of _ st']) (auto simp: tps_taskqueue_join_def)
qed

theorem taskqueue_stop_returns_witness:
  "\<exists>n st'. int n \<le> 6 \<and> work_n n (tps_taskqueue_destroy demo_queue) = Some st' \<and> ts_pc st' = Returned"
proof -
  have "tps_queue_size (ts_tq demo_queue) = 1" "ts_pc demo_queue \<noteq> Returned" by code_simp+
  with taskqueue_stop_returns [OF demo_queue_reach] show ?thesis by auto
qed

section \<open>The registry\<close>

text \<open>
  The container of all queues, their \<open>name\<close> fields, and the queues. The callbacks of the container
  read names through pointers; writing a name field therefore gives the container the callbacks
  for the new names.
\<close>

definition TPS_MAX_BUCKETS :: int where "TPS_MAX_BUCKETS = 7"
definition TPS_REF_DEFAULT :: oflags where "TPS_REF_DEFAULT = 0"
definition TPS_REF_IF_EXISTS :: oflags where "TPS_REF_IF_EXISTS = 1"

record tps_registry =
  tr_world :: world
  tr_singletons :: addr
  tr_names :: "addr \<Rightarrow> string"
  tr_queues :: "addr \<Rightarrow> tps_state option"

definition tps_hash_cb :: "(addr \<Rightarrow> string) \<Rightarrow> addr \<Rightarrow> oflags \<Rightarrow> int" where
  "tps_hash_cb names tps flags = spd_str_case_hash (names tps)"

definition tps_cmp_cb :: "(addr \<Rightarrow> string) \<Rightarrow> addr \<Rightarrow> addr \<Rightarrow> oflags \<Rightarrow> oflags" where
  "tps_cmp_cb names tps arg flags = (if strcasecmp (names tps) (names arg) = 0 then CMP_MATCH OR CMP_STOP else 0)"

definition tps_callbacks :: "(addr \<Rightarrow> string) \<Rightarrow> obj_container \<Rightarrow> obj_container" where
  "tps_callbacks names ct = ct\<lparr>c_hash_fn := tps_hash_cb names, c_cmp_fn := tps_cmp_cb names\<rparr>"

definition tps_set_name :: "addr \<Rightarrow> string \<Rightarrow> tps_registry \<Rightarrow> tps_registry option" where
  "tps_set_name a name r =
     (let names = (tr_names r)(a := name); c = tr_singletons r
      in map_option (\<lambda>ct. r\<lparr>tr_names := names, tr_world := put_container c (tps_callbacks names ct) (tr_world r)\<rparr>)
           (get_container (tr_world r) c))"

definition spd_taskqueue_init :: "world \<Rightarrow> int \<times> tps_registry" where
  "spd_taskqueue_init w =
     (let names = (\<lambda>_. []);
          (c, w) = obj_container_alloc TPS_MAX_BUCKETS (Some (tps_hash_cb names)) (tps_cmp_cb names) w
      in (0, \<lparr>tr_world = w, tr_singletons = c, tr_names = names, tr_queues = \<lambda>_. None\<rparr>))"

definition spd_taskqueue_name :: "tps_registry \<Rightarrow> addr option \<Rightarrow> string option" where
  "spd_taskqueue_name r tps = map_option (tr_names r) tps"

text \<open>
  \<open>sz\<close> is the size of a queue and \<open>tmp\<close> the address of the local \<open>tmp_tps\<close>. Allocations and the creation of the thread
  succeed. 0 is the number of the destructor \<open>tps_taskqueue_destroy\<close>.
\<close>

definition spd_taskqueue_get ::
  "nat \<Rightarrow> ref_fn \<Rightarrow> addr \<Rightarrow> string option \<Rightarrow> oflags \<Rightarrow> tps_registry \<Rightarrow> (addr option \<times> tps_registry) option" where
  "spd_taskqueue_get sz rf tmp name option r =
     (if spd_strlen_zero name then Some (None, r)
      else case tps_set_name tmp (the name) r of
             None \<Rightarrow> None
           | Some r \<Rightarrow>
      (case obj_find rf (tr_singletons r) tmp OBJ_POINTER (tr_world r) of
         None \<Rightarrow> None
       | Some (RObj p, w) \<Rightarrow> Some (Some p, r\<lparr>tr_world := w\<rparr>)
       | Some (_, w) \<Rightarrow>
           if option AND TPS_REF_IF_EXISTS \<noteq> 0 then Some (None, r\<lparr>tr_world := w\<rparr>)
           else
             (case internal_obj_alloc sz (UserDestructor 0) None w of
                (p, w) \<Rightarrow>
             (case tps_set_name p (the name) (r\<lparr>tr_world := w\<rparr>) of
                None \<Rightarrow> None
              | Some r \<Rightarrow>
             (case obj_link rf (tr_singletons r) (Some p) (tr_world r) of
                None \<Rightarrow> None
              | Some (True, w) \<Rightarrow> Some (Some p, r\<lparr>tr_world := w, tr_queues := (tr_queues r)(p := Some tps_new)\<rparr>)
              | Some (False, w) \<Rightarrow> map_option (\<lambda>(_, w). (None, r\<lparr>tr_world := w\<rparr>)) (rf p (- 1) w))))))"

text \<open>A queue whose object is destroyed is stopped, waited for and freed.\<close>

definition spd_taskqueue_unreference :: "ref_fn \<Rightarrow> addr option \<Rightarrow> tps_registry \<Rightarrow> tps_registry option" where
  "spd_taskqueue_unreference rf tps r =
     (case tps of
        None \<Rightarrow> Some r
      | Some p \<Rightarrow>
          Option.bind (obj_unlink rf (tr_singletons r) (Some p) 0 (tr_world r))
            (\<lambda>w. Option.bind (rf p (- 1) w)
              (\<lambda>(old, w). Option.bind
                 (if old > 1 then map_option snd (obj_link rf (tr_singletons r) (Some p) w) else Some w)
                 (\<lambda>w. Some (r\<lparr>tr_world := w,
                              tr_queues := (if w_objs w p = None then (tr_queues r)(p := None) else tr_queues r)\<rparr>)))))"

section \<open>Searches by name\<close>

definition same_name :: "string \<Rightarrow> string \<Rightarrow> bool" where
  "same_name a b \<longleftrightarrow> strcasecmp a b = 0"

interpretation tps_key: spd_keyed spd_str_case_hash same_name
  by unfold_locales (auto simp: same_name_def intro: spd_str_case_hash_cong)

lemma scan_no_match:
  "\<forall>e \<in> set es. cb (be_obj e) fl w = Some (0, w) \<Longrightarrow> bucket_scan rf cb fl c i None es w = Some (None, False, w)"
  by (induction es) auto

lemma scan_first_match:
  assumes "\<forall>e \<in> set us. cb (be_obj e) OBJ_POINTER w = Some (0, w)"
    and "cb (be_obj e) OBJ_POINTER w = Some (CMP_MATCH OR CMP_STOP, w)" "rf (be_obj e) 1 w = Some (n, w')"
  shows "bucket_scan rf cb OBJ_POINTER c i None (us @ e # vs) w = Some (Some (be_obj e), True, w')"
  using assms by (induction us) (auto simp: oflag_defs Let_def)

lemma callback_loop_none:
  assumes "flags AND OBJ_CONTINUE = 0" "get_container w c = Some ct"
    and "\<forall>j. i \<le> j \<and> j < lst \<longrightarrow>
           bucket_scan rf cb flags c (nat j) None (buckets ct ! nat j) w = Some (None, False, w)"
  shows "callback_loop rf cb flags c None start i lst w = Some (None, w)"
  using assms
proof (induction "nat (lst - i)" arbitrary: i)
  case 0
  then show ?case by (subst callback_loop.simps) simp
next
  case (Suc m)
  then have "i < lst" by simp
  moreover have "callback_loop rf cb flags c None start (i + 1) lst w = Some (None, w)"
    using Suc.prems Suc(2) by (intro Suc(1)) auto
  ultimately show ?case using Suc.prems by (subst callback_loop.simps) (auto simp: Let_def)
qed

lemma named_callback:
  fixes ct :: obj_container and names :: "addr \<Rightarrow> string" and tmp :: addr and w :: world
  defines "cb \<equiv> (\<lambda>a (_::oflags) w::world. Some (tps_cmp_cb names a tmp OBJ_POINTER, w))"
  assumes ct: "get_container w c = Some ct" "cont_ok ct" "c_hash_fn ct = tps_hash_cb names"
    and bucket: "bucket_scan rf cb OBJ_POINTER c (hash_ix ct tmp) None (buckets ct ! hash_ix ct tmp) w = Some (Some a, True, w')"
  shows "obj_callback rf c OBJ_POINTER (Some cb) tmp w = Some (RObj a, w')"
proof -
  let ?h = "c_hash_fn ct tmp OBJ_POINTER" and ?n = "n_buckets ct" and ?k = "int (hash_ix ct tmp)"
  let ?i0 = "c_mod ?h ?n"
  have n: "0 < ?n" using ct(2) by (simp add: cont_ok_def)
  have k: "?k = \<bar>?h\<bar> mod ?n" using n by (simp add: hash_ix_def)
  have kn: "?k < ?n" using n by (simp add: k)
  have b: "tps_key.bucketed (\<lambda>h. nat (\<bar>h\<bar> mod ?n)) (\<lambda>e. names (be_obj e)) (buckets ct)"
    using ct(2,3) by (auto simp: tps_key.bucketed_def cont_ok_def hash_ix_def tps_hash_cb_def)
  have ix: "hash_ix ct tmp = nat (\<bar>spd_str_case_hash (names tmp)\<bar> mod ?n)"
    by (simp add: hash_ix_def ct(3) tps_hash_cb_def)
  have others: "bucket_scan rf cb OBJ_POINTER c (nat j) None (buckets ct ! nat j) w = Some (None, False, w)"
    if "0 \<le> j" "j < ?k" for j
  proof (rule scan_no_match, intro ballI)
    fix e assume e: "e \<in> set (buckets ct ! nat j)"
    have "nat j < length (buckets ct)" using that kn ct(2) by (simp add: cont_ok_def)
    have "\<not> same_name (names (be_obj e)) (names tmp)"
    proof
      assume "same_name (names (be_obj e)) (names tmp)"
      from tps_key.bucket_of_match [OF b \<open>nat j < _\<close> e this] ix have "nat j = hash_ix ct tmp" by metis
      with that show False by linarith
    qed
    then show "cb (be_obj e) OBJ_POINTER w = Some (0, w)" by (simp add: cb_def tps_cmp_cb_def same_name_def)
  qed
  have fl: "OBJ_POINTER AND OBJ_CONTINUE = 0" "OBJ_POINTER AND (OBJ_MULTIPLE OR OBJ_NODATA) \<noteq> OBJ_MULTIPLE" "OBJ_POINTER \<noteq> 0"
    by (simp_all add: oflag_defs)
  have sc: "bucket_scan rf cb OBJ_POINTER c (nat ?k) None (buckets ct ! nat ?k) w = Some (Some a, True, w')"
    using bucket by simp
  have neg: "callback_loop rf cb OBJ_POINTER c None 0 0 ?n w = Some (Some a, w')"
    by (rule callback_loop_first [OF fl(1) _ _ kn ct(1) _ sc]) (use others in auto)
  have pos: "callback_loop rf cb OBJ_POINTER c None ?k ?k (?k + 1) w = Some (Some a, w')"
    by (rule callback_loop_first [OF fl(1) _ _ _ ct(1) _ sc]) auto
  show ?thesis
    using c_mod_abs [OF n, of ?h] neg pos k fl ct(1) n
    by (cases "?i0 < 0") (auto simp: obj_callback_def internal_obj_callback_def)
qed

lemma named_callback_none:
  fixes ct :: obj_container and names :: "addr \<Rightarrow> string" and tmp :: addr and w :: world
  assumes ct: "get_container w c = Some ct" "cont_ok ct"
    and none: "\<forall>a \<in> set (cobjs ct). \<not> same_name (names a) (names tmp)"
  shows "obj_callback rf c OBJ_POINTER (Some (\<lambda>a _ w. Some (tps_cmp_cb names a tmp OBJ_POINTER, w))) tmp w = Some (RNull, w)"
proof -
  let ?cb = "\<lambda>a (_::oflags) w::world. Some (tps_cmp_cb names a tmp OBJ_POINTER, w)"
  let ?h = "c_hash_fn ct tmp OBJ_POINTER" and ?n = "n_buckets ct"
  have n: "0 < ?n" using ct(2) by (simp add: cont_ok_def)
  have scans: "bucket_scan rf ?cb OBJ_POINTER c (nat j) None (buckets ct ! nat j) w = Some (None, False, w)"
    if "0 \<le> j" "j < ?n" for j
  proof (rule scan_no_match, intro ballI)
    fix e assume e: "e \<in> set (buckets ct ! nat j)"
    have "nat j < length (buckets ct)" using that ct(2) by (simp add: cont_ok_def)
    with e have "be_obj e \<in> set (cobjs ct)"
      by (auto simp: cobjs_def entries_def) (meson image_eqI UN_I nth_mem)
    with none show "?cb (be_obj e) OBJ_POINTER w = Some (0, w)"
      by (auto simp: tps_cmp_cb_def same_name_def)
  qed
  have m: "c_mod ?h ?n < ?n" using n c_mod_abs [OF n, of ?h] by (smt (verit) pos_mod_bound)
  have "callback_loop rf ?cb OBJ_POINTER c None i i lst w = Some (None, w)" if "0 \<le> i" "lst \<le> ?n" for i lst
    by (rule callback_loop_none [OF _ ct(1)]) (use scans that in \<open>auto simp: oflag_defs\<close>)
  then show ?thesis
    using m ct(1) n by (auto simp: obj_callback_def internal_obj_callback_def oflag_defs Let_def)
qed

section \<open>The invariant of the registry\<close>

text \<open>
  \<open>reg_ct r ct\<close>: \<open>ct\<close> is the container, with the callbacks for the names. Every queue in it is a
  live plain object, linked once, and no two have the same name.
\<close>

definition reg_ct :: "tps_registry \<Rightarrow> obj_container \<Rightarrow> bool" where
  "reg_ct r ct \<longleftrightarrow>
     get_container (tr_world r) (tr_singletons r) = Some ct \<and> cont_ok ct \<and>
     c_hash_fn ct = tps_hash_cb (tr_names r) \<and> c_cmp_fn ct = tps_cmp_cb (tr_names r) \<and>
     (\<forall>a. w_objs (tr_world r) a \<noteq> None \<longrightarrow> a < w_next (tr_world r)) \<and>
     distinct (cobjs ct) \<and>
     (\<forall>a \<in> set (cobjs ct). a \<noteq> tr_singletons r \<and>
        (\<exists>p. w_objs (tr_world r) a = Some p \<and> 0 < ref_counter p \<and> destructor_fn p = UserDestructor 0)) \<and>
     (\<forall>a \<in> set (cobjs ct). \<forall>b \<in> set (cobjs ct). same_name (tr_names r a) (tr_names r b) \<longrightarrow> a = b) \<and>
     (\<forall>a \<in> set (cobjs ct). - (2 ^ 31) < spd_str_case_hash (tr_names r a))"

definition refs_of :: "tps_registry \<Rightarrow> addr \<Rightarrow> int" where
  "refs_of r a = (case w_objs (tr_world r) a of None \<Rightarrow> 0 | Some p \<Rightarrow> ref_counter p)"

lemma tps_callbacks_simps [simp]:
  "entries (tps_callbacks nm ct) = entries ct" "cobjs (tps_callbacks nm ct) = cobjs ct"
  "buckets (tps_callbacks nm ct) = buckets ct" "n_buckets (tps_callbacks nm ct) = n_buckets ct"
  "version (tps_callbacks nm ct) = version ct" "elements (tps_callbacks nm ct) = elements ct"
  "c_hash_fn (tps_callbacks nm ct) = tps_hash_cb nm" "c_cmp_fn (tps_callbacks nm ct) = tps_cmp_cb nm"
  by (simp_all add: tps_callbacks_def entries_def cobjs_def)

lemma callbacks_ok:
  assumes "cont_ok ct" "c_hash_fn ct = tps_hash_cb nm" "\<forall>a \<in> set (cobjs ct). nm' a = nm a"
  shows "cont_ok (tps_callbacks nm' ct)"
proof -
  have "hash_ix (tps_callbacks nm' ct) (be_obj e) = i"
    if "i < length (buckets ct)" "e \<in> set (buckets ct ! i)" for i e
  proof -
    have "be_obj e \<in> set (cobjs ct)" using that by (auto simp: cobjs_def entries_def) (meson image_eqI UN_I nth_mem)
    then have "hash_ix (tps_callbacks nm' ct) (be_obj e) = hash_ix ct (be_obj e)"
      using assms(2,3) by (simp add: hash_ix_def tps_hash_cb_def)
    with that assms(1) show ?thesis by (simp add: cont_ok_def)
  qed
  with assms(1) show ?thesis by (simp add: cont_ok_def)
qed

lemma set_name_result:
  assumes "reg_ct r ct" "a \<notin> set (cobjs ct)"
  shows "\<exists>r'. tps_set_name a name r = Some r' \<and> reg_ct r' (tps_callbacks ((tr_names r)(a := name)) ct) \<and>
     tr_names r' = (tr_names r)(a := name) \<and> tr_singletons r' = tr_singletons r \<and> tr_queues r' = tr_queues r \<and>
     w_next (tr_world r') = w_next (tr_world r) \<and>
     (\<forall>b. b \<noteq> tr_singletons r \<longrightarrow> w_objs (tr_world r') b = w_objs (tr_world r) b)"
proof -
  let ?nm = "(tr_names r)(a := name)" and ?c = "tr_singletons r"
  have g: "get_container (tr_world r) ?c = Some ct" using assms(1) by (simp add: reg_ct_def)
  have "\<forall>b \<in> set (cobjs ct). ?nm b = tr_names r b" using assms(2) by auto
  moreover from this have "cont_ok (tps_callbacks ?nm ct)"
    using assms(1) by (intro callbacks_ok) (auto simp: reg_ct_def)
  moreover have "w_objs (put_container ?c ct' (tr_world r)) b \<noteq> None \<longleftrightarrow> w_objs (tr_world r) b \<noteq> None" for b ct'
    by (auto simp: put_container_def)
  ultimately show ?thesis
    using assms g get_container_live [OF g] by (simp add: tps_set_name_def reg_ct_def Let_def)
qed

lemma bucket_entry_in: "cont_ok ct \<Longrightarrow> x \<in> set (buckets ct ! hash_ix ct k) \<Longrightarrow> x \<in> set (entries ct)"
  using hash_ix_less [of ct k] nth_mem by (fastforce simp: entries_def)

text \<open>Looking up the name written at \<open>tmp\<close>.\<close>

lemma find_named:
  assumes "reg_ct r ct" "a \<in> set (cobjs ct)" "same_name (tr_names r a) (tr_names r tmp)"
  shows "\<exists>w'. obj_find (obj_ref (Suc n)) (tr_singletons r) tmp OBJ_POINTER (tr_world r) = Some (RObj a, w') \<and>
     reg_ct (r\<lparr>tr_world := w'\<rparr>) ct \<and> refs_of (r\<lparr>tr_world := w'\<rparr>) a = refs_of r a + 1 \<and>
     (\<forall>b. b \<noteq> a \<longrightarrow> w_objs w' b = w_objs (tr_world r) b)"
proof -
  let ?w = "tr_world r" and ?c = "tr_singletons r" and ?nm = "tr_names r"
  let ?cb = "\<lambda>a (_::oflags) w::world. Some (tps_cmp_cb ?nm a tmp OBJ_POINTER, w)"
  have g: "get_container ?w ?c = Some ct" "cont_ok ct" "c_hash_fn ct = tps_hash_cb ?nm" "c_cmp_fn ct = tps_cmp_cb ?nm"
    using assms(1) by (auto simp: reg_ct_def)
  obtain p where p: "w_objs ?w a = Some p" "0 < ref_counter p" "a \<noteq> ?c" using assms(1,2) by (auto simp: reg_ct_def)
  have ref: "obj_ref (Suc n) a 1 ?w = Some (ref_counter p, set_ref a p (ref_counter p + 1) ?w)"
    using p by (intro obj_ref_live) auto
  obtain e where e: "e \<in> set (entries ct)" "be_obj e = a" using assms(2) by (auto simp: cobjs_def)
  then obtain j where j: "j < length (buckets ct)" "e \<in> set (buckets ct ! j)"
    by (auto simp: entries_def in_set_conv_nth [of _ "buckets ct"])
  have "hash_ix ct a = j" using j e g(2) by (auto simp: cont_ok_def)
  moreover have "hash_ix ct a = hash_ix ct tmp"
    using tps_key.same_hash [OF assms(3)] by (simp add: hash_ix_def g(3) tps_hash_cb_def)
  ultimately have "e \<in> set (buckets ct ! hash_ix ct tmp)" using j by simp
  then obtain us vs where s: "buckets ct ! hash_ix ct tmp = us @ e # vs" "e \<notin> set us" by (meson split_list_first)
  have unm: "be_obj x \<noteq> a" if "x \<in> set us" for x
  proof
    assume "be_obj x = a"
    have "x \<in> set (entries ct)"
      using that s bucket_entry_in [OF g(2), of x tmp] by simp
    with e \<open>be_obj x = a\<close> assms(1) have "x = e" by (auto simp: reg_ct_def cobjs_def distinct_map inj_on_def)
    with that s show False by simp
  qed
  have "\<not> same_name (?nm (be_obj x)) (?nm tmp)" if "x \<in> set us" for x
  proof
    assume sx: "same_name (?nm (be_obj x)) (?nm tmp)"
    have "be_obj x \<in> set (cobjs ct)"
      using that s bucket_entry_in [OF g(2), of x tmp] by (auto simp: cobjs_def)
    moreover have "same_name (?nm (be_obj x)) (?nm a)" using tps_key.same_class [OF sx assms(3)] .
    ultimately have "be_obj x = a" using assms(1,2) by (auto simp: reg_ct_def)
    with unm [OF that] show False by simp
  qed
  then have "bucket_scan (obj_ref (Suc n)) ?cb OBJ_POINTER ?c (hash_ix ct tmp) None (buckets ct ! hash_ix ct tmp) ?w =
      Some (Some a, True, set_ref a p (ref_counter p + 1) ?w)"
    unfolding s(1) e(2) [symmetric] using ref assms(3) e(2)
    by (intro scan_first_match) (auto simp: tps_cmp_cb_def same_name_def simp del: obj_ref.simps)
  from named_callback [OF g(1-3) this]
  have "obj_find (obj_ref (Suc n)) ?c tmp OBJ_POINTER ?w = Some (RObj a, set_ref a p (ref_counter p + 1) ?w)"
    using g by (simp add: obj_find_def tps_cmp_cb_def)
  moreover have "reg_ct (r\<lparr>tr_world := set_ref a p (ref_counter p + 1) ?w\<rparr>) ct"
    using assms(1) p by (auto simp: reg_ct_def)
  ultimately show ?thesis using p by (auto simp: refs_of_def)
qed

lemma find_unnamed:
  assumes "reg_ct r ct" "\<forall>a \<in> set (cobjs ct). \<not> same_name (tr_names r a) (tr_names r tmp)"
  shows "obj_find rf (tr_singletons r) tmp OBJ_POINTER (tr_world r) = Some (RNull, tr_world r)"
proof -
  have g: "get_container (tr_world r) (tr_singletons r) = Some ct" "cont_ok ct" "c_cmp_fn ct = tps_cmp_cb (tr_names r)"
    using assms(1) by (auto simp: reg_ct_def)
  from named_callback_none [OF g(1,2) assms(2), of rf] g show ?thesis
    by (simp add: obj_find_def tps_cmp_cb_def)
qed

lemma linked_cobjs: "cont_ok ct \<Longrightarrow> mset (cobjs (linked ct a)) = add_mset a (mset (cobjs ct))"
  by (simp add: cobjs_mset linked_entries)

lemma linked_callbacks [simp]: "c_hash_fn (linked ct a) = c_hash_fn ct" "c_cmp_fn (linked ct a) = c_cmp_fn ct"
  by (simp_all add: linked_def)

text \<open>Linking a fresh object whose name is new.\<close>

lemma link_new:
  assumes "reg_ct r ct" "a \<notin> set (cobjs ct)" "w_objs (tr_world r) a = Some p" "0 < ref_counter p"
    and "destructor_fn p = UserDestructor 0" "a \<noteq> tr_singletons r"
    and "\<forall>b \<in> set (cobjs ct). \<not> same_name (tr_names r b) (tr_names r a)"
    and "- (2 ^ 31) < spd_str_case_hash (tr_names r a)"
  shows "\<exists>w'. obj_link (obj_ref (Suc n)) (tr_singletons r) (Some a) (tr_world r) = Some (True, w') \<and>
     reg_ct (r\<lparr>tr_world := w'\<rparr>) (linked ct a) \<and> refs_of (r\<lparr>tr_world := w'\<rparr>) a = ref_counter p + 1 \<and>
     (\<forall>b. b \<noteq> tr_singletons r \<longrightarrow> b \<noteq> a \<longrightarrow> w_objs w' b = w_objs (tr_world r) b)"
proof -
  let ?w = "tr_world r" and ?c = "tr_singletons r"
  let ?w' = "set_ref a p (ref_counter p + 1) (put_container ?c (linked ct a) ?w)"
  have g: "get_container ?w ?c = Some ct" "cont_ok ct" "c_hash_fn ct = tps_hash_cb (tr_names r)"
    using assms(1) by (auto simp: reg_ct_def)
  have l: "obj_link (obj_ref (Suc n)) ?c (Some a) ?w = Some (True, ?w')"
    using obj_link_result [OF g(1,2) assms(3) _ assms(6), of n] assms(4,8) g(3)
    by (simp add: tps_hash_cb_def del: obj_ref.simps)
  have m: "mset (cobjs (linked ct a)) = add_mset a (mset (cobjs ct))" by (rule linked_cobjs [OF g(2)])
  have s: "set (cobjs (linked ct a)) = insert a (set (cobjs ct))"
    using arg_cong [OF m, of set_mset] by simp
  have d: "distinct (cobjs (linked ct a))"
    using distinct_mset_map [OF m, of "\<lambda>x. x"] assms(1,2) by (simp add: reg_ct_def)
  have live: "w_objs ?w' b \<noteq> None \<longleftrightarrow> w_objs ?w b \<noteq> None" for b
    using assms(3) by (auto simp: put_container_def)
  have "reg_ct (r\<lparr>tr_world := ?w'\<rparr>) (linked ct a)"
    using assms(1,2,4-8) g get_container_live [OF g(1)] linked_ok [OF g(2), of a] d live assms(3)
    by (auto simp: reg_ct_def s dest: tps_key.same_sym)
  with l show ?thesis by (auto simp: refs_of_def)
qed

lemma alloc_reg:
  assumes "reg_ct r ct"
  shows "\<exists>p w'. internal_obj_alloc sz (UserDestructor 0) None (tr_world r) = (w_next (tr_world r), w') \<and>
     w_next (tr_world r) \<notin> set (cobjs ct) \<and> w_next (tr_world r) \<noteq> tr_singletons r \<and>
     w_objs w' = (w_objs (tr_world r))(w_next (tr_world r) := Some p) \<and> ref_counter p = 1 \<and>
     destructor_fn p = UserDestructor 0 \<and> reg_ct (r\<lparr>tr_world := w'\<rparr>) ct"
proof -
  let ?w = "tr_world r" and ?c = "tr_singletons r"
  define p :: priv_data where "p = \<lparr>ref_counter = 1, destructor_fn = UserDestructor 0, data_size = (if sz < 8 then 8 else sz), o_cont = None\<rparr>"
  let ?w' = "?w\<lparr>w_objs := (w_objs ?w)(w_next ?w := Some p), w_next := w_next ?w + 1\<rparr>"
  have none: "w_objs ?w (w_next ?w) = None" using assms unfolding reg_ct_def by (metis less_irrefl option.distinct(1))
  have live: "w_objs ?w ?c \<noteq> None" using assms by (intro get_container_live [of _ _ ct]) (simp add: reg_ct_def)
  then have c: "w_next ?w \<noteq> ?c" using none by metis
  have "w_next ?w \<notin> set (cobjs ct)" using assms none by (auto simp: reg_ct_def)
  moreover have "reg_ct (r\<lparr>tr_world := ?w'\<rparr>) ct"
    using assms c by (auto simp: reg_ct_def get_container_def p_def less_Suc_eq)
  ultimately show ?thesis using c
    by (intro exI [of _ p] exI [of _ ?w']) (simp add: internal_obj_alloc_def p_def Let_def)
qed

text \<open>A queue has the name: it is returned. No queue has it and only existing ones are wanted: \<open>NULL\<close>.\<close>

lemma get_finds:
  assumes "reg_ct r ct" "name \<noteq> []" "tmp \<notin> set (cobjs ct)"
    and "a \<in> set (cobjs ct)" "same_name (tr_names r a) name"
  shows "\<exists>r' ct'. spd_taskqueue_get sz (obj_ref (Suc n)) tmp (Some name) option r = Some (Some a, r') \<and> reg_ct r' ct' \<and>
     cobjs ct' = cobjs ct \<and> same_name (tr_names r' a) name \<and> refs_of r' a = refs_of r a + 1"
proof -
  obtain r1 where r1: "tps_set_name tmp name r = Some r1" "reg_ct r1 (tps_callbacks ((tr_names r)(tmp := name)) ct)"
    "tr_names r1 = (tr_names r)(tmp := name)" "tr_singletons r1 = tr_singletons r"
    "\<forall>b. b \<noteq> tr_singletons r \<longrightarrow> w_objs (tr_world r1) b = w_objs (tr_world r) b"
    using set_name_result [OF assms(1,3), of name] by blast
  define ct1 where "ct1 = tps_callbacks ((tr_names r)(tmp := name)) ct"
  have c1: "cobjs ct1 = cobjs ct" by (simp add: ct1_def)
  note ok1 = r1(2) [folded ct1_def]
  have nm: "tr_names r1 a = tr_names r a" using assms(3,4) r1(3) by auto
  with assms(5) r1(3) have "same_name (tr_names r1 a) (tr_names r1 tmp)" by simp
  from find_named [OF ok1 _ this, of n] assms(4) c1 obtain w' where
    w': "obj_find (obj_ref (Suc n)) (tr_singletons r) tmp OBJ_POINTER (tr_world r1) = Some (RObj a, w')"
    "reg_ct (r1\<lparr>tr_world := w'\<rparr>) ct1" "refs_of (r1\<lparr>tr_world := w'\<rparr>) a = refs_of r1 a + 1"
    using r1(4) by auto
  have "refs_of r1 a = refs_of r a"
    using r1(5) assms(1,4) by (auto simp: refs_of_def reg_ct_def)
  with w' nm r1(1,4) assms(2,5) c1 show ?thesis
    by (intro exI [of _ "r1\<lparr>tr_world := w'\<rparr>"] exI [of _ ct1])
      (auto simp: spd_taskqueue_get_def spd_strlen_zero_def simp del: obj_ref.simps)
qed

lemma get_nothing:
  assumes "reg_ct r ct" "name \<noteq> []" "tmp \<notin> set (cobjs ct)"
    and "\<forall>a \<in> set (cobjs ct). \<not> same_name (tr_names r a) name" "option AND TPS_REF_IF_EXISTS \<noteq> 0"
  shows "\<exists>r' ct'. spd_taskqueue_get sz (obj_ref (Suc n)) tmp (Some name) option r = Some (None, r') \<and> reg_ct r' ct' \<and>
     cobjs ct' = cobjs ct"
proof -
  obtain r1 where r1: "tps_set_name tmp name r = Some r1" "reg_ct r1 (tps_callbacks ((tr_names r)(tmp := name)) ct)"
    "tr_names r1 = (tr_names r)(tmp := name)" "tr_singletons r1 = tr_singletons r"
    using set_name_result [OF assms(1,3), of name] by blast
  have "\<forall>a \<in> set (cobjs (tps_callbacks ((tr_names r)(tmp := name)) ct)). \<not> same_name (tr_names r1 a) (tr_names r1 tmp)"
    using assms(3,4) r1(3) by auto
  with find_unnamed [OF r1(2)] r1 assms(2,5) show ?thesis
    by (intro exI [of _ r1] exI [of _ "tps_callbacks ((tr_names r)(tmp := name)) ct"])
      (auto simp: spd_taskqueue_get_def spd_strlen_zero_def simp del: obj_ref.simps)
qed

text \<open>No queue has the name: one is created and registered.\<close>

lemma get_creates:
  assumes "reg_ct r ct" "name \<noteq> []" "tmp \<notin> set (cobjs ct)" "- (2 ^ 31) < spd_str_case_hash name"
    and "\<forall>a \<in> set (cobjs ct). \<not> same_name (tr_names r a) name" "option AND TPS_REF_IF_EXISTS = 0"
  shows "\<exists>a r' ct'. spd_taskqueue_get sz (obj_ref (Suc n)) tmp (Some name) option r = Some (Some a, r') \<and> reg_ct r' ct' \<and>
     tr_names r' a = name \<and> mset (cobjs ct') = add_mset a (mset (cobjs ct)) \<and> refs_of r' a = 2 \<and>
     tr_queues r' a = Some tps_new"
proof -
  obtain r1 where r1: "tps_set_name tmp name r = Some r1" "reg_ct r1 (tps_callbacks ((tr_names r)(tmp := name)) ct)"
    "tr_names r1 = (tr_names r)(tmp := name)" "tr_singletons r1 = tr_singletons r"
    using set_name_result [OF assms(1,3), of name] by blast
  define ct1 where "ct1 = tps_callbacks ((tr_names r)(tmp := name)) ct"
  have c1: "cobjs ct1 = cobjs ct" by (simp add: ct1_def)
  note ok1 = r1(2) [folded ct1_def]
  have nm: "tr_names r1 a = tr_names r a" if "a \<in> set (cobjs ct)" for a using that assms(3) r1(3) by auto
  with assms(5) r1(3) c1 have nf: "\<forall>a \<in> set (cobjs ct1). \<not> same_name (tr_names r1 a) (tr_names r1 tmp)" by simp
  note find = find_unnamed [OF ok1 nf, of "obj_ref (Suc n)"]
  obtain p w2 where p: "internal_obj_alloc sz (UserDestructor 0) None (tr_world r1) = (w_next (tr_world r1), w2)"
    "w_next (tr_world r1) \<notin> set (cobjs ct1)" "w_next (tr_world r1) \<noteq> tr_singletons r1"
    "w_objs w2 = (w_objs (tr_world r1))(w_next (tr_world r1) := Some p)" "ref_counter p = 1"
    "destructor_fn p = UserDestructor 0" "reg_ct (r1\<lparr>tr_world := w2\<rparr>) ct1"
    using alloc_reg [OF ok1, of sz] by blast
  define a where "a = w_next (tr_world r1)"
  note p = p [folded a_def]
  obtain r2 where r2: "tps_set_name a name (r1\<lparr>tr_world := w2\<rparr>) = Some r2"
    "reg_ct r2 (tps_callbacks ((tr_names r1)(a := name)) ct1)" "tr_names r2 = (tr_names r1)(a := name)"
    "tr_singletons r2 = tr_singletons r1" "\<forall>b. b \<noteq> tr_singletons r1 \<longrightarrow> w_objs (tr_world r2) b = w_objs w2 b"
    using set_name_result [OF p(7,2), of name] by auto
  define ct2 where "ct2 = tps_callbacks ((tr_names r1)(a := name)) ct1"
  have c2: "cobjs ct2 = cobjs ct" by (simp add: ct2_def c1)
  have fresh: "a \<notin> set (cobjs ct2)" using p(2) c1 c2 by simp
  have new: "\<forall>b \<in> set (cobjs ct2). \<not> same_name (tr_names r2 b) (tr_names r2 a)"
    using assms(5) nm fresh by (auto simp: c2 r2(3))
  have live: "w_objs (tr_world r2) a = Some p" using r2(5) p(3,4) by simp
  have "- (2 ^ 31) < spd_str_case_hash (tr_names r2 a)" using assms(4) r2(3) by simp
  from link_new [OF r2(2) [folded ct2_def] fresh live _ p(6) _ new this, of n] p(3,5) r2(4) obtain w' where
    w': "obj_link (obj_ref (Suc n)) (tr_singletons r2) (Some a) (tr_world r2) = Some (True, w')"
    "reg_ct (r2\<lparr>tr_world := w'\<rparr>) (linked ct2 a)" "refs_of (r2\<lparr>tr_world := w'\<rparr>) a = 2"
    by auto
  have ok2: "cont_ok ct2" using r2(2) by (simp add: ct2_def reg_ct_def)
  let ?r = "r2\<lparr>tr_world := w', tr_queues := (tr_queues r2)(a := Some tps_new)\<rparr>"
  have "spd_taskqueue_get sz (obj_ref (Suc n)) tmp (Some name) option r = Some (Some a, ?r)"
    using find r1(1,4) p(1) r2(1) w'(1) assms(2,6)
    by (simp add: spd_taskqueue_get_def spd_strlen_zero_def a_def del: obj_ref.simps)
  moreover have "reg_ct ?r (linked ct2 a)" "refs_of ?r a = 2"
    using w'(2,3) by (simp_all add: reg_ct_def refs_of_def)
  moreover have "mset (cobjs (linked ct2 a)) = add_mset a (mset (cobjs ct))"
    using linked_cobjs [OF ok2, of a] c2 by simp
  ultimately show ?thesis using r2(3)
    by (intro exI [of _ a] exI [of _ ?r] exI [of _ "linked ct2 a"]) simp
qed

section \<open>Properties of the registry\<close>

text \<open>
  C12: the queue of a name is unique. \<open>spd_taskqueue_get\<close> returns the
  registered queue whose name equals the wanted one up to case, with one reference more; when
  there is none it returns \<open>NULL\<close> if asked to look only, and otherwise a new queue that is
  registered from then on, with one reference for the caller and one for the registry. The
  registry stays well formed.
\<close>

theorem taskqueue_get_singleton:
  assumes "reg_ct r ct" "name \<noteq> []" "tmp \<notin> set (cobjs ct)" "- (2 ^ 31) < spd_str_case_hash name"
  shows "\<exists>q r' ct'. spd_taskqueue_get sz (obj_ref (Suc n)) tmp (Some name) option r = Some (q, r') \<and> reg_ct r' ct' \<and>
     (case q of
        None \<Rightarrow> option AND TPS_REF_IF_EXISTS \<noteq> 0 \<and> cobjs ct' = cobjs ct \<and>
          (\<forall>a \<in> set (cobjs ct). \<not> same_name (tr_names r a) name)
      | Some p \<Rightarrow> p \<in> set (cobjs ct') \<and> same_name (tr_names r' p) name \<and>
          (if \<exists>a \<in> set (cobjs ct). same_name (tr_names r a) name
           then p \<in> set (cobjs ct) \<and> refs_of r' p = refs_of r p + 1 \<and> cobjs ct' = cobjs ct
           else option AND TPS_REF_IF_EXISTS = 0 \<and> mset (cobjs ct') = add_mset p (mset (cobjs ct)) \<and>
                refs_of r' p = 2 \<and> tr_queues r' p = Some tps_new))"
proof (cases "\<exists>a \<in> set (cobjs ct). same_name (tr_names r a) name")
  case True
  then obtain a where a: "a \<in> set (cobjs ct)" "same_name (tr_names r a) name" by blast
  from get_finds [OF assms(1-3) a, of sz n option] a True show ?thesis by fastforce
next
  case False
  show ?thesis
  proof (cases "option AND TPS_REF_IF_EXISTS = 0")
    case existing: False
    with get_nothing [OF assms(1-3), of option sz n] False show ?thesis by fastforce
  next
    case create: True
    from get_creates [OF assms(1-4) _ create, of sz n] False obtain a r' ct' where
      g: "spd_taskqueue_get sz (obj_ref (Suc n)) tmp (Some name) option r = Some (Some a, r')" "reg_ct r' ct'"
      "tr_names r' a = name" "mset (cobjs ct') = add_mset a (mset (cobjs ct))" "refs_of r' a = 2"
      "tr_queues r' a = Some tps_new"
      by blast
    from arg_cong [OF g(4), of set_mset] have "a \<in> set (cobjs ct')" by simp
    with g create False show ?thesis
      by (intro exI [of _ "Some a"] exI [of _ r'] exI [of _ ct']) (simp add: same_name_def)
  qed
qed

lemma init_reg:
  assumes "\<forall>a. w_objs w a \<noteq> None \<longrightarrow> a < w_next w"
  shows "\<exists>ct. reg_ct (snd (spd_taskqueue_init w)) ct \<and> cobjs ct = [] \<and> 0 \<le> fst (spd_taskqueue_init w)"
proof -
  define ct where "ct = \<lparr>c_hash_fn = tps_hash_cb (\<lambda>_. []), c_cmp_fn = tps_cmp_cb (\<lambda>_. []),
      n_buckets = 7, elements = 0, version = 1, buckets = replicate 7 []\<rparr>"
  have e: "entries ct = []" by (simp add: ct_def entries_def)
  have "get_container (tr_world (snd (spd_taskqueue_init w))) (tr_singletons (snd (spd_taskqueue_init w))) = Some ct"
    by (simp add: spd_taskqueue_init_def obj_container_alloc_def internal_obj_container_alloc_def internal_obj_alloc_def get_container_def
        TPS_MAX_BUCKETS_def ct_def Let_def)
  moreover have "cont_ok ct" using e by (auto simp: cont_ok_def ct_def)
  moreover have "w_objs (tr_world (snd (spd_taskqueue_init w))) a \<noteq> None \<longrightarrow>
      a < w_next (tr_world (snd (spd_taskqueue_init w)))" for a
    using assms by (auto simp: spd_taskqueue_init_def obj_container_alloc_def internal_obj_container_alloc_def internal_obj_alloc_def Let_def less_Suc_eq)
  moreover have "tr_names (snd (spd_taskqueue_init w)) = (\<lambda>_. [])"
    by (simp add: spd_taskqueue_init_def Let_def split: prod.splits)
  ultimately have "reg_ct (snd (spd_taskqueue_init w)) ct"
    unfolding reg_ct_def by (simp add: cobjs_def e) (simp add: ct_def)
  then show ?thesis
    by (intro exI [of _ ct]) (simp add: cobjs_def e spd_taskqueue_init_def Let_def split: prod.splits)
qed

definition empty_world :: world where
  "empty_world = \<lparr>w_objs = \<lambda>_. None, w_next = 1, w_log = []\<rparr>"

theorem taskqueue_get_singleton_witness:
  "\<exists>p r'. spd_taskqueue_get 176 (obj_ref 1) 0 (Some ''log'') TPS_REF_DEFAULT (snd (spd_taskqueue_init empty_world)) =
     Some (Some p, r') \<and> refs_of r' p = 2"
proof -
  obtain ct where ct: "reg_ct (snd (spd_taskqueue_init empty_world)) ct" "cobjs ct = []"
    using init_reg [of empty_world] by (auto simp: empty_world_def)
  have h: "- (2 ^ 31) < spd_str_case_hash ''log''" by code_simp
  from taskqueue_get_singleton [OF ct(1) _ _ h, of 0 176 0 TPS_REF_DEFAULT] ct(2)
  show ?thesis by (auto simp: TPS_REF_DEFAULT_def simp del: obj_ref.simps split: option.splits)
qed

lemma unlink_queue:
  assumes "reg_ct r ct" "a \<in> set (cobjs ct)" "w_objs (tr_world r) a = Some q" "1 < ref_counter q"
  shows "\<exists>ct'. obj_unlink (obj_ref (Suc n)) (tr_singletons r) (Some a) 0 (tr_world r) =
       Some (set_ref a q (ref_counter q - 1) (put_container (tr_singletons r) ct' (tr_world r))) \<and>
     reg_ct (r\<lparr>tr_world := set_ref a q (ref_counter q - 1) (put_container (tr_singletons r) ct' (tr_world r))\<rparr>) ct' \<and>
     mset (cobjs ct) = add_mset a (mset (cobjs ct'))"
proof -
  let ?w = "tr_world r" and ?c = "tr_singletons r" and ?i = "hash_ix ct a"
  have g: "get_container ?w ?c = Some ct" "cont_ok ct" and d: "distinct (cobjs ct)" and ac: "a \<noteq> ?c"
    using assms(1,2) by (auto simp: reg_ct_def)
  obtain e where e: "e \<in> set (entries ct)" "be_obj e = a" using assms(2) by (auto simp: cobjs_def)
  then obtain j where j: "j < length (buckets ct)" "e \<in> set (buckets ct ! j)"
    by (auto simp: entries_def in_set_conv_nth [of _ "buckets ct"])
  then have i: "e \<in> set (buckets ct ! ?i)" using e g(2) by (auto simp: cont_ok_def)
  then obtain us vs where s: "buckets ct ! ?i = us @ e # vs" "e \<notin> set us" by (meson split_list_first)
  have us: "\<forall>x \<in> set us. be_obj x \<noteq> a"
  proof (intro ballI notI)
    fix x assume x: "x \<in> set us" "be_obj x = a"
    then have "x \<in> set (entries ct)" using s bucket_entry_in [OF g(2), of x a] by simp
    with e x d have "x = e" by (auto simp: cobjs_def distinct_map inj_on_def)
    with x s show False by simp
  qed
  let ?ct = "unlinked ct ?i e"
  let ?w2 = "set_ref a q (ref_counter q - 1) (put_container ?c ?ct ?w)"
  have "obj_unlink (obj_ref (Suc n)) ?c (Some a) 0 ?w = Some ?w2"
    by (rule obj_unlink_result [OF g assms(3,4) ac s(1) e(2) us])
  moreover have m: "mset (cobjs ct) = add_mset a (mset (cobjs ?ct))"
    using arg_cong [OF unlinked_entries [OF g(2) hash_ix_less [OF g(2)] i], of "image_mset be_obj"] e(2)
    by (simp add: cobjs_mset)
  moreover have "set (cobjs ct) = insert a (set (cobjs ?ct))" using arg_cong [OF m, of set_mset] by simp
  moreover have "distinct (cobjs ?ct)" "a \<notin> set (cobjs ?ct)"
    using distinct_mset_map [OF m, of "\<lambda>x. x"] d by simp_all
  moreover have "w_objs ?w2 b \<noteq> None \<longleftrightarrow> w_objs ?w b \<noteq> None" for b
    using assms(3) by (auto simp: put_container_def)
  moreover have "cont_ok ?ct" by (rule unlinked_ok [OF g(2) hash_ix_less [OF g(2)] i])
  moreover have "get_container ?w2 ?c = Some ?ct" using get_container_live [OF g(1)] ac assms(3) by simp
  moreover have "c_hash_fn ?ct = c_hash_fn ct" "c_cmp_fn ?ct = c_cmp_fn ct" by (simp_all add: unlinked_def)
  ultimately show ?thesis using assms(1) by (intro exI [of _ ?ct]) (auto simp: reg_ct_def)
qed

text \<open>Giving back the last reference of a user, and giving back another one.\<close>

lemma unreference_cases:
  assumes "reg_ct r ct" "a \<in> set (cobjs ct)" "2 \<le> refs_of r a"
  obtains q w1 ct1 where "obj_unlink (obj_ref (Suc n)) (tr_singletons r) (Some a) 0 (tr_world r) = Some w1"
    "reg_ct (r\<lparr>tr_world := w1\<rparr>) ct1" "mset (cobjs ct) = add_mset a (mset (cobjs ct1))"
    "w_objs w1 a = Some q" "ref_counter q = refs_of r a - 1" "destructor_fn q = UserDestructor 0" "a \<noteq> tr_singletons r"
    "a \<notin> set (cobjs ct1)" "\<forall>b \<in> set (cobjs ct1). \<not> same_name (tr_names r b) (tr_names r a)"
proof -
  obtain p where p: "w_objs (tr_world r) a = Some p" "destructor_fn p = UserDestructor 0" "a \<noteq> tr_singletons r"
    using assms(1,2) by (auto simp: reg_ct_def)
  have rc: "ref_counter p = refs_of r a" using p(1) by (simp add: refs_of_def)
  with assms(3) have "1 < ref_counter p" by simp
  from unlink_queue [OF assms(1,2) p(1) this, of n] obtain ct1 where
    u: "obj_unlink (obj_ref (Suc n)) (tr_singletons r) (Some a) 0 (tr_world r) =
        Some (set_ref a p (ref_counter p - 1) (put_container (tr_singletons r) ct1 (tr_world r)))"
    "reg_ct (r\<lparr>tr_world := set_ref a p (ref_counter p - 1) (put_container (tr_singletons r) ct1 (tr_world r))\<rparr>) ct1"
    "mset (cobjs ct) = add_mset a (mset (cobjs ct1))"
    by blast
  have s: "set (cobjs ct) = insert a (set (cobjs ct1))" using arg_cong [OF u(3), of set_mset] by simp
  have na: "a \<notin> set (cobjs ct1)"
    using distinct_mset_map [OF u(3), of "\<lambda>x. x"] assms(1) by (simp add: reg_ct_def)
  have "\<forall>b \<in> set (cobjs ct1). \<not> same_name (tr_names r b) (tr_names r a)"
    using na s assms(1) by (auto simp: reg_ct_def)
  with u na p rc show thesis
    by (intro that [of "set_ref a p (ref_counter p - 1) (put_container (tr_singletons r) ct1 (tr_world r))" ct1
          "p\<lparr>ref_counter := ref_counter p - 1\<rparr>"]) auto
qed

lemma unreference_last:
  assumes "reg_ct r ct" "a \<in> set (cobjs ct)" "refs_of r a = 2"
  shows "\<exists>r' ct'. spd_taskqueue_unreference (obj_ref (Suc n)) (Some a) r = Some r' \<and> reg_ct r' ct' \<and>
     w_objs (tr_world r') a = None \<and> tr_queues r' a = None \<and> (0, a) \<in> set (w_log (tr_world r')) \<and>
     mset (cobjs ct) = add_mset a (mset (cobjs ct')) \<and>
     (\<forall>b \<in> set (cobjs ct'). \<not> same_name (tr_names r' b) (tr_names r a))"
proof -
  have "2 \<le> refs_of r a" using assms(3) by simp
  then obtain q w1 ct1 where
    u: "obj_unlink (obj_ref (Suc n)) (tr_singletons r) (Some a) 0 (tr_world r) = Some w1"
    "reg_ct (r\<lparr>tr_world := w1\<rparr>) ct1" "mset (cobjs ct) = add_mset a (mset (cobjs ct1))"
    "w_objs w1 a = Some q" "ref_counter q = refs_of r a - 1" "destructor_fn q = UserDestructor 0" "a \<noteq> tr_singletons r"
    "a \<notin> set (cobjs ct1)" "\<forall>b \<in> set (cobjs ct1). \<not> same_name (tr_names r b) (tr_names r a)"
    using unreference_cases [OF assms(1,2)] by metis
  let ?w2 = "w1\<lparr>w_objs := (w_objs w1)(a := None), w_log := w_log w1 @ [(0, a)]\<rparr>"
  let ?r = "r\<lparr>tr_world := ?w2, tr_queues := (tr_queues r)(a := None)\<rparr>"
  have "obj_ref (Suc n) a (- 1) w1 = Some (1, ?w2)"
    using obj_ref_last [OF u(4), of "- 1" n] assms(3) u(5,6) by (simp add: user_log_def del: obj_ref.simps)
  then have "spd_taskqueue_unreference (obj_ref (Suc n)) (Some a) r = Some ?r"
    using u(1) by (simp add: spd_taskqueue_unreference_def del: obj_ref.simps)
  moreover have "reg_ct ?r ct1"
    using u(2,7,8) by (auto simp: reg_ct_def get_container_def)
  ultimately show ?thesis using u(3,9) by (intro exI [of _ ?r] exI [of _ ct1]) simp
qed

lemma unreference_more:
  assumes "reg_ct r ct" "a \<in> set (cobjs ct)" "2 < refs_of r a"
  shows "\<exists>r' ct'. spd_taskqueue_unreference (obj_ref (Suc n)) (Some a) r = Some r' \<and> reg_ct r' ct' \<and>
     refs_of r' a = refs_of r a - 1 \<and> mset (cobjs ct') = mset (cobjs ct)"
proof -
  have "2 \<le> refs_of r a" using assms(3) by simp
  then obtain q w1 ct1 where
    u: "obj_unlink (obj_ref (Suc n)) (tr_singletons r) (Some a) 0 (tr_world r) = Some w1"
    "reg_ct (r\<lparr>tr_world := w1\<rparr>) ct1" "mset (cobjs ct) = add_mset a (mset (cobjs ct1))"
    "w_objs w1 a = Some q" "ref_counter q = refs_of r a - 1" "destructor_fn q = UserDestructor 0" "a \<noteq> tr_singletons r"
    "a \<notin> set (cobjs ct1)" "\<forall>b \<in> set (cobjs ct1). \<not> same_name (tr_names r b) (tr_names r a)"
    using unreference_cases [OF assms(1,2)] by metis
  have two: "1 < ref_counter q" using assms(3) u(5) by simp
  let ?w2 = "set_ref a q (ref_counter q - 1) w1"
  have ref: "obj_ref (Suc n) a (- 1) w1 = Some (ref_counter q, ?w2)"
    using obj_ref_live [OF u(4), of "- 1" n] two by simp
  have ok2: "reg_ct (r\<lparr>tr_world := ?w2\<rparr>) ct1"
    using u(2,4,8) two by (auto simp: reg_ct_def)
  have "- (2 ^ 31) < spd_str_case_hash (tr_names r a)" using assms(1,2) by (simp add: reg_ct_def)
  with link_new [OF ok2, of a "q\<lparr>ref_counter := ref_counter q - 1\<rparr>" n] two u(6-9) obtain w3 where
    w3: "obj_link (obj_ref (Suc n)) (tr_singletons r) (Some a) ?w2 = Some (True, w3)"
    "reg_ct (r\<lparr>tr_world := w3\<rparr>) (linked ct1 a)" "refs_of (r\<lparr>tr_world := w3\<rparr>) a = ref_counter q"
    by auto
  obtain y where "w_objs w3 a = Some y" using w3(3) two by (auto simp: refs_of_def split: option.splits)
  then have "spd_taskqueue_unreference (obj_ref (Suc n)) (Some a) r = Some (r\<lparr>tr_world := w3\<rparr>)"
    using u(1) ref w3(1) two by (simp add: spd_taskqueue_unreference_def del: obj_ref.simps)
  moreover have "mset (cobjs (linked ct1 a)) = mset (cobjs ct)"
    using linked_cobjs [of ct1 a] u(2,3) by (simp add: reg_ct_def)
  ultimately show ?thesis
    using w3 u(5) by (intro exI [of _ "r\<lparr>tr_world := w3\<rparr>"] exI [of _ "linked ct1 a"]) simp
qed

text \<open>
  giving back a reference that is not the last leaves the queue
  registered under its name with one reference less; giving back the last one removes it from the
  registry, destroys the object with \<open>tps_taskqueue_destroy\<close> and leaves no other queue of that
  name. All other queues stay registered.
\<close>

lemma taskqueue_unreference_last:
  assumes "reg_ct r ct" "a \<in> set (cobjs ct)" "2 \<le> refs_of r a"
  shows "\<exists>r' ct'. spd_taskqueue_unreference (obj_ref (Suc n)) (Some a) r = Some r' \<and> reg_ct r' ct' \<and>
     (if refs_of r a = 2
      then w_objs (tr_world r') a = None \<and> tr_queues r' a = None \<and> (0, a) \<in> set (w_log (tr_world r')) \<and>
        mset (cobjs ct) = add_mset a (mset (cobjs ct')) \<and>
        (\<forall>b \<in> set (cobjs ct'). \<not> same_name (tr_names r' b) (tr_names r a))
      else refs_of r' a = refs_of r a - 1 \<and> mset (cobjs ct') = mset (cobjs ct))"
proof (cases "refs_of r a = 2")
  case True
  with unreference_last [OF assms(1,2) True, of n] show ?thesis by simp
next
  case False
  with unreference_more [OF assms(1,2), of n] assms(3) show ?thesis by simp
qed

theorem taskqueue_unreference_last_witness:
  "\<exists>a r r'. spd_taskqueue_get 176 (obj_ref 1) 0 (Some ''log'') TPS_REF_DEFAULT (snd (spd_taskqueue_init empty_world)) =
     Some (Some a, r) \<and> spd_taskqueue_unreference (obj_ref 1) (Some a) r = Some r' \<and> w_objs (tr_world r') a = None"
proof -
  obtain ct where ct: "reg_ct (snd (spd_taskqueue_init empty_world)) ct" "cobjs ct = []"
    using init_reg [of empty_world] by (auto simp: empty_world_def)
  have h: "- (2 ^ 31) < spd_str_case_hash ''log''" by code_simp
  from get_creates [OF ct(1) _ _ h, of 0 TPS_REF_DEFAULT 176 0] ct(2) obtain a r ct' where
    g: "spd_taskqueue_get 176 (obj_ref 1) 0 (Some ''log'') TPS_REF_DEFAULT (snd (spd_taskqueue_init empty_world)) = Some (Some a, r)"
    "reg_ct r ct'" "mset (cobjs ct') = {#a#}" "refs_of r a = 2"
    by (auto simp: TPS_REF_DEFAULT_def simp del: obj_ref.simps)
  from arg_cong [OF g(3), of set_mset] have "a \<in> set (cobjs ct')" by simp
  from taskqueue_unreference_last [OF g(2) this, of 0] g(1,4) show ?thesis
    by (auto simp del: obj_ref.simps)
qed

end
