(* ===== verification/Spd_Fsm.thy ===== *)
theory Spd_Fsm
  imports Spd_Prelude
begin

text \<open>
  Finite state machines: \<open>src/fsm.c\<close>. A machine is a list of entries; an action fires the first
  entry that fits. Conditions see two opaque values; the functions an entry executes and the
  callback at the end act on the caller's world \<open>'w\<close>. A null machine is \<open>None\<close>. Allocations succeed.
\<close>

section \<open>Data\<close>

definition spd_fsm_state_any :: int where "spd_fsm_state_any = - 0xFFFF"
definition spd_fsm_action_any :: int where "spd_fsm_action_any = - 0xFFFF"

record ('d, 'w) spd_fsm_entry =
  fe_from :: int
  fe_action :: int
  fe_cond :: "'d \<Rightarrow> 'd \<Rightarrow> bool"
  fe_to :: int
  fe_exec :: "('w \<Rightarrow> int \<times> 'w) option"
  fe_desc :: string

record ('d, 'w) spd_fsm =
  fsm_current :: int
  fsm_term :: int
  fsm_entry_list :: "('d, 'w) spd_fsm_entry list"
  fsm_term_cb :: "('w \<Rightarrow> 'w) option"

section \<open>Operations\<close>

definition spd_fsm_create :: "int \<Rightarrow> int \<Rightarrow> ('d, 'w) spd_fsm" where
  "spd_fsm_create cur term = \<lparr>fsm_current = cur, fsm_term = term, fsm_entry_list = [], fsm_term_cb = None\<rparr>"

definition spd_fsm_cond_always :: "'d \<Rightarrow> 'd \<Rightarrow> bool" where
  "spd_fsm_cond_always c1 c2 = True"

definition spd_fsm_exec_nothing :: "'w \<Rightarrow> int \<times> 'w" where
  "spd_fsm_exec_nothing w = (0, w)"

definition SPD_FSM_ADD ::
  "int \<Rightarrow> int \<Rightarrow> ('d \<Rightarrow> 'd \<Rightarrow> bool) \<Rightarrow> int \<Rightarrow> ('w \<Rightarrow> int \<times> 'w) option \<Rightarrow> string \<Rightarrow> int \<times> ('d, 'w) spd_fsm_entry" where
  "SPD_FSM_ADD from action cond to exec desc =
     (1, \<lparr>fe_from = from, fe_action = action, fe_cond = cond, fe_to = to, fe_exec = exec, fe_desc = desc\<rparr>)"

definition SPD_FSM_ADD_ALWAYS ::
  "int \<Rightarrow> int \<Rightarrow> int \<Rightarrow> ('w \<Rightarrow> int \<times> 'w) option \<Rightarrow> string \<Rightarrow> int \<times> ('d, 'w) spd_fsm_entry" where
  "SPD_FSM_ADD_ALWAYS from action to exec desc = SPD_FSM_ADD from action spd_fsm_cond_always to exec desc"

definition SPD_FSM_ADD_NOTHING ::
  "int \<Rightarrow> int \<Rightarrow> ('d \<Rightarrow> 'd \<Rightarrow> bool) \<Rightarrow> string \<Rightarrow> int \<times> ('d, 'w) spd_fsm_entry" where
  "SPD_FSM_ADD_NOTHING from action cond desc = SPD_FSM_ADD from action cond from (Some spd_fsm_exec_nothing) desc"

definition SPD_FSM_ADD_ALWAYS_NOTHING :: "int \<Rightarrow> string \<Rightarrow> int \<times> ('d, 'w) spd_fsm_entry" where
  "SPD_FSM_ADD_ALWAYS_NOTHING from desc =
     SPD_FSM_ADD from spd_fsm_action_any spd_fsm_cond_always from (Some spd_fsm_exec_nothing) desc"

text \<open>The variable arguments: a guard and an entry, again and again, up to a guard of 0.\<close>

fun fsm_set_loop :: "(int \<times> ('d, 'w) spd_fsm_entry) list \<Rightarrow> ('d, 'w) spd_fsm \<Rightarrow> ('d, 'w) spd_fsm option" where
  "fsm_set_loop [] self = None"
| "fsm_set_loop ((guard, e) # args) self =
     (if guard = 0 then Some self
      else fsm_set_loop args (self\<lparr>fsm_entry_list := fsm_entry_list self @ [e]\<rparr>))"

definition spd_fsm_set ::
  "(int \<times> ('d, 'w) spd_fsm_entry) list \<Rightarrow> ('d, 'w) spd_fsm option \<Rightarrow> (int \<times> ('d, 'w) spd_fsm option) option" where
  "spd_fsm_set args self =
     (case self of
        None \<Rightarrow> Some (- 1, None)
      | Some fsm \<Rightarrow> map_option (\<lambda>fsm. (0, Some fsm)) (fsm_set_loop args fsm))"

definition spd_fsm_is_terminate :: "('d, 'w) spd_fsm option \<Rightarrow> bool" where
  "spd_fsm_is_terminate self = (case self of None \<Rightarrow> True | Some fsm \<Rightarrow> fsm_current fsm = fsm_term fsm)"

definition spd_fsm_set_terminate_callback ::
  "('w \<Rightarrow> 'w) option \<Rightarrow> ('d, 'w) spd_fsm option \<Rightarrow> int \<times> ('d, 'w) spd_fsm option" where
  "spd_fsm_set_terminate_callback cb self =
     (case self of None \<Rightarrow> (- 1, None) | Some fsm \<Rightarrow> (0, Some (fsm\<lparr>fsm_term_cb := cb\<rparr>)))"

definition spd_fsm_destroy :: "('d, 'w) spd_fsm option \<Rightarrow> int \<times> ('d, 'w) spd_fsm option" where
  "spd_fsm_destroy self = (case self of None \<Rightarrow> (- 1, None) | Some fsm \<Rightarrow> (0, None))"

text \<open>The traversal: \<open>found\<close>, \<open>terminate\<close>, the machine and the world.\<close>

fun fsm_fire ::
  "int \<Rightarrow> 'd \<Rightarrow> 'd \<Rightarrow> ('d, 'w) spd_fsm_entry list \<Rightarrow> ('d, 'w) spd_fsm \<Rightarrow> 'w
     \<Rightarrow> bool \<times> bool \<times> ('d, 'w) spd_fsm \<times> 'w" where
  "fsm_fire action c1 c2 [] self w = (False, False, self, w)"
| "fsm_fire action c1 c2 (tmp # es) self w =
     (if fe_from tmp \<noteq> spd_fsm_action_any \<and> fe_from tmp \<noteq> fsm_current self then fsm_fire action c1 c2 es self w
      else if fe_action tmp \<noteq> spd_fsm_action_any \<and> action \<noteq> fe_action tmp then fsm_fire action c1 c2 es self w
      else if fe_cond tmp c1 c2 then
        (let self = (if fe_to tmp \<noteq> spd_fsm_action_any then self\<lparr>fsm_current := fe_to tmp\<rparr> else self);
             (ret, w) = (case fe_exec tmp of None \<Rightarrow> (0, w) | Some f \<Rightarrow> f w)
         in (True, ret \<noteq> 0 \<or> fsm_current self = fsm_term self, self, w))
      else fsm_fire action c1 c2 es self w)"

text \<open>The code \<open>None\<close> stands for the missing return statement at the end of the function.\<close>

definition spd_fsm_start ::
  "int \<Rightarrow> 'd \<Rightarrow> 'd \<Rightarrow> ('d, 'w) spd_fsm option \<Rightarrow> 'w \<Rightarrow> int option \<times> ('d, 'w) spd_fsm option \<times> 'w" where
  "spd_fsm_start action c1 c2 self w =
     (case self of
        None \<Rightarrow> (Some (- 1), None, w)
      | Some fsm \<Rightarrow>
          if spd_fsm_is_terminate self then (Some (- 2), self, w)
          else
            (case fsm_fire action c1 c2 (fsm_entry_list fsm) fsm w of
               (found, terminate, fsm, w) \<Rightarrow>
                 if terminate then
                   (let fsm = fsm\<lparr>fsm_current := fsm_term fsm\<rparr>
                    in (None, Some fsm, case fsm_term_cb fsm of None \<Rightarrow> w | Some cb \<Rightarrow> cb w))
                 else (None, Some fsm, w)))"

section \<open>Which entry fires\<close>

definition fsm_enabled :: "int \<Rightarrow> 'd \<Rightarrow> 'd \<Rightarrow> int \<Rightarrow> ('d, 'w) spd_fsm_entry \<Rightarrow> bool" where
  "fsm_enabled action c1 c2 cur e \<longleftrightarrow>
     (fe_from e = spd_fsm_state_any \<or> fe_from e = cur) \<and>
     (fe_action e = spd_fsm_action_any \<or> fe_action e = action) \<and> fe_cond e c1 c2"

lemma fire_skip:
  "\<forall>e \<in> set pre. \<not> fsm_enabled action c1 c2 (fsm_current self) e \<Longrightarrow>
     fsm_fire action c1 c2 (pre @ es) self w = fsm_fire action c1 c2 es self w"
  by (induction pre) (auto simp: fsm_enabled_def spd_fsm_state_any_def spd_fsm_action_any_def)

lemma fire_none:
  "\<forall>e \<in> set es. \<not> fsm_enabled action c1 c2 (fsm_current self) e \<Longrightarrow>
     fsm_fire action c1 c2 es self w = (False, False, self, w)"
  using fire_skip [of es action c1 c2 self "[]" w] by simp

lemma fire_first:
  "fsm_enabled action c1 c2 (fsm_current self) e \<Longrightarrow>
     fsm_fire action c1 c2 (e # es) self w =
       (let self = (if fe_to e = spd_fsm_state_any then self else self\<lparr>fsm_current := fe_to e\<rparr>);
            (ret, w) = (case fe_exec e of None \<Rightarrow> (0, w) | Some f \<Rightarrow> f w)
        in (True, ret \<noteq> 0 \<or> fsm_current self = fsm_term self, self, w))"
  by (auto simp: fsm_enabled_def spd_fsm_state_any_def spd_fsm_action_any_def Let_def)

section \<open>The specification: a labelled transition relation\<close>

text \<open>
  \<open>fsm_step es t c a c'\<close>: with terminal state \<open>t\<close>, in state \<open>c\<close>, the stimulus \<open>a\<close> (an action, the two
  values and what the executed function returns) leads to \<open>c'\<close>. The first enabled entry decides.
\<close>

inductive fsm_step ::
  "('d, 'w) spd_fsm_entry list \<Rightarrow> int \<Rightarrow> int \<Rightarrow> int \<times> 'd \<times> 'd \<times> int \<Rightarrow> int \<Rightarrow> bool" for es t where
  Move: "c \<noteq> t \<Longrightarrow> es = pre @ e # post \<Longrightarrow> \<forall>x \<in> set pre. \<not> fsm_enabled a c1 c2 c x \<Longrightarrow>
    fsm_enabled a c1 c2 c e \<Longrightarrow> r = 0 \<Longrightarrow>
    c' = (if fe_to e = spd_fsm_state_any then c else fe_to e) \<Longrightarrow> fsm_step es t c (a, c1, c2, r) c'"
| Fail: "c \<noteq> t \<Longrightarrow> es = pre @ e # post \<Longrightarrow> \<forall>x \<in> set pre. \<not> fsm_enabled a c1 c2 c x \<Longrightarrow>
    fsm_enabled a c1 c2 c e \<Longrightarrow> r \<noteq> 0 \<Longrightarrow> fsm_step es t c (a, c1, c2, r) t"
| Ignore: "c \<noteq> t \<Longrightarrow> \<forall>x \<in> set es. \<not> fsm_enabled a c1 c2 c x \<Longrightarrow> fsm_step es t c (a, c1, c2, r) c"
| Final: "fsm_step es t t (a, c1, c2, r) t"

inductive_cases fsm_step_from_final: "fsm_step es t t l c'"

lemma final_absorbing: "fsm_step es t t l c' \<Longrightarrow> c' = t"
  by (erule fsm_step_from_final) auto

lemma start_fires:
  assumes "fsm_current fsm \<noteq> fsm_term fsm" "fsm_entry_list fsm = pre @ e # post"
    and "\<forall>x \<in> set pre. \<not> fsm_enabled a c1 c2 (fsm_current fsm) x" "fsm_enabled a c1 c2 (fsm_current fsm) e"
    and "(r, w1) = (case fe_exec e of None \<Rightarrow> (0, w) | Some f \<Rightarrow> f w)"
  shows "spd_fsm_start a c1 c2 (Some fsm) w =
    (let c = (if fe_to e = spd_fsm_state_any then fsm_current fsm else fe_to e)
     in if r \<noteq> 0 \<or> c = fsm_term fsm
        then (None, Some (fsm\<lparr>fsm_current := fsm_term fsm\<rparr>), case fsm_term_cb fsm of None \<Rightarrow> w1 | Some cb \<Rightarrow> cb w1)
        else (None, Some (fsm\<lparr>fsm_current := c\<rparr>), w1))"
proof -
  let ?c = "if fe_to e = spd_fsm_state_any then fsm_current fsm else fe_to e"
  have "fsm_fire a c1 c2 (fsm_entry_list fsm) fsm w =
      (True, r \<noteq> 0 \<or> ?c = fsm_term fsm, fsm\<lparr>fsm_current := ?c\<rparr>, w1)"
    unfolding assms(2) fire_skip [OF assms(3)] fire_first [OF assms(4)] assms(5) [symmetric]
    by (simp add: Let_def)
  with assms(1) show ?thesis
    by (simp add: spd_fsm_start_def spd_fsm_is_terminate_def Let_def)
qed

lemma start_cases:
  assumes "fsm_current fsm \<noteq> fsm_term fsm"
  obtains (ignore) "\<forall>x \<in> set (fsm_entry_list fsm). \<not> fsm_enabled a c1 c2 (fsm_current fsm) x"
      "spd_fsm_start a c1 c2 (Some fsm) w = (None, Some fsm, w)"
  | (fire) pre e post r w1 where "fsm_entry_list fsm = pre @ e # post"
      "\<forall>x \<in> set pre. \<not> fsm_enabled a c1 c2 (fsm_current fsm) x" "fsm_enabled a c1 c2 (fsm_current fsm) e"
      "(r, w1) = (case fe_exec e of None \<Rightarrow> (0, w) | Some f \<Rightarrow> f w)"
      "spd_fsm_start a c1 c2 (Some fsm) w =
        (let c = (if fe_to e = spd_fsm_state_any then fsm_current fsm else fe_to e)
         in if r \<noteq> 0 \<or> c = fsm_term fsm
            then (None, Some (fsm\<lparr>fsm_current := fsm_term fsm\<rparr>), case fsm_term_cb fsm of None \<Rightarrow> w1 | Some cb \<Rightarrow> cb w1)
            else (None, Some (fsm\<lparr>fsm_current := c\<rparr>), w1))"
proof (cases "\<exists>x \<in> set (fsm_entry_list fsm). fsm_enabled a c1 c2 (fsm_current fsm) x")
  case False
  then have f: "fsm_fire a c1 c2 (fsm_entry_list fsm) fsm w = (False, False, fsm, w)"
    by (intro fire_none) blast
  show thesis
  proof (rule ignore)
    show "spd_fsm_start a c1 c2 (Some fsm) w = (None, Some fsm, w)"
      using assms by (simp add: spd_fsm_start_def spd_fsm_is_terminate_def f)
  qed (use False in blast)
next
  case True
  from split_list_first_propE [OF True] obtain pre e post where s: "fsm_entry_list fsm = pre @ e # post"
    "fsm_enabled a c1 c2 (fsm_current fsm) e" "\<forall>x \<in> set pre. \<not> fsm_enabled a c1 c2 (fsm_current fsm) x"
    by metis
  obtain r w1 where r: "(r, w1) = (case fe_exec e of None \<Rightarrow> (0, w) | Some f \<Rightarrow> f w)"
    using surj_pair [of "case fe_exec e of None \<Rightarrow> (0, w) | Some f \<Rightarrow> f w"] by fastforce
  show thesis
    by (rule fire [OF s(1,3,2) r start_fires [OF assms s(1,3,2) r]])
qed

fun fsm_run :: "(int \<times> 'd \<times> 'd) list \<Rightarrow> ('d, 'w) spd_fsm \<Rightarrow> 'w \<Rightarrow> ('d, 'w) spd_fsm \<times> 'w" where
  "fsm_run [] fsm w = (fsm, w)"
| "fsm_run ((a, c1, c2) # as) fsm w =
     (case spd_fsm_start a c1 c2 (Some fsm) w of (_, fsm', w') \<Rightarrow> fsm_run as (the fsm') w')"

lemma start_static:
  assumes "spd_fsm_start a c1 c2 (Some fsm) w = (code, fsm', w')"
  shows "\<exists>f. fsm' = Some f \<and> fsm_entry_list f = fsm_entry_list fsm \<and> fsm_term f = fsm_term fsm \<and> fsm_term_cb f = fsm_term_cb fsm"
proof (cases "fsm_current fsm = fsm_term fsm")
  case True
  with assms show ?thesis by (auto simp: spd_fsm_start_def spd_fsm_is_terminate_def)
next
  case False
  then show ?thesis
  proof (cases rule: start_cases [of fsm a c1 c2 w])
    case ignore
    with assms show ?thesis by auto
  next
    case (fire pre e post r w1)
    from fire(5) assms show ?thesis by (auto simp: Let_def split: if_splits)
  qed
qed

text \<open>A world in which the number of calls of the callback can be read off.\<close>

definition counts_calls :: "('w \<Rightarrow> nat) \<Rightarrow> ('d, 'w) spd_fsm \<Rightarrow> bool" where
  "counts_calls cnt fsm \<longleftrightarrow>
     (\<forall>e \<in> set (fsm_entry_list fsm). \<forall>f. fe_exec e = Some f \<longrightarrow> (\<forall>w. cnt (snd (f w)) = cnt w)) \<and>
     (\<exists>cb. fsm_term_cb fsm = Some cb \<and> (\<forall>w. cnt (cb w) = cnt w + 1))"

lemma start_count:
  assumes "counts_calls cnt fsm" "spd_fsm_start a c1 c2 (Some fsm) w = (code, Some fsm', w')"
  shows "cnt w' = cnt w + (if fsm_current fsm \<noteq> fsm_term fsm \<and> fsm_current fsm' = fsm_term fsm' then 1 else 0) \<and>
     (fsm_current fsm = fsm_term fsm \<longrightarrow> fsm' = fsm \<and> w' = w)"
proof (cases "fsm_current fsm = fsm_term fsm")
  case True
  with assms show ?thesis by (auto simp: spd_fsm_start_def spd_fsm_is_terminate_def)
next
  case False
  then show ?thesis
  proof (cases rule: start_cases [of fsm a c1 c2 w])
    case ignore
    with assms(2) False show ?thesis by auto
  next
    case (fire pre e post r w1)
    have "cnt w1 = cnt w"
    proof (cases "fe_exec e")
      case None
      with fire(4) show ?thesis by simp
    next
      case (Some f)
      with fire(4) have "w1 = snd (f w)" by (metis option.simps(5) snd_conv)
      with assms(1) fire(1) Some show ?thesis by (auto simp: counts_calls_def)
    qed
    moreover obtain cb where "fsm_term_cb fsm = Some cb" "\<forall>w. cnt (cb w) = cnt w + 1"
      using assms(1) by (auto simp: counts_calls_def)
    ultimately show ?thesis using False fire(5) assms(2) by (auto simp: Let_def split: if_splits)
  qed
qed

section \<open>Properties\<close>



text \<open>
  C28: over any sequence of actions the callback is called exactly once if the
  machine reaches its terminal state and never otherwise; what comes after that changes nothing.
\<close>

theorem fsm_terminates_once:
  fixes fsm :: "('d, 'w) spd_fsm"
  assumes "counts_calls cnt fsm" "fsm_current fsm \<noteq> fsm_term fsm" "fsm_run acts fsm w = (fsm', w')"
  shows "cnt w' = cnt w + (if spd_fsm_is_terminate (Some fsm') then 1 else 0) \<and>
     (spd_fsm_is_terminate (Some fsm') \<longrightarrow> (\<forall>more. fsm_run more fsm' w' = (fsm', w')))"
proof -
  have idle: "fsm_run more g v = (g, v)" if "fsm_current g = fsm_term g" for more and g :: "('d, 'w) spd_fsm" and v
    using that by (induction more rule: list.induct)
      (auto simp: spd_fsm_start_def spd_fsm_is_terminate_def)
  have "cnt w' = cnt w + (if fsm_current fsm' = fsm_term fsm' then 1 else 0)"
    using assms
  proof (induction acts arbitrary: fsm w)
    case (Cons l acts)
    obtain a c1 c2 where l: "l = (a, c1, c2)" by (cases l)
    obtain code fo w1 where s: "spd_fsm_start a c1 c2 (Some fsm) w = (code, fo, w1)" by (metis surj_pair)
    obtain f where f: "fo = Some f" "fsm_entry_list f = fsm_entry_list fsm" "fsm_term f = fsm_term fsm"
      "fsm_term_cb f = fsm_term_cb fsm" using start_static [OF s] by blast
    note cnt = start_count [OF Cons.prems(1) s [unfolded f(1)]]
    have run: "fsm_run acts f w1 = (fsm', w')" using Cons.prems(3) by (simp add: l s f(1))
    show ?case
    proof (cases "fsm_current f = fsm_term f")
      case True
      then have "fsm' = f" "w' = w1" using idle [OF True, of acts w1] run by auto
      with True cnt Cons.prems(2) show ?thesis by simp
    next
      case False
      with Cons.IH [OF _ False run] cnt Cons.prems(1) f show ?thesis by (simp add: counts_calls_def)
    qed
  qed auto
  with idle show ?thesis by (simp add: spd_fsm_is_terminate_def)
qed

theorem fsm_terminates_once_witness:
  "snd (fsm_run [(7, (), ()), (7, (), ())]
     \<lparr>fsm_current = 1, fsm_term = 2, fsm_entry_list = [snd (SPD_FSM_ADD_ALWAYS 1 7 2 None [])], fsm_term_cb = Some Suc\<rparr> 0) = 1"
proof -
  let ?m = "\<lparr>fsm_current = 1, fsm_term = 2, fsm_entry_list = [snd (SPD_FSM_ADD_ALWAYS 1 7 2 None [])], fsm_term_cb = Some Suc\<rparr>"
  have "counts_calls (\<lambda>n. n) ?m" by (simp add: counts_calls_def SPD_FSM_ADD_ALWAYS_def SPD_FSM_ADD_def)
  moreover have "fsm_run [(7, (), ()), (7, (), ())] ?m 0 = (?m\<lparr>fsm_current := 2\<rparr>, 1)"
    by (simp add: spd_fsm_start_def spd_fsm_is_terminate_def SPD_FSM_ADD_ALWAYS_def SPD_FSM_ADD_def
        spd_fsm_action_any_def spd_fsm_cond_always_def Let_def)
  ultimately show ?thesis
    using fsm_terminates_once [of "\<lambda>n. n" ?m "[(7, (), ()), (7, (), ())]" 0 "?m\<lparr>fsm_current := 2\<rparr>" 1]
    by (simp add: spd_fsm_is_terminate_def)
qed

end
