(* ===== verification/Spd_Scheduler.thy ===== *)
theory Spd_Scheduler
  imports Spd_LinkedList Spd_Times
begin

text \<open>
  The scheduler: \<open>src/scheduler.c\<close>. The queue is a HOL list, in the sense of the refinement lemmas
  of the linked lists. The file does not compile as it stands; it is read as its comments and types
  say: \<open>cur\<close> in \<open>add_scheduler\<close> is a pointer, \<open>spd_sched_add_flag\<close> has the parameter \<open>data\<close> that
  \<open>spd_sched_add\<close> passes to it, and \<open>SPD_LIST_REMOVE_CURRENT\<close> outside of a traversal removes the head.
  The mutex is recursive and the state keeps its depth. The clock is an argument: one value per call
  of \<open>spd_tvnow\<close>. Allocations succeed.
\<close>

section \<open>Data\<close>

type_synonym uint = "32 word"

definition SPD_SCHED_MA_CACHE :: uint where "SPD_SCHED_MA_CACHE = 128"

record scheduler =
  s_flag :: int
  s_reschedule :: int
  s_id :: int
  s_when :: timeval
  s_callback :: nat
  s_data :: nat

record scheduler_context =
  sc_lock :: int
  processedcnt :: uint
  schedsnt :: uint
  schedulerq :: "scheduler list"
  schedulerc :: nat
  schedccnt :: uint

definition spd_sched_context_create :: scheduler_context where
  "spd_sched_context_create =
     \<lparr>sc_lock = 0, processedcnt = 1, schedsnt = 0, schedulerq = [], schedulerc = 0, schedccnt = 0\<rparr>"

definition sched_alloc :: "scheduler_context \<Rightarrow> scheduler_context" where
  "sched_alloc con =
     (if schedulerc con > 0 then con\<lparr>schedulerc := schedulerc con - 1, schedccnt := schedccnt con - 1\<rparr> else con)"

definition scheduler_release :: "scheduler_context \<Rightarrow> scheduler_context" where
  "scheduler_release con =
     (if schedccnt con < SPD_SCHED_MA_CACHE
      then con\<lparr>schedulerc := schedulerc con + 1, schedccnt := schedccnt con + 1\<rparr> else con)"

definition sched_lock :: "scheduler_context \<Rightarrow> scheduler_context" where
  "sched_lock con = con\<lparr>sc_lock := sc_lock con + 1\<rparr>"

definition sched_unlock :: "scheduler_context \<Rightarrow> scheduler_context" where
  "sched_unlock con = con\<lparr>sc_lock := sc_lock con - 1\<rparr>"

section \<open>Operations\<close>

text \<open>The second lock stands where the unlock should be.\<close>

definition spd_sched_wait :: "timeval \<Rightarrow> scheduler_context \<Rightarrow> int \<times> scheduler_context" where
  "spd_sched_wait now c =
     (let c = sched_lock c;
          ms = (case schedulerq c of
                  [] \<Rightarrow> - 1
                | s # _ \<Rightarrow> (let ms = spd_tvdiff_ms (s_when s) now in if ms < 0 then 0 else ms))
      in (ms, sched_lock c))"

text \<open>The statement \<open>c->schedsnt;\<close> at the end has no effect.\<close>

fun add_before_later :: "scheduler \<Rightarrow> scheduler list \<Rightarrow> scheduler list" where
  "add_before_later s [] = [s]"
| "add_before_later s (cur # q) =
     (if spd_tvcmp (s_when s) (s_when cur) = - 1 then s # cur # q else cur # add_before_later s q)"

definition add_scheduler :: "scheduler \<Rightarrow> scheduler_context \<Rightarrow> scheduler_context" where
  "add_scheduler s c = c\<lparr>schedulerq := add_before_later s (schedulerq c)\<rparr>"

definition sched_settime :: "timeval \<Rightarrow> timeval \<Rightarrow> int \<Rightarrow> int \<times> timeval" where
  "sched_settime now tv ms =
     (let tv = (if spd_tvzero tv then now else tv);
          tv = spd_tvadd tv (the (spd_samp2tv (word_of_int ms) 1000));
          tv = (if spd_tvcmp tv now < 0 then now else tv)
      in (0, tv))"

definition spd_sched_add_flag ::
  "timeval \<Rightarrow> int \<Rightarrow> nat \<Rightarrow> nat \<Rightarrow> int \<Rightarrow> scheduler_context \<Rightarrow> int \<times> scheduler_context" where
  "spd_sched_add_flag now ms callback dat flag con =
     (if ms = 0 then (- 1, con)
      else
        (let con = sched_alloc (sched_lock con);
             tmp = \<lparr>s_flag = flag, s_reschedule = ms, s_id = sint (processedcnt con), s_when = spd_tv 0 0,
                    s_callback = callback, s_data = dat\<rparr>;
             con = con\<lparr>processedcnt := processedcnt con + 1\<rparr>;
             (err, tv) = sched_settime now (s_when tmp) ms;
             tmp = tmp\<lparr>s_when := tv\<rparr>;
             (res, con) = (if err \<noteq> 0 then (- 1, scheduler_release con) else (s_id tmp, add_scheduler tmp con))
         in (res, sched_unlock con)))"

definition spd_sched_add :: "timeval \<Rightarrow> int \<Rightarrow> nat \<Rightarrow> nat \<Rightarrow> scheduler_context \<Rightarrow> int \<times> scheduler_context" where
  "spd_sched_add now ms callback dat con = spd_sched_add_flag now ms callback dat 0 con"

fun remove_id :: "int \<Rightarrow> scheduler list \<Rightarrow> scheduler option \<times> scheduler list" where
  "remove_id i [] = (None, [])"
| "remove_id i (s # q) =
     (if s_id s = i then (Some s, q) else (case remove_id i q of (r, q) \<Rightarrow> (r, s # q)))"

definition spd_sched_del :: "int \<Rightarrow> scheduler_context \<Rightarrow> int \<times> scheduler_context" where
  "spd_sched_del i c =
     (let c = sched_lock c
      in case remove_id i (schedulerq c) of
           (Some s, q) \<Rightarrow> (0, sched_unlock (scheduler_release (c\<lparr>schedulerq := q, schedsnt := schedsnt c - 1\<rparr>)))
         | (None, q) \<Rightarrow> (- 1, sched_unlock c))"

definition spd_sched_when :: "timeval \<Rightarrow> int \<Rightarrow> scheduler_context \<Rightarrow> int \<times> scheduler_context" where
  "spd_sched_when now i con =
     ((case find (\<lambda>s. s_id s = i) (schedulerq con) of
         None \<Rightarrow> - 1
       | Some s \<Rightarrow> tv_sec (s_when s) - tv_sec now), con)"

text \<open>
  Running what is due. \<open>run\<close> is the call of the callback; it may use the scheduler and change its
  own world. \<open>clk k\<close> is the \<open>k\<close>-th value of the clock; \<open>k\<close> counts the calls. A round whose callback
  asks to be run again reads the clock twice.
\<close>

partial_function (option) runall_loop ::
  "(scheduler \<Rightarrow> scheduler_context \<times> 'w \<Rightarrow> int \<times> scheduler_context \<times> 'w) \<Rightarrow> (nat \<Rightarrow> timeval) \<Rightarrow> nat \<Rightarrow> int
     \<Rightarrow> scheduler_context \<times> 'w \<Rightarrow> (int \<times> nat \<times> scheduler_context \<times> 'w) option" where
  "runall_loop run clk k numevents cw =
     (let c = fst cw; tv = spd_tvadd (clk k) (spd_tv 0 1000)
      in case schedulerq c of
           [] \<Rightarrow> Some (numevents, k, cw)
         | cur # q \<Rightarrow>
             if spd_tvcmp (s_when cur) tv \<noteq> - 1 then Some (numevents, k + 1, cw)
             else
               (let c = sched_unlock (c\<lparr>schedulerq := q, schedsnt := schedsnt c - 1\<rparr>);
                    (res, c, w) = run cur (c, snd cw);
                    c = sched_lock c;
                    (c, k) =
                      (if res \<noteq> 0 then
                         (case sched_settime (clk (k + 1)) (s_when cur) (if s_flag cur \<noteq> 0 then res else s_reschedule cur) of
                            (err, tv) \<Rightarrow>
                              ((if err \<noteq> 0 then scheduler_release c else add_scheduler (cur\<lparr>s_when := tv\<rparr>) c), k + 2))
                       else (scheduler_release c, k + 1))
                in runall_loop run clk k (numevents + 1) (sched_unlock c, w)))"

definition spd_sched_runall ::
  "(scheduler \<Rightarrow> scheduler_context \<times> 'w \<Rightarrow> int \<times> scheduler_context \<times> 'w) \<Rightarrow> (nat \<Rightarrow> timeval)
     \<Rightarrow> scheduler_context \<times> 'w \<Rightarrow> (int \<times> nat \<times> scheduler_context \<times> 'w) option" where
  "spd_sched_runall run clk cw = runall_loop run clk 0 0 (sched_lock (fst cw), snd cw)"

text \<open>
  The blocks of a context: the cached ones and those in the queue. The end of a context frees them and
  the context; \<open>spd_mutex_destroy (&s->lock)\<close> is read as a use of the context's own mutex. The result is
  how many blocks are freed.
\<close>

definition sched_blocks :: "scheduler_context \<Rightarrow> nat" where
  "sched_blocks c = schedulerc c + length (schedulerq c)"

definition spd_sche_context_destroy :: "scheduler_context \<Rightarrow> nat \<times> scheduler_context option" where
  "spd_sche_context_destroy sc = (schedulerc sc + length (schedulerq sc) + 1, None)"

section \<open>The invariant\<close>

definition sched_ok :: "scheduler_context \<Rightarrow> bool" where
  "sched_ok c \<longleftrightarrow> sorted (map s_when (schedulerq c)) \<and> distinct (map s_id (schedulerq c)) \<and>
     (\<forall>s \<in> set (schedulerq c). s_id s < uint (processedcnt c) \<and> 0 < s_id s \<and> tv_ok (s_when s)) \<and>
     0 < processedcnt c"

lemma spd_tvcmp_less: "spd_tvcmp a b = - 1 \<longleftrightarrow> a < b"
  by (auto simp: less_timeval_def spd_tvcmp_def)

lemma spd_tvcmp_neg: "spd_tvcmp a b < 0 \<longleftrightarrow> a < b"
  by (simp add: less_timeval_def)

lemma add_before_later_split:
  "add_before_later s q = takeWhile (\<lambda>x. s_when x \<le> s_when s) q @ s # dropWhile (\<lambda>x. s_when x \<le> s_when s) q"
  by (induction q) (auto simp: spd_tvcmp_less not_less [symmetric])

lemma add_before_later_mset: "set (add_before_later s q) = insert s (set q)"
  by (induction q) auto

lemma add_before_later_sorted:
  "sorted (map s_when q) \<Longrightarrow> sorted (map s_when (add_before_later s q))"
  by (induction q) (auto simp: spd_tvcmp_less add_before_later_mset order.strict_implies_order intro: order_trans)

lemma add_before_later_distinct:
  "distinct (map s_id q) \<Longrightarrow> s_id s \<notin> s_id ` set q \<Longrightarrow> distinct (map s_id (add_before_later s q))"
  by (induction q) (auto simp: add_before_later_mset)

lemma settime_result:
  assumes "tv_ok now" "sched_settime now tv ms = (err, t)"
  shows "err = 0 \<and> tv_ok t \<and> now \<le> t"
  using assms tvadd_ok by (auto simp: sched_settime_def Let_def spd_tvcmp_neg not_less split: if_splits)

text \<open>For a new event the time is exact: \<open>ms\<close> milliseconds from now.\<close>

lemma samp2tv_ms: "\<exists>t. spd_samp2tv n 1000 = Some t \<and> tv_ok t \<and> to_us t = uint n * 1000"
proof -
  have "uint ((n mod 1000) * 1000) = uint (n mod 1000) * 1000"
    by (simp add: uint_word_ariths uint_mod)
  moreover have "(1000000 :: uint) div 1000 = 1000" by simp
  moreover have "uint (n div 1000) = uint n div 1000" "uint (n mod 1000) = uint n mod 1000"
    by (simp_all add: uint_div uint_mod)
  moreover have "uint n div 1000 * 1000000 + uint n mod 1000 * 1000 = uint n * 1000" by presburger
  ultimately show ?thesis by (simp add: spd_samp2tv_def spd_tv_def tv_ok_def to_us_def)
qed

lemma settime_new:
  assumes "tv_ok now" "0 < ms" "ms < 2 ^ 31"
  shows "\<exists>t. sched_settime now (TV 0 0) ms = (0, t) \<and> tv_ok t \<and> to_us t = to_us now + ms * 1000"
proof -
  obtain d where d: "spd_samp2tv (word_of_int ms) 1000 = Some d" "tv_ok d" "to_us d = uint (word_of_int ms :: uint) * 1000"
    using samp2tv_ms by blast
  have "uint (word_of_int ms :: uint) = ms" using assms(2,3) by (simp add: uint_word_of_int)
  then have us: "to_us (spd_tvadd now d) = to_us now + ms * 1000"
    using d assms(1) by (simp add: tvadd_us tvfix_id)
  then have "spd_tvcmp (spd_tvadd now d) now = 1"
    using assms(1,2) tvadd_ok [of now d] by (simp add: spd_tvcmp_us)
  then have "sched_settime now (TV 0 0) ms = (0, spd_tvadd now d)"
    using d(1) by (simp add: sched_settime_def spd_tvzero_def Let_def)
  with us show ?thesis by (simp add: tvadd_ok)
qed

lemma remove_id_result:
  "distinct (map s_id q) \<Longrightarrow> remove_id i q = (find (\<lambda>s. s_id s = i) q, filter (\<lambda>s. s_id s \<noteq> i) q)"
proof (induction q)
  case (Cons s q)
  then have "filter (\<lambda>x. s_id x \<noteq> s_id s) q = q" by (auto simp: filter_id_conv image_iff)
  with Cons show ?case by auto
qed simp

section \<open>Operations keep the invariant\<close>

lemma create_ok: "sched_ok spd_sched_context_create"
  by (simp add: sched_ok_def spd_sched_context_create_def)

lemma sched_state_simps [simp]:
  "schedulerq (sched_lock c) = schedulerq c" "processedcnt (sched_lock c) = processedcnt c"
  "sc_lock (sched_lock c) = sc_lock c + 1"
  "schedulerq (sched_unlock c) = schedulerq c" "processedcnt (sched_unlock c) = processedcnt c"
  "sc_lock (sched_unlock c) = sc_lock c - 1"
  "schedulerq (sched_alloc c) = schedulerq c" "processedcnt (sched_alloc c) = processedcnt c" "sc_lock (sched_alloc c) = sc_lock c"
  "schedulerq (scheduler_release c) = schedulerq c" "processedcnt (scheduler_release c) = processedcnt c"
  "sc_lock (scheduler_release c) = sc_lock c"
  "schedulerq (add_scheduler s c) = add_before_later s (schedulerq c)" "processedcnt (add_scheduler s c) = processedcnt c"
  "sc_lock (add_scheduler s c) = sc_lock c"
  "schedsnt (sched_lock c) = schedsnt c" "schedsnt (sched_unlock c) = schedsnt c" "schedsnt (scheduler_release c) = schedsnt c"
  by (simp_all add: sched_lock_def sched_unlock_def sched_alloc_def scheduler_release_def add_scheduler_def)

lemma sched_ok_simps [simp]:
  "sched_ok (sched_lock c) = sched_ok c" "sched_ok (sched_unlock c) = sched_ok c"
  "sched_ok (sched_alloc c) = sched_ok c" "sched_ok (scheduler_release c) = sched_ok c"
  "sched_ok (c\<lparr>schedsnt := n\<rparr>) = sched_ok c"
  by (simp_all add: sched_ok_def)

lemma small_id:
  assumes "uint (n :: uint) + 1 < 2 ^ 31"
  shows "sint n = uint n" "uint (n + 1) = uint n + 1"
proof -
  have "0 \<le> uint n" by simp
  with assms have "- (2 ^ 31) \<le> uint n" "uint n < 2 ^ 31" by linarith+
  then show "sint n = uint n" by (simp add: sint_uint signed_take_bit_int_eq_self_iff)
  show "uint (n + 1) = uint n + 1" using assms \<open>0 \<le> uint n\<close> by (simp add: uint_word_ariths)
qed

lemma add_ok:
  assumes "sched_ok c" "tv_ok (s_when s)" "0 < s_id s" "s_id s < uint (processedcnt c)" "s_id s \<notin> s_id ` set (schedulerq c)"
  shows "sched_ok (add_scheduler s c)"
  using assms add_before_later_sorted [of "schedulerq c" s] add_before_later_distinct [of "schedulerq c" s]
  by (auto simp: sched_ok_def add_before_later_mset)

lemma add_flag_result:
  assumes "sched_ok c" "tv_ok now" "0 < ms" "ms < 2 ^ 31" "uint (processedcnt c) + 1 < 2 ^ 31"
  shows "\<exists>s c'. spd_sched_add_flag now ms cb dat flag c = (s_id s, c') \<and> sched_ok c' \<and> sc_lock c' = sc_lock c \<and>
     schedsnt c' = schedsnt c \<and> s_id s = uint (processedcnt c) \<and> to_us (s_when s) = to_us now + ms * 1000 \<and>
     s_callback s = cb \<and> s_data s = dat \<and> schedulerq c' = add_before_later s (schedulerq c)"
proof -
  obtain t where t: "sched_settime now (TV 0 0) ms = (0, t)" "tv_ok t" "to_us t = to_us now + ms * 1000"
    using settime_new [OF assms(2-4)] by blast
  note i = small_id [OF assms(5)]
  define s where "s = \<lparr>s_flag = flag, s_reschedule = ms, s_id = uint (processedcnt c), s_when = t,
     s_callback = cb, s_data = dat\<rparr>"
  let ?c = "(sched_alloc (sched_lock c))\<lparr>processedcnt := processedcnt c + 1\<rparr>"
  have "sched_ok ?c"
    using assms(1) i(2) by (auto simp: sched_ok_def word_less_def)
  moreover have "s_id s \<notin> s_id ` set (schedulerq ?c)" "0 < s_id s" "s_id s < uint (processedcnt ?c)"
    using assms(1) i(2) by (auto simp: sched_ok_def s_def word_less_def)
  ultimately have ok: "sched_ok (add_scheduler s ?c)"
    using t(2) by (intro add_ok) (auto simp: s_def)
  have "schedsnt (add_scheduler s ?c) = schedsnt c"
    by (simp add: add_scheduler_def sched_alloc_def sched_lock_def)
  with ok t assms(3) i show ?thesis
    by (intro exI [of _ s] exI [of _ "sched_unlock (add_scheduler s ?c)"])
      (simp add: spd_sched_add_flag_def spd_tv_def s_def Let_def)
qed

lemma del_result:
  assumes "sched_ok c" "s \<in> set (schedulerq c)"
  shows "\<exists>c'. spd_sched_del (s_id s) c = (0, c') \<and> sched_ok c' \<and> sc_lock c' = sc_lock c \<and>
     schedsnt c' = schedsnt c - 1 \<and> schedulerq c' = filter (\<lambda>x. s_id x \<noteq> s_id s) (schedulerq c)"
proof -
  have d: "distinct (map s_id (schedulerq c))" using assms(1) by (simp add: sched_ok_def)
  obtain y where "find (\<lambda>x. s_id x = s_id s) (schedulerq c) = Some y"
    using assms(2) by (cases "find (\<lambda>x. s_id x = s_id s) (schedulerq c)") (auto simp: find_None_iff)
  moreover have "sched_ok (c\<lparr>schedulerq := filter (\<lambda>x. s_id x \<noteq> s_id s) (schedulerq c)\<rparr>)"
    using assms(1) by (auto simp: sched_ok_def sorted_filter distinct_map_filter)
  moreover from this have "sched_ok (c\<lparr>schedulerq := filter (\<lambda>x. s_id x \<noteq> s_id s) (schedulerq c), schedsnt := schedsnt c - 1\<rparr>)"
    by (simp add: sched_ok_def)
  ultimately show ?thesis
    by (simp add: spd_sched_del_def remove_id_result [OF d] Let_def sched_lock_def sched_unlock_def
        scheduler_release_def sched_ok_def)
qed

lemma add_before_later_filter: "\<forall>x \<in> set q. P x \<Longrightarrow> \<not> P s \<Longrightarrow> filter P (add_before_later s q) = q"
  by (induction q) (auto simp: filter_id_conv)

lemma add_before_later_length: "length (add_before_later s q) = length q + 1"
  by (induction q) auto

lemma remove_id_length:
  "remove_id i q = (r, q') \<Longrightarrow>
     (r \<noteq> None \<longleftrightarrow> (\<exists>s \<in> set q. s_id s = i)) \<and> length q = length q' + (if r = None then 0 else 1)"
  by (induction q arbitrary: r q') (auto split: if_splits prod.splits)

text \<open>
  No block is lost: adding an event takes a cached block or a new one, deleting one gives its block to
  the cache or frees it, and the end frees what is left.
\<close>

lemma add_blocks:
  "ms \<noteq> 0 \<Longrightarrow> sched_blocks (snd (spd_sched_add_flag now ms cb dat flag con)) =
     sched_blocks con + (if schedulerc con = 0 then 1 else 0)"
  by (simp add: spd_sched_add_flag_def sched_blocks_def sched_settime_def sched_alloc_def sched_lock_def sched_unlock_def
      add_scheduler_def add_before_later_length Let_def)

lemma del_blocks:
  "sched_blocks (snd (spd_sched_del i con)) =
     sched_blocks con - (if (\<exists>s \<in> set (schedulerq con). s_id s = i) \<and> SPD_SCHED_MA_CACHE \<le> schedccnt con then 1 else 0)"
  using remove_id_length [of i "schedulerq con"]
  by (auto simp: spd_sched_del_def sched_blocks_def scheduler_release_def sched_lock_def sched_unlock_def Let_def
      split: prod.splits option.splits)

lemma destroy_frees: "spd_sche_context_destroy c = (sched_blocks c + 1, None)"
  by (simp add: spd_sche_context_destroy_def sched_blocks_def)

section \<open>Running\<close>

text \<open>How many of the events run, when no callback asks to be run again.\<close>

fun due_count :: "(nat \<Rightarrow> timeval) \<Rightarrow> nat \<Rightarrow> scheduler list \<Rightarrow> nat" where
  "due_count clk k [] = 0"
| "due_count clk k (s # q) =
     (if s_when s < spd_tvadd (clk k) (spd_tv 0 1000) then Suc (due_count clk (k + 1) q) else 0)"

lemma due_count_spec:
  "due_count clk k q \<le> length q \<and>
   (\<forall>i < due_count clk k q. s_when (q ! i) < spd_tvadd (clk (k + i)) (spd_tv 0 1000)) \<and>
   (due_count clk k q < length q \<longrightarrow>
      \<not> s_when (q ! due_count clk k q) < spd_tvadd (clk (k + due_count clk k q)) (spd_tv 0 1000))"
proof (induction q arbitrary: k)
  case (Cons s q)
  from Cons [of "k + 1"] show ?case by (auto simp: less_Suc_eq_0_disj)
qed simp

lemma runall_loop_result:
  assumes "\<And>s c w. run s (c, w) = (0, c, f s w)"
  shows "\<exists>k' c'. runall_loop run clk k m (c, w) =
      Some (m + int (due_count clk k (schedulerq c)), k', c', fold f (take (due_count clk k (schedulerq c)) (schedulerq c)) w) \<and>
     schedulerq c' = drop (due_count clk k (schedulerq c)) (schedulerq c) \<and>
     processedcnt c' = processedcnt c \<and> sc_lock c' = sc_lock c - int (due_count clk k (schedulerq c)) \<and>
     schedsnt c' = schedsnt c - of_nat (due_count clk k (schedulerq c))"
proof (induction "schedulerq c" arbitrary: c k m w)
  case Nil
  from Nil [symmetric] show ?case by (subst runall_loop.simps) simp
next
  case (Cons s q)
  show ?case
  proof (cases "s_when s < spd_tvadd (clk k) (spd_tv 0 1000)")
    case False
    with Cons(2) [symmetric] show ?thesis
      by (subst runall_loop.simps) (simp add: spd_tvcmp_less Let_def)
  next
    case True
    let ?c = "sched_unlock (scheduler_release (sched_lock (sched_unlock (c\<lparr>schedulerq := q, schedsnt := schedsnt c - 1\<rparr>))))"
    have q: "schedulerq ?c = q" by simp
    from Cons(1) [of ?c "k + 1" "m + 1" "f s w"] obtain k' c' where
      IH: "runall_loop run clk (k + 1) (m + 1) (?c, f s w) =
        Some (m + 1 + int (due_count clk (k + 1) q), k', c', fold f (take (due_count clk (k + 1) q) q) (f s w))"
      "schedulerq c' = drop (due_count clk (k + 1) q) q" "processedcnt c' = processedcnt c"
      "sc_lock c' = sc_lock c - 1 - int (due_count clk (k + 1) q)"
      "schedsnt c' = schedsnt c - 1 - of_nat (due_count clk (k + 1) q)"
      unfolding q by auto
    have "runall_loop run clk k m (c, w) = runall_loop run clk (k + 1) (m + 1) (?c, f s w)"
      using True Cons(2) [symmetric] by (subst runall_loop.simps) (simp add: spd_tvcmp_less assms Let_def)
    with IH True Cons(2) [symmetric] show ?thesis by simp
  qed
qed

section \<open>Properties\<close>

text \<open>
  C30: adding an event \<open>ms\<close> milliseconds ahead keeps the queue sorted by time with
  distinct ids, puts the event exactly that far from now behind all events that are not later,
  and leaves the others alone; the id that is returned deletes just this event. The counter of
  outstanding events is only ever decremented: it is one too low afterwards.
\<close>

theorem sched_add_del:
  assumes "sched_ok c" "tv_ok now" "0 < ms" "ms < 2 ^ 31" "uint (processedcnt c) + 1 < 2 ^ 31"
  shows "\<exists>s c1 c2. spd_sched_add now ms cb dat c = (s_id s, c1) \<and> sched_ok c1 \<and>
     to_us (s_when s) = to_us now + ms * 1000 \<and> s_callback s = cb \<and> s_data s = dat \<and>
     schedulerq c1 = takeWhile (\<lambda>x. s_when x \<le> s_when s) (schedulerq c) @ s # dropWhile (\<lambda>x. s_when x \<le> s_when s) (schedulerq c) \<and>
     spd_sched_del (s_id s) c1 = (0, c2) \<and> sched_ok c2 \<and> schedulerq c2 = schedulerq c \<and> sc_lock c2 = sc_lock c \<and>
     schedsnt c2 = schedsnt c - 1"
proof -
  obtain s c1 where a: "spd_sched_add_flag now ms cb dat 0 c = (s_id s, c1)" "sched_ok c1" "sc_lock c1 = sc_lock c"
    "schedsnt c1 = schedsnt c" "s_id s = uint (processedcnt c)" "to_us (s_when s) = to_us now + ms * 1000"
    "s_callback s = cb" "s_data s = dat" "schedulerq c1 = add_before_later s (schedulerq c)"
    using add_flag_result [OF assms, of cb dat 0] by blast
  have "s \<in> set (schedulerq c1)" by (simp add: a(9) add_before_later_mset)
  from del_result [OF a(2) this] obtain c2 where d: "spd_sched_del (s_id s) c1 = (0, c2)" "sched_ok c2"
    "sc_lock c2 = sc_lock c1" "schedsnt c2 = schedsnt c1 - 1"
    "schedulerq c2 = filter (\<lambda>x. s_id x \<noteq> s_id s) (schedulerq c1)" by blast
  have "\<forall>x \<in> set (schedulerq c). s_id x \<noteq> s_id s"
    using assms(1) a(5) by (auto simp: sched_ok_def)
  then have "filter (\<lambda>x. s_id x \<noteq> s_id s) (add_before_later s (schedulerq c)) = schedulerq c"
    by (intro add_before_later_filter) auto
  with a d show ?thesis
    by (intro exI [of _ s] exI [of _ c1] exI [of _ c2]) (simp add: spd_sched_add_def add_before_later_split)
qed

theorem sched_add_del_witness:
  "\<exists>(s::scheduler) c1 c2. spd_sched_add (TV 10 0) 1500 1 2 spd_sched_context_create = (s_id s, c1) \<and>
     to_us (s_when s) = 11500000 \<and> spd_sched_del (s_id s) c1 = (0, c2) \<and> schedsnt c2 = - 1"
  using sched_add_del [OF create_ok, of "TV 10 0" 1500 1 2]
  by (auto simp: tv_ok_def to_us_def spd_sched_context_create_def)

text \<open>
  when no callback asks to be run again, \<open>spd_sched_runall\<close> returns; it runs
  a prefix of the queue, in its order, each event because it is due within a millisecond of the
  clock then read, and stops at the first event that is not. The result is their number. The
  mutex is released once per event and locked only once: what is left of its depth is 1 minus the
  number of events.
\<close>

lemma sched_runall_due:
  assumes "\<And>s c w. run s (c, w) = (0, c, f s w)"
  shows "\<exists>n k' c'. spd_sched_runall run clk (c, w) = Some (int n, k', c', fold f (take n (schedulerq c)) w) \<and>
     n \<le> length (schedulerq c) \<and> schedulerq c' = drop n (schedulerq c) \<and>
     (\<forall>i < n. s_when (schedulerq c ! i) < spd_tvadd (clk i) (spd_tv 0 1000)) \<and>
     (n < length (schedulerq c) \<longrightarrow> \<not> s_when (schedulerq c ! n) < spd_tvadd (clk n) (spd_tv 0 1000)) \<and>
     sc_lock c' = sc_lock c + 1 - int n"
proof -
  from runall_loop_result [of run f clk 0 0 "sched_lock c" w, OF assms] obtain k' c' where
    "runall_loop run clk 0 0 (sched_lock c, w) = Some (int (due_count clk 0 (schedulerq c)), k', c',
        fold f (take (due_count clk 0 (schedulerq c)) (schedulerq c)) w)"
    "schedulerq c' = drop (due_count clk 0 (schedulerq c)) (schedulerq c)"
    "sc_lock c' = sc_lock c + 1 - int (due_count clk 0 (schedulerq c))"
    by auto
  with due_count_spec [of clk 0 "schedulerq c"] show ?thesis
    by (intro exI [of _ "due_count clk 0 (schedulerq c)"] exI [of _ k'] exI [of _ c']) (simp add: spd_sched_runall_def)
qed

theorem sched_runall_due_witness:
  "\<exists>n k' c'. spd_sched_runall (\<lambda>s (c, w). (0, c, w @ [s_id s])) (\<lambda>_. TV 10 0) (spd_sched_context_create, []) =
     Some (int n, k', c', []) \<and> sc_lock c' = 1"
  using sched_runall_due [of "\<lambda>s (c, w). (0, c, w @ [s_id s])" "\<lambda>s w. w @ [s_id s]" "\<lambda>_. TV 10 0" spd_sched_context_create "[]"]
  by (auto simp: spd_sched_context_create_def)

end
