(* ===== verification/Spd_Sockaddr.thy ===== *)
theory Spd_Sockaddr
  imports Spd_CString
begin

unbundle bit_operations_syntax

text \<open>
  Socket addresses: \<open>src/socket.c\<close> and \<open>src/socket.h\<close>. A \<open>sockaddr_storage\<close> is its 128 bytes, in the
  layout of Linux on a little-endian machine: the family in bytes 0 and 1 (host order), the port in
  bytes 2 and 3 (network order), the IPv4 address in bytes 4 to 7, the IPv6 address in bytes 8 to
  23. \<open>getaddrinfo\<close> and \<open>getnameinfo\<close> are arguments.
\<close>

section \<open>Addresses as bytes\<close>

type_synonym octet = "8 word"

record spd_sockaddr =
  sa_ss :: "octet list"
  sa_len :: nat

definition AF_INET :: "16 word" where "AF_INET = 2"
definition AF_INET6 :: "16 word" where "AF_INET6 = 10"

text \<open>\<open>sizeof (struct sockaddr_in)\<close> and \<open>sizeof (struct sockaddr_in6)\<close>.\<close>

definition SIN_SIZE :: nat where "SIN_SIZE = 16"
definition SIN6_SIZE :: nat where "SIN6_SIZE = 28"

definition u16_le :: "octet \<Rightarrow> octet \<Rightarrow> 16 word" where
  "u16_le a b = ucast a + 256 * ucast b"

definition u16_be :: "octet \<Rightarrow> octet \<Rightarrow> 16 word" where
  "u16_be a b = 256 * ucast a + ucast b"

definition ss_family :: "spd_sockaddr \<Rightarrow> 16 word" where
  "ss_family a = u16_le (sa_ss a ! 0) (sa_ss a ! 1)"

definition sin_addr :: "spd_sockaddr \<Rightarrow> octet list" where
  "sin_addr a = take 4 (drop 4 (sa_ss a))"

definition sin6_addr :: "spd_sockaddr \<Rightarrow> octet list" where
  "sin6_addr a = take 16 (drop 8 (sa_ss a))"

text \<open>A structure is filled by \<open>memset\<close> and assignments: here the bytes of a \<open>sockaddr_in\<close>.\<close>

definition sin_bytes :: "octet \<Rightarrow> octet \<Rightarrow> octet list \<Rightarrow> octet list" where
  "sin_bytes p0 p1 addr = [2, 0, p0, p1] @ addr @ replicate 8 0"

section \<open>Tests and comparison\<close>

definition spd_sockaddr_isnull :: "spd_sockaddr option \<Rightarrow> bool" where
  "spd_sockaddr_isnull ss = (case ss of None \<Rightarrow> True | Some a \<Rightarrow> sa_len a = 0)"

definition spd_sockaddr_setnull :: "spd_sockaddr \<Rightarrow> spd_sockaddr" where
  "spd_sockaddr_setnull ss = ss\<lparr>sa_len := 0\<rparr>"

definition spd_sockaddr_copy :: "spd_sockaddr \<Rightarrow> spd_sockaddr \<Rightarrow> spd_sockaddr" where
  "spd_sockaddr_copy dst src =
     dst\<lparr>sa_ss := take (sa_len src) (sa_ss src) @ drop (sa_len src) (sa_ss dst), sa_len := sa_len src\<rparr>"

text \<open>The IPv4 test compares with the IPv6 family, as the IPv6 test does.\<close>

definition spd_sockaddr_is_ipv4 :: "spd_sockaddr \<Rightarrow> bool" where
  "spd_sockaddr_is_ipv4 addr \<longleftrightarrow> ss_family addr = AF_INET6 \<and> sa_len addr = SIN6_SIZE"

definition spd_sockaddr_is_ipv6 :: "spd_sockaddr \<Rightarrow> bool" where
  "spd_sockaddr_is_ipv6 addr \<longleftrightarrow> ss_family addr = AF_INET6 \<and> sa_len addr = SIN6_SIZE"

definition spd_sockaddr_is_ipv4_mapped :: "spd_sockaddr \<Rightarrow> bool" where
  "spd_sockaddr_is_ipv4_mapped addr \<longleftrightarrow>
     sa_len addr \<noteq> 0 \<and> take 12 (sin6_addr addr) = replicate 10 0 @ [0xFF, 0xFF]"

definition spd_sockaddr_is_ipv6_link_local :: "spd_sockaddr \<Rightarrow> bool" where
  "spd_sockaddr_is_ipv6_link_local addr \<longleftrightarrow>
     sa_len addr \<noteq> 0 \<and> sin6_addr addr ! 0 = 0xFE \<and> sin6_addr addr ! 1 AND 0xC0 = 0x80"

definition spd_sockaddr_ipv4 :: "spd_sockaddr \<Rightarrow> 32 word" where
  "spd_sockaddr_ipv4 addr = foldl (\<lambda>n b. 256 * n + ucast b) 0 (sin_addr addr)"

definition spd_sockaddr_is_ipv4_multicast :: "spd_sockaddr \<Rightarrow> bool" where
  "spd_sockaddr_is_ipv4_multicast addr \<longleftrightarrow> spd_sockaddr_ipv4 addr AND 0xF0000000 = 0xE0000000"

definition spd_sockaddr_is_any :: "spd_sockaddr \<Rightarrow> bool" where
  "spd_sockaddr_is_any addr \<longleftrightarrow>
     (spd_sockaddr_is_ipv4 addr \<and> sin_addr addr = replicate 4 0) \<or>
     (spd_sockaddr_is_ipv6 addr \<and> sin6_addr addr = replicate 16 0)"

definition spd_sockaddr_from_sin :: "spd_sockaddr \<Rightarrow> octet list \<Rightarrow> spd_sockaddr" where
  "spd_sockaddr_from_sin addr sin = addr\<lparr>sa_ss := sin @ drop SIN_SIZE (sa_ss addr), sa_len := SIN_SIZE\<rparr>"

text \<open>The result and the address written to \<open>sin\<close>, if any.\<close>

definition spd_sockaddr_to_sin :: "spd_sockaddr option \<Rightarrow> int \<times> octet list option" where
  "spd_sockaddr_to_sin addr =
     (if spd_sockaddr_isnull addr then (1, Some (replicate SIN_SIZE 0))
      else if sa_len (the addr) \<noteq> SIN_SIZE then (0, None)
      else (1, Some (take SIN_SIZE (sa_ss (the addr)))))"

definition spd_sockaddr_ipv4_mapped :: "spd_sockaddr \<Rightarrow> spd_sockaddr \<Rightarrow> spd_sockaddr option" where
  "spd_sockaddr_ipv4_mapped addr spd_mapped =
     (if \<not> spd_sockaddr_is_ipv6 addr then None
      else if \<not> spd_sockaddr_is_ipv4_mapped addr then None
      else Some (spd_sockaddr_from_sin spd_mapped
                  (sin_bytes (sa_ss addr ! 2) (sa_ss addr ! 3) (drop 12 (sin6_addr addr)))))"

text \<open>The sign of \<open>memcmp\<close>.\<close>

fun memcmp :: "octet list \<Rightarrow> octet list \<Rightarrow> int" where
  "memcmp (a # as) (b # bs) = (if a = b then memcmp as bs else if a < b then - 1 else 1)"
| "memcmp _ _ = 0"

text \<open>\<open>uninit\<close> is the contents of the local \<open>maped_addr\<close> before it is written.\<close>

definition spd_sockaddr_cmp :: "spd_sockaddr \<Rightarrow> spd_sockaddr \<Rightarrow> spd_sockaddr \<Rightarrow> int" where
  "spd_sockaddr_cmp uninit a b =
     (let (a_tmp, b_tmp) =
            (if sa_len a \<noteq> sa_len b then
               (case spd_sockaddr_ipv4_mapped a uninit of
                  Some m \<Rightarrow> (m, b)
                | None \<Rightarrow> (case spd_sockaddr_ipv4_mapped b uninit of Some m \<Rightarrow> (a, m) | None \<Rightarrow> (a, b)))
             else (a, b))
      in if sa_len a_tmp < sa_len b_tmp then - 1
         else if sa_len a_tmp > sa_len b_tmp then 1
         else memcmp (take (sa_len a_tmp) (sa_ss a_tmp)) (take (sa_len a_tmp) (sa_ss b_tmp)))"

text \<open>For IPv6 addresses the pointers of the IPv4 branch are used, which are not set.\<close>

definition spd_sockaddr_cmp_addr :: "spd_sockaddr \<Rightarrow> spd_sockaddr \<Rightarrow> spd_sockaddr \<Rightarrow> int option" where
  "spd_sockaddr_cmp_addr uninit a b =
     (let (a_tmp, b_tmp) =
            (if sa_len a \<noteq> sa_len b then
               (case spd_sockaddr_ipv4_mapped a uninit of
                  Some m \<Rightarrow> (m, b)
                | None \<Rightarrow> (case spd_sockaddr_ipv4_mapped b uninit of Some m \<Rightarrow> (a, m) | None \<Rightarrow> (a, b)))
             else (a, b));
          ret = (if sa_len a < sa_len b then - 1 else if sa_len a > sa_len b then 0 else - 1)
      in if ss_family a_tmp = AF_INET then Some (memcmp (sin_addr a_tmp) (sin_addr b_tmp))
         else if ss_family a_tmp = AF_INET6 then None
         else Some ret)"

section \<open>Ports\<close>

text \<open>The result type is \<open>unsigned char\<close>.\<close>

definition spd_sockaddr_get_port :: "spd_sockaddr \<Rightarrow> octet" where
  "spd_sockaddr_get_port addr =
     (if ss_family addr = AF_INET \<and> sa_len addr = SIN_SIZE then ucast (u16_be (sa_ss addr ! 2) (sa_ss addr ! 3))
      else if ss_family addr = AF_INET6 \<and> sa_len addr = SIN6_SIZE then ucast (u16_be (sa_ss addr ! 2) (sa_ss addr ! 3))
      else 0)"

definition put_port :: "16 word \<Rightarrow> spd_sockaddr \<Rightarrow> spd_sockaddr" where
  "put_port port addr = addr\<lparr>sa_ss := (sa_ss addr)[2 := ucast (drop_bit 8 port), 3 := ucast port]\<rparr>"

definition spd_sockaddr_set_port :: "spd_sockaddr \<Rightarrow> 16 word \<Rightarrow> spd_sockaddr" where
  "spd_sockaddr_set_port addr port =
     (if ss_family addr = AF_INET \<and> sa_len addr = SIN_SIZE then put_port port addr
      else if ss_family addr = AF_INET6 \<and> sa_len addr = SIN6_SIZE then put_port port addr
      else addr)"

section \<open>Host and port in a string\<close>

type_synonym pflags = "32 word"

definition PARSE_PORT_MASK :: pflags where "PARSE_PORT_MASK = 0x0300"
definition PARSE_PORT_IGNORE :: pflags where "PARSE_PORT_IGNORE = 0x0100"
definition PARSE_PORT_REQUIRE :: pflags where "PARSE_PORT_REQUIRE = 0x0200"
definition PARSE_PORT_FORBID :: pflags where "PARSE_PORT_FORBID = 0x0300"

text \<open>
  The scan for colons from position \<open>i\<close> on: the position of the only one, or \<open>None\<close> when there is
  none or a second one.
\<close>

fun colon_scan :: "string \<Rightarrow> nat \<Rightarrow> nat option \<Rightarrow> nat option" where
  "colon_scan [] i port = port"
| "colon_scan (c # s) i port =
     (if c = CHR '':'' then (if port \<noteq> None then None else colon_scan s (i + 1) (Some i))
      else colon_scan s (i + 1) port)"

text \<open>The host, and the port; the host ends where the NUL is written.\<close>

definition spd_sockaddr_stringto_hostport :: "string \<Rightarrow> pflags \<Rightarrow> (string \<times> string option) option" where
  "spd_sockaddr_stringto_hostport str flags =
     (let (host, port) =
            (if take 1 str = ''['' then
               (let h = takeWhile (\<lambda>c. c \<noteq> CHR '']'') (tl str); r = drop (length h) (tl str);
                    r = (if r \<noteq> [] then tl r else r)
                in (h, if take 1 r = '':'' then Some (tl r) else None))
             else
               (case colon_scan str 0 None of
                  None \<Rightarrow> (str, None)
                | Some i \<Rightarrow> (take i str, Some (drop (i + 1) str))));
          m = flags AND PARSE_PORT_MASK
      in if m = PARSE_PORT_IGNORE then Some (host, None)
         else if m = PARSE_PORT_REQUIRE \<and> port = None then None
         else if m = PARSE_PORT_FORBID \<and> port \<noteq> None then None
         else Some (host, port))"

text \<open>
  \<open>gai\<close> is \<open>getaddrinfo\<close> for the given host, port and address family: the addresses, as bytes, or an
  error. On success there is at least one.
\<close>

type_synonym getaddrinfo = "string \<Rightarrow> string option \<Rightarrow> int \<Rightarrow> octet list list option"

definition spd_sockaddr_parse :: "getaddrinfo \<Rightarrow> spd_sockaddr \<Rightarrow> string \<Rightarrow> pflags \<Rightarrow> int \<times> spd_sockaddr" where
  "spd_sockaddr_parse gai addr str flags =
     (case spd_sockaddr_stringto_hostport str flags of
        None \<Rightarrow> (0, addr)
      | Some (host, port) \<Rightarrow>
          (case gai host port 0 of
             None \<Rightarrow> (0, addr)
           | Some res \<Rightarrow>
               (1, addr\<lparr>sa_ss := hd res @ drop (length (hd res)) (sa_ss addr), sa_len := length (hd res)\<rparr>)))"

definition spd_sockaddr_resolve ::
  "getaddrinfo \<Rightarrow> string option \<Rightarrow> pflags \<Rightarrow> int \<Rightarrow> nat \<times> (octet list \<times> nat) list option" where
  "spd_sockaddr_resolve gai str flags family =
     (case str of
        None \<Rightarrow> (0, None)
      | Some str \<Rightarrow>
          (case spd_sockaddr_stringto_hostport str flags of
             None \<Rightarrow> (0, None)
           | Some (host, port) \<Rightarrow>
               (case gai host port family of
                  None \<Rightarrow> (0, None)
                | Some res \<Rightarrow> (length res, Some (map (\<lambda>b. (b, length b)) res)))))"

section \<open>Text form\<close>

definition SPD_SOCKADDR_STR_ADDR :: pflags where "SPD_SOCKADDR_STR_ADDR = 1"
definition SPD_SOCKADDR_STR_PORT :: pflags where "SPD_SOCKADDR_STR_PORT = 2"
definition SPD_SOCKADDR_STR_BRACKETS :: pflags where "SPD_SOCKADDR_STR_BRACKETS = 4"
definition SPD_SOCKADDR_STR_REMOTE :: pflags where "SPD_SOCKADDR_STR_REMOTE = 8"
definition SPD_SOCKADDR_STR_HOST :: pflags where "SPD_SOCKADDR_STR_HOST = SPD_SOCKADDR_STR_ADDR OR SPD_SOCKADDR_STR_BRACKETS"
definition SPD_SOCKADDR_STR_DEFAULT :: pflags where "SPD_SOCKADDR_STR_DEFAULT = SPD_SOCKADDR_STR_ADDR OR SPD_SOCKADDR_STR_PORT"
definition SPD_SOCKADDR_STR_FORMAT_MASK :: pflags where
  "SPD_SOCKADDR_STR_FORMAT_MASK = SPD_SOCKADDR_STR_ADDR OR SPD_SOCKADDR_STR_PORT OR SPD_SOCKADDR_STR_BRACKETS"

text \<open>
  \<open>gni\<close> is \<open>getnameinfo\<close> (numeric): host and port of an address, or an error. The first test is the
  wrong way round: every address that is not null gives the empty string, and a null pointer is
  followed (\<open>None\<close>).
\<close>

definition spd_sockaddr_tostring_fmt ::
  "(spd_sockaddr \<Rightarrow> nat \<Rightarrow> (string \<times> string) option) \<Rightarrow> spd_sockaddr \<Rightarrow> spd_sockaddr option \<Rightarrow> pflags \<Rightarrow> string option" where
  "spd_sockaddr_tostring_fmt gni uninit addr fmt =
     (if \<not> spd_sockaddr_isnull addr then Some []
      else case addr of
             None \<Rightarrow> None
           | Some a \<Rightarrow>
               (let tmp = (case spd_sockaddr_ipv4_mapped a uninit of Some m \<Rightarrow> m | None \<Rightarrow> a)
                in case gni tmp (sa_len a) of
                     None \<Rightarrow> Some []
                   | Some (host, port) \<Rightarrow>
                       (let host = (if fmt AND SPD_SOCKADDR_STR_REMOTE = SPD_SOCKADDR_STR_REMOTE \<and>
                                       spd_sockaddr_is_ipv6_link_local a
                                    then takeWhile (\<lambda>c. c \<noteq> CHR ''%'') host else host);
                            br = (if ss_family tmp = AF_INET6 then ''['' @ host @ '']'' else host);
                            m = fmt AND SPD_SOCKADDR_STR_FORMAT_MASK
                        in if m = SPD_SOCKADDR_STR_DEFAULT then Some (br @ '':'' @ port)
                           else if m = SPD_SOCKADDR_STR_ADDR then Some host
                           else if m = SPD_SOCKADDR_STR_HOST then Some br
                           else if m = SPD_SOCKADDR_STR_PORT then Some port
                           else Some [])))"

definition SPD_SOCKADDR_STR_ADDR_REMOTE :: pflags where
  "SPD_SOCKADDR_STR_ADDR_REMOTE = SPD_SOCKADDR_STR_ADDR OR SPD_SOCKADDR_STR_REMOTE"

definition SPD_SOCKADDR_STR_HOST_REMOTE :: pflags where
  "SPD_SOCKADDR_STR_HOST_REMOTE = SPD_SOCKADDR_STR_HOST OR SPD_SOCKADDR_STR_REMOTE"

definition SPD_SOCKADDR_STR_DEFAULT_REMOTE :: pflags where
  "SPD_SOCKADDR_STR_DEFAULT_REMOTE = SPD_SOCKADDR_STR_DEFAULT OR SPD_SOCKADDR_STR_REMOTE"

text \<open>What \<open>getnameinfo\<close> is to the printing functions.\<close>

type_synonym nameinfo = "spd_sockaddr \<Rightarrow> nat \<Rightarrow> (string \<times> string) option"

definition spd_sockaddr_tostring_default :: "nameinfo \<Rightarrow> spd_sockaddr \<Rightarrow> spd_sockaddr option \<Rightarrow> string option" where
  "spd_sockaddr_tostring_default gni uninit addr = spd_sockaddr_tostring_fmt gni uninit addr SPD_SOCKADDR_STR_DEFAULT"

definition spd_sockaddr_tostring_remote :: "nameinfo \<Rightarrow> spd_sockaddr \<Rightarrow> spd_sockaddr option \<Rightarrow> string option" where
  "spd_sockaddr_tostring_remote gni uninit addr = spd_sockaddr_tostring_fmt gni uninit addr SPD_SOCKADDR_STR_DEFAULT_REMOTE"

definition spd_sockaddr_tostring_addr :: "nameinfo \<Rightarrow> spd_sockaddr \<Rightarrow> spd_sockaddr option \<Rightarrow> string option" where
  "spd_sockaddr_tostring_addr gni uninit addr = spd_sockaddr_tostring_fmt gni uninit addr SPD_SOCKADDR_STR_ADDR"

definition spd_sockaddr_tostring_addr_remote :: "nameinfo \<Rightarrow> spd_sockaddr \<Rightarrow> spd_sockaddr option \<Rightarrow> string option" where
  "spd_sockaddr_tostring_addr_remote gni uninit addr = spd_sockaddr_tostring_fmt gni uninit addr SPD_SOCKADDR_STR_ADDR_REMOTE"

definition spd_sockaddr_tostring_host :: "nameinfo \<Rightarrow> spd_sockaddr \<Rightarrow> spd_sockaddr option \<Rightarrow> string option" where
  "spd_sockaddr_tostring_host gni uninit addr = spd_sockaddr_tostring_fmt gni uninit addr SPD_SOCKADDR_STR_HOST"

definition spd_sockaddr_tostring_host_remote :: "nameinfo \<Rightarrow> spd_sockaddr \<Rightarrow> spd_sockaddr option \<Rightarrow> string option" where
  "spd_sockaddr_tostring_host_remote gni uninit addr = spd_sockaddr_tostring_fmt gni uninit addr SPD_SOCKADDR_STR_HOST_REMOTE"

definition spd_sockaddr_tostring_port :: "nameinfo \<Rightarrow> spd_sockaddr \<Rightarrow> spd_sockaddr option \<Rightarrow> string option" where
  "spd_sockaddr_tostring_port gni uninit addr = spd_sockaddr_tostring_fmt gni uninit addr SPD_SOCKADDR_STR_PORT"

section \<open>Lemmas\<close>

lemma colon_scan_none: "CHR '':'' \<notin> set s \<Longrightarrow> colon_scan s i p = p"
  by (induction s arbitrary: i) auto

lemma colon_scan_split: "CHR '':'' \<notin> set s \<Longrightarrow> CHR '':'' \<notin> set t \<Longrightarrow> colon_scan (s @ CHR '':'' # t) i None = Some (i + length s)"
  by (induction s arbitrary: i) (auto simp: colon_scan_none)

lemma take1_append: "take 1 (s @ t) = c # [] \<longleftrightarrow> take 1 s = [c] \<or> s = [] \<and> take 1 t = [c]"
  by (cases s) auto

lemma split_plain:
  assumes "CHR '':'' \<notin> set host" "take 1 host \<noteq> ''[''" "CHR '':'' \<notin> set port"
  shows "take 1 (host @ CHR '':'' # port) \<noteq> ''[''"
    and "colon_scan (host @ CHR '':'' # port) 0 None = Some (length host)"
  using assms colon_scan_split [of host port 0] by (cases host; auto)+

lemma takeWhile_before: "c \<notin> set s \<Longrightarrow> takeWhile (\<lambda>x. x \<noteq> c) (s @ c # t) = s"
  by (induction s) auto

lemma split_16: "0 \<le> (n::int) \<Longrightarrow> n < 65536 \<Longrightarrow> (256 * (n div 256 mod 256) + n mod 256) mod 65536 = n"
proof -
  assume n: "0 \<le> n" "n < 65536"
  then have "0 \<le> n div 256" "n div 256 < 256" by (simp_all add: pos_imp_zdiv_nonneg_iff div_less_iff_less_mult)
  then have "n div 256 mod 256 = n div 256" by (rule mod_pos_pos_trivial)
  then show ?thesis using n by (simp add: mult_div_mod_eq)
qed

lemma put_port_bytes: "u16_be (ucast (drop_bit 8 (port :: 16 word))) (ucast port) = port"
proof -
  let ?hi = "ucast (drop_bit 8 port) :: octet" and ?lo = "ucast port :: octet"
  have hl: "uint ?hi = uint port div 256 mod 256" "uint ?lo = uint port mod 256"
    by (simp_all add: unsigned_ucast_eq take_bit_eq_mod drop_bit_eq_div uint_div uint_mod)
  have up: "uint (ucast b :: 16 word) = uint b" for b :: octet
    using uint_lt2p [of b] by (simp add: unsigned_ucast_eq take_bit_eq_mod)
  have p: "0 \<le> uint port" "uint port < 65536" using uint_lt2p [of port] by simp_all
  have "uint (u16_be ?hi ?lo) = (256 * (uint port div 256 mod 256) + uint port mod 256) mod 65536"
    by (simp add: u16_be_def uint_word_ariths up hl mod_add_left_eq)
  also have "\<dots> = uint port" using p split_16 by blast
  finally show ?thesis by (simp only: word_uint_eq_iff)
qed

lemma from_sin_family:
  "ss_family (spd_sockaddr_from_sin m (sin_bytes p0 p1 ad)) = AF_INET"
  by (simp add: ss_family_def spd_sockaddr_from_sin_def sin_bytes_def u16_le_def AF_INET_def)

lemma memcmp_eq_0: "length as = length bs \<Longrightarrow> memcmp as bs = 0 \<longleftrightarrow> as = bs"
  by (induction as bs rule: memcmp.induct) auto

text \<open>An IPv6 address without flow information is reported as the wildcard address.\<close>

lemma is_any_wrong:
  "spd_sockaddr_is_ipv6 a \<Longrightarrow> sin_addr a = replicate 4 0 \<Longrightarrow> spd_sockaddr_is_any a"
  by (simp add: spd_sockaddr_is_any_def spd_sockaddr_is_ipv4_def spd_sockaddr_is_ipv6_def)

lemma tostring_empty: "0 < sa_len a \<Longrightarrow> spd_sockaddr_tostring_fmt gni u (Some a) fmt = Some []"
  by (simp add: spd_sockaddr_tostring_fmt_def spd_sockaddr_isnull_def)

section \<open>Calls of the kernel\<close>

text \<open>
  The kernel writes as many octets of an address as there is room for and sets the length to the whole
  of it; what it answers is an argument, \<open>None\<close> for an error. \<open>spd_accept\<close> offers the size of the whole
  structure, 136, the others that of the storage. An address is handed over as its first \<open>len\<close> octets.
\<close>

definition STORAGE_SIZE :: nat where "STORAGE_SIZE = 128"
definition SOCKADDR_SIZE :: nat where "SOCKADDR_SIZE = 136"

definition fill_addr :: "nat \<Rightarrow> octet list \<Rightarrow> spd_sockaddr \<Rightarrow> spd_sockaddr" where
  "fill_addr room src addr =
     (let n = min room (length src)
      in addr\<lparr>sa_ss := take n src @ drop n (sa_ss addr), sa_len := length src\<rparr>)"

definition give_addr :: "spd_sockaddr \<Rightarrow> octet list" where
  "give_addr addr = take (sa_len addr) (sa_ss addr)"

definition spd_bind :: "(int \<Rightarrow> octet list \<Rightarrow> int) \<Rightarrow> int \<Rightarrow> spd_sockaddr \<Rightarrow> int" where
  "spd_bind bind fd addr = bind fd (give_addr addr)"

definition spd_listen :: "(int \<Rightarrow> int \<Rightarrow> int) \<Rightarrow> int \<Rightarrow> int \<Rightarrow> int" where
  "spd_listen listen fd backlog = listen fd backlog"

definition spd_accept :: "(int \<Rightarrow> (int \<times> octet list) option) \<Rightarrow> int \<Rightarrow> spd_sockaddr \<Rightarrow> int \<times> spd_sockaddr" where
  "spd_accept accept fd addr =
     (let addr = addr\<lparr>sa_len := SOCKADDR_SIZE\<rparr>
      in case accept fd of None \<Rightarrow> (- 1, addr) | Some (s, src) \<Rightarrow> (s, fill_addr (sa_len addr) src addr))"

definition spd_connect :: "(int \<Rightarrow> octet list \<Rightarrow> int) \<Rightarrow> int \<Rightarrow> spd_sockaddr \<Rightarrow> int" where
  "spd_connect connect fd addr = connect fd (give_addr addr)"

text \<open>The kernel gives a datagram, cut to the buffer, and where it comes from.\<close>

definition spd_recvfrom ::
  "(int \<Rightarrow> int \<Rightarrow> (octet list \<times> octet list) option) \<Rightarrow> int \<Rightarrow> octet list \<Rightarrow> nat \<Rightarrow> int \<Rightarrow> spd_sockaddr \<Rightarrow>
   int \<times> octet list \<times> spd_sockaddr" where
  "spd_recvfrom recvfrom sockfd buf len flags src_addr =
     (let src_addr = src_addr\<lparr>sa_len := STORAGE_SIZE\<rparr>
      in case recvfrom sockfd flags of
           None \<Rightarrow> (- 1, buf, src_addr)
         | Some (dg, src) \<Rightarrow>
             (int (length (take len dg)), take len dg @ drop (length (take len dg)) buf,
              fill_addr (sa_len src_addr) src src_addr))"

definition spd_getsockname :: "(int \<Rightarrow> octet list option) \<Rightarrow> int \<Rightarrow> spd_sockaddr \<Rightarrow> int \<times> spd_sockaddr" where
  "spd_getsockname getsockname sockfd addr =
     (let addr = addr\<lparr>sa_len := STORAGE_SIZE\<rparr>
      in case getsockname sockfd of None \<Rightarrow> (- 1, addr) | Some src \<Rightarrow> (0, fill_addr (sa_len addr) src addr))"

definition spd_sendto ::
  "(int \<Rightarrow> octet list \<Rightarrow> int \<Rightarrow> octet list \<Rightarrow> int) \<Rightarrow> int \<Rightarrow> octet list \<Rightarrow> nat \<Rightarrow> int \<Rightarrow> spd_sockaddr \<Rightarrow> int" where
  "spd_sendto sendto sockfd buf len flags dest_addr = sendto sockfd (take len buf) flags (give_addr dest_addr)"

lemma give_fill: "length src \<le> room \<Longrightarrow> give_addr (fill_addr room src addr) = src"
  by (simp add: give_addr_def fill_addr_def Let_def min_def)

lemma fill_within: "length (sa_ss addr) = STORAGE_SIZE \<Longrightarrow> length src \<le> STORAGE_SIZE \<Longrightarrow>
    length (sa_ss (fill_addr room src addr)) = STORAGE_SIZE"
  by (simp add: fill_addr_def Let_def min_def)

text \<open>
  An answer to a datagram goes to the octets that its sender had, and no octet is written outside the
  storage, as long as the kernel's addresses fit into it; the room that \<open>spd_accept\<close> offers does not
  protect the length behind the storage from a longer one.
\<close>

lemma answer_reaches_sender:
  assumes "recvfrom fd flags = Some (dg, src)" "length src \<le> STORAGE_SIZE" "length (sa_ss addr) = STORAGE_SIZE"
    and "spd_recvfrom recvfrom fd buf len flags addr = (n, buf', addr')"
  shows "n = int (min len (length dg)) \<and> take (nat n) buf' = take len dg \<and> length (sa_ss addr') = STORAGE_SIZE \<and>
     spd_sendto sendto fd buf' (nat n) flags addr' = sendto fd (take len dg) flags src"
proof -
  have "take (min len (length dg)) dg = take len dg" by (simp add: min_def)
  then show ?thesis using assms give_fill [of src STORAGE_SIZE] fill_within [of _ src STORAGE_SIZE]
    by (auto simp: spd_recvfrom_def spd_sendto_def Let_def min.commute)
qed

lemma accept_beyond_storage:
  assumes "accept fd = Some (s, src)" "STORAGE_SIZE < length src" "length (sa_ss addr) = STORAGE_SIZE"
  shows "STORAGE_SIZE < length (sa_ss (snd (spd_accept accept fd addr)))"
  using assms by (simp add: spd_accept_def fill_addr_def STORAGE_SIZE_def SOCKADDR_SIZE_def Let_def min_def)

section \<open>Properties\<close>

text \<open>
  C39: a host and a port joined by a colon, the host in brackets or free of colons,
  are split into the same host and port; the flags drop the port, forbid it or require it.
\<close>

theorem hostport_roundtrip:
  assumes "if br then CHR '']'' \<notin> set host else CHR '':'' \<notin> set host \<and> take 1 host \<noteq> ''['' \<and> CHR '':'' \<notin> set port"
    and "h = (if br then ''['' @ host @ '']'' else host)"
  shows "spd_sockaddr_stringto_hostport (h @ '':'' @ port) 0 = Some (host, Some port) \<and>
     spd_sockaddr_stringto_hostport (h @ '':'' @ port) PARSE_PORT_REQUIRE = Some (host, Some port) \<and>
     spd_sockaddr_stringto_hostport (h @ '':'' @ port) PARSE_PORT_IGNORE = Some (host, None) \<and>
     spd_sockaddr_stringto_hostport (h @ '':'' @ port) PARSE_PORT_FORBID = None \<and>
     spd_sockaddr_stringto_hostport h PARSE_PORT_REQUIRE = None \<and>
     spd_sockaddr_stringto_hostport h PARSE_PORT_FORBID = Some (host, None)"
proof (cases br)
  case True
  have "takeWhile (\<lambda>x. x \<noteq> CHR '']'') (host @ CHR '']'' # CHR '':'' # port) = host"
    "takeWhile (\<lambda>x. x \<noteq> CHR '']'') (host @ [CHR '']'']) = host"
    using assms(1) True by (simp_all add: takeWhile_before)
  with True assms(2) show ?thesis
    by (simp add: spd_sockaddr_stringto_hostport_def PARSE_PORT_MASK_def PARSE_PORT_REQUIRE_def
        PARSE_PORT_IGNORE_def PARSE_PORT_FORBID_def)
next
  case False
  with assms(1) split_plain [of host port] have
    "take 1 (host @ CHR '':'' # port) \<noteq> ''[''" "colon_scan (host @ CHR '':'' # port) 0 None = Some (length host)"
    "take 1 host \<noteq> ''[''" "colon_scan host 0 None = None"
    by (auto simp: colon_scan_none)
  with False assms(2) show ?thesis
    by (simp add: spd_sockaddr_stringto_hostport_def PARSE_PORT_MASK_def PARSE_PORT_REQUIRE_def
        PARSE_PORT_IGNORE_def PARSE_PORT_FORBID_def)
qed

theorem hostport_roundtrip_witness:
  "spd_sockaddr_stringto_hostport ''[::1]:5060'' 0 = Some (''::1'', Some ''5060'') \<and>
   spd_sockaddr_stringto_hostport ''localhost'' PARSE_PORT_REQUIRE = None"
  using hostport_roundtrip [of True "''::1''" "''5060''" "''[::1]''"]
    hostport_roundtrip [of False "''localhost''" "''5060''" "''localhost''"] by simp

text \<open>
  \<open>spd_sockaddr_set_port\<close> changes just the two port bytes of an IPv4 or IPv6
  address, and \<open>spd_sockaddr_get_port\<close> then reads the port modulo 256: it comes back unchanged
  exactly when it is less than 256.
\<close>

lemma port_truncated:
  assumes "(ss_family a = AF_INET \<and> sa_len a = SIN_SIZE) \<or> (ss_family a = AF_INET6 \<and> sa_len a = SIN6_SIZE)"
    and "4 \<le> length (sa_ss a)"
  shows "uint (spd_sockaddr_get_port (spd_sockaddr_set_port a port)) = uint port mod 256 \<and>
     (uint (spd_sockaddr_get_port (spd_sockaddr_set_port a port)) = uint port \<longleftrightarrow> uint port < 256) \<and>
     sa_len (spd_sockaddr_set_port a port) = sa_len a \<and>
     (\<forall>i. i \<noteq> 2 \<and> i \<noteq> 3 \<longrightarrow> sa_ss (spd_sockaddr_set_port a port) ! i = sa_ss a ! i)"
proof -
  have s: "spd_sockaddr_set_port a port = put_port port a"
    using assms(1) by (auto simp: spd_sockaddr_set_port_def)
  have f: "ss_family (put_port port a) = ss_family a" "sa_len (put_port port a) = sa_len a"
    by (simp_all add: ss_family_def put_port_def)
  have "spd_sockaddr_get_port (put_port port a) = ucast port"
    using assms put_port_bytes [of port] f
    by (auto simp: spd_sockaddr_get_port_def) (simp_all add: put_port_def)
  then have "uint (spd_sockaddr_get_port (put_port port a)) = uint port mod 256"
    by (simp add: unsigned_ucast_eq take_bit_eq_mod)
  moreover have "uint port mod 256 = uint port \<longleftrightarrow> uint port < 256"
    using pos_mod_bound [of 256 "uint port"] mod_pos_pos_trivial [of "uint port" 256] by (auto simp del: pos_mod_bound)
  ultimately show ?thesis by (simp add: s f) (simp add: put_port_def)
qed

theorem port_truncated_witness:
  "uint (spd_sockaddr_get_port (spd_sockaddr_set_port \<lparr>sa_ss = [2, 0, 0, 0, 127, 0, 0, 1] @ replicate 120 0, sa_len = 16\<rparr> 5060)) = 196"
  using port_truncated [of "\<lparr>sa_ss = [2, 0, 0, 0, 127, 0, 0, 1] @ replicate 120 0, sa_len = 16\<rparr>" 5060]
  by (simp add: ss_family_def u16_le_def AF_INET_def SIN_SIZE_def)

end
