(* ===== verification/Spd_Db.thy ===== *)
theory Spd_Db
  imports Spd_Strings
begin

text \<open>
  The internal database: \<open>src/internal_db.c\<close>. SQLite is outside: a record of its operations on a
  state \<open>'s\<close>, one for each prepared statement, with the laws of the documented behaviour as the
  predicate \<open>sqlite_ok\<close> over the table that a state stands for. A bound parameter keeps its pointer
  until it is bound again, also when the statement is reset.
\<close>

section \<open>SQLite\<close>

record 's sqlite =
  q_get :: "string \<Rightarrow> 's \<Rightarrow> string option"
  q_put :: "string \<Rightarrow> string \<Rightarrow> 's \<Rightarrow> bool \<times> 's"
  q_del :: "string \<Rightarrow> 's \<Rightarrow> bool \<times> 's"
  q_gettree :: "string option \<Rightarrow> 's \<Rightarrow> (string \<times> string) list"
  q_deltree :: "string \<Rightarrow> 's \<Rightarrow> int \<times> 's"
  q_deltree_all :: "'s \<Rightarrow> int \<times> 's"

text \<open>The operator \<open>LIKE\<close>: \<open>%\<close> stands for any text, \<open>_\<close> for one character, letters match in both cases.\<close>

fun sql_like :: "string \<Rightarrow> string \<Rightarrow> bool" where
  "sql_like [] s = (s = [])"
| "sql_like (p # ps) [] = (p = CHR ''%'' \<and> sql_like ps [])"
| "sql_like (p # ps) (c # cs) =
     (if p = CHR ''%'' then sql_like ps (c # cs) \<or> sql_like (p # ps) cs
      else (p = CHR ''_'' \<or> c_tolower p = c_tolower c) \<and> sql_like ps cs)"

text \<open>\<open>key || '/' LIKE ? || '/' || '%'\<close>, where \<open>||\<close> binds tighter.\<close>

definition in_tree :: "string \<Rightarrow> string \<Rightarrow> bool" where
  "in_tree prefix key = sql_like (prefix @ ''/%'') (key @ ''/'')"

definition sqlite_ok :: "'s sqlite \<Rightarrow> ('s \<Rightarrow> string \<Rightarrow> string option) \<Rightarrow> bool" where
  "sqlite_ok q rows \<longleftrightarrow>
     (\<forall>k s. q_get q k s = rows s k) \<and>
     (\<forall>k v s. case q_put q k v s of (ok, s') \<Rightarrow> rows s' = (if ok then (rows s)(k := Some v) else rows s)) \<and>
     (\<forall>k s. case q_del q k s of (ok, s') \<Rightarrow> rows s' = (if ok then (rows s)(k := None) else rows s)) \<and>
     (\<forall>p s. set (q_gettree q (Some p) s) = {(k, v). rows s k = Some v \<and> in_tree p k}) \<and>
     (\<forall>s. q_gettree q None s = []) \<and>
     (\<forall>p s. rows (snd (q_deltree q p s)) = (\<lambda>k. if in_tree p k then None else rows s k)) \<and>
     (\<forall>s. rows (snd (q_deltree_all q s)) = (\<lambda>_. None))"

section \<open>Operations\<close>

text \<open>The state of SQLite and the parameter of the statement \<open>gettree_stmt\<close>.\<close>

record 's spd_db =
  db_sq :: 's
  db_bound :: "string option"

text \<open>
  The bytes that are bound: as many as the whole key has, from a buffer of 256 that holds at most
  255 of them and a NUL. Beyond the buffer there is no defined result.
\<close>

definition full_key :: "string \<Rightarrow> string \<Rightarrow> string option" where
  "full_key table key =
     (let k = ''/'' @ table @ ''/'' @ key
      in if length k < 256 then Some k else if length k = 256 then Some (take 255 k @ [NUL]) else None)"

text \<open>\<open>strncpy\<close> into a buffer of which \<open>len\<close> bytes are written.\<close>

definition strncpy :: "char list \<Rightarrow> string \<Rightarrow> nat \<Rightarrow> char list" where
  "strncpy buf src len = (take len src @ replicate (len - length src) NUL) @ drop len buf"

definition spd_db_get ::
  "'s sqlite \<Rightarrow> string \<Rightarrow> string \<Rightarrow> char list \<Rightarrow> nat \<Rightarrow> 's spd_db \<Rightarrow> (int \<times> char list) option" where
  "spd_db_get q table key buf len db =
     (if length table + length key + 2 > 255 then Some (- 1, buf)
      else case full_key table key of
             None \<Rightarrow> None
           | Some k \<Rightarrow>
               (case q_get q k (db_sq db) of
                  None \<Rightarrow> Some (- 1, buf)
                | Some result \<Rightarrow> Some (0, strncpy buf result len)))"

definition spd_db_put ::
  "'s sqlite \<Rightarrow> string \<Rightarrow> string \<Rightarrow> string \<Rightarrow> 's spd_db \<Rightarrow> (int \<times> 's spd_db) option" where
  "spd_db_put q table key buf db =
     (if length table + length key + 2 > 256 then Some (- 1, db)
      else map_option (\<lambda>k. case q_put q k buf (db_sq db) of
                             (ok, s) \<Rightarrow> ((if ok then 0 else - 1), db\<lparr>db_sq := s\<rparr>))
             (full_key table key))"

definition spd_db_del :: "'s sqlite \<Rightarrow> string \<Rightarrow> string \<Rightarrow> 's spd_db \<Rightarrow> (int \<times> 's spd_db) option" where
  "spd_db_del q table key db =
     (if length table + length key + 2 > 256 then Some (- 1, db)
      else map_option (\<lambda>k. case q_del q k (db_sq db) of
                             (ok, s) \<Rightarrow> ((if ok then 0 else - 1), db\<lparr>db_sq := s\<rparr>))
             (full_key table key))"

text \<open>
  The inner test asks for the table again, so a missing key is printed by \<open>snprintf\<close>. Without a prefix
  nothing is bound: the parameter is null or still points into the frame of an earlier call, which has
  no defined contents.
\<close>

definition spd_db_gettree ::
  "'s sqlite \<Rightarrow> string option \<Rightarrow> string option \<Rightarrow> 's spd_db \<Rightarrow> ((string \<times> string) list \<times> 's spd_db) option" where
  "spd_db_gettree q table key db =
     (let prefix =
            (if \<not> spd_strlen_zero table
             then snprintf_out 256 (''/'' @ the table @ ''/'' @ (case key of None \<Rightarrow> ''(null)'' | Some k \<Rightarrow> k))
             else [])
      in if prefix \<noteq> [] then Some (q_gettree q (Some prefix) (db_sq db), db\<lparr>db_bound := Some prefix\<rparr>)
         else if db_bound db = None then Some (q_gettree q None (db_sq db), db) else None)"

definition spd_db_deltree ::
  "'s sqlite \<Rightarrow> string option \<Rightarrow> string option \<Rightarrow> 's spd_db \<Rightarrow> int \<times> 's spd_db" where
  "spd_db_deltree q table key db =
     (if \<not> spd_strlen_zero table then
        (let prefix =
               (if \<not> spd_strlen_zero key then snprintf_out 256 (''/'' @ the table @ ''/'' @ the key)
                else snprintf_out 256 (''/'' @ the table))
         in case q_deltree q prefix (db_sq db) of (n, s) \<Rightarrow> (n, db\<lparr>db_sq := s\<rparr>))
      else case q_deltree_all q (db_sq db) of (n, s) \<Rightarrow> (n, db\<lparr>db_sq := s\<rparr>))"

section \<open>Lemmas\<close>

lemma full_key_short: "length table + length key + 2 \<le> 255 \<Longrightarrow> full_key table key = Some (''/'' @ table @ ''/'' @ key)"
  by (simp add: full_key_def Let_def)

lemma full_key_total: "length table + length key + 2 \<le> 256 \<Longrightarrow> \<exists>k. full_key table key = Some k"
  by (auto simp: full_key_def Let_def)

definition like_plain :: "string \<Rightarrow> bool" where
  "like_plain p \<longleftrightarrow> CHR ''%'' \<notin> set p \<and> CHR ''_'' \<notin> set p"

lemma sql_like_plain_append:
  "like_plain p \<Longrightarrow> sql_like (p @ ps) s \<longleftrightarrow>
     length p \<le> length s \<and> lower (take (length p) s) = lower p \<and> sql_like ps (drop (length p) s)"
proof (induction p arbitrary: s)
  case (Cons a p)
  then have "like_plain p" "a \<noteq> CHR ''%''" "a \<noteq> CHR ''_''" by (auto simp: like_plain_def)
  with Cons.IH show ?case by (cases s) auto
qed (simp add: like_plain_def)

lemma sql_like_percent: "sql_like ''%'' s"
  by (induction s) auto

lemma in_tree_plain:
  assumes "like_plain p"
  shows "in_tree p k \<longleftrightarrow> lower (take (length p + 1) (k @ ''/'')) = lower (p @ ''/'') "
proof -
  have "in_tree p k \<longleftrightarrow> sql_like ((p @ ''/'') @ ''%'') (k @ ''/'')" by (simp add: in_tree_def)
  also have "\<dots> \<longleftrightarrow> length p + 1 \<le> length k + 1 \<and> lower (take (length p + 1) (k @ ''/'')) = lower (p @ ''/'')"
    using assms sql_like_plain_append [of "p @ ''/''" "''%''" "k @ ''/''"]
    by (simp add: like_plain_def sql_like_percent)
  also have "\<dots> \<longleftrightarrow> lower (take (length p + 1) (k @ ''/'')) = lower (p @ ''/'')"
  proof
    assume "lower (take (length p + 1) (k @ ''/'')) = lower (p @ ''/'')"
    then have "length (take (length p + 1) (k @ ''/'')) = length (p @ ''/'')" by (metis length_map)
    then show "length p + 1 \<le> length k + 1 \<and> lower (take (length p + 1) (k @ ''/'')) = lower (p @ ''/'')"
      using \<open>lower _ = _\<close> by simp
  qed simp
  finally show ?thesis .
qed

text \<open>The first component of a key decides whether it is in the tree of a table.\<close>

lemma lower_slash: "c_tolower c = CHR ''/'' \<longleftrightarrow> c = CHR ''/''" "CHR ''/'' = c_tolower c \<longleftrightarrow> c = CHR ''/''"
proof -
  have b: "byte CHR ''/'' = 47" by (simp add: byte_def)
  have "byte (c_tolower c) = 47 \<longleftrightarrow> byte c = 47" by (auto simp: byte_c_tolower)
  then show "c_tolower c = CHR ''/'' \<longleftrightarrow> c = CHR ''/''" by (metis b byte_inj)
  then show "CHR ''/'' = c_tolower c \<longleftrightarrow> c = CHR ''/''" by metis
qed

lemma lower_noslash: "CHR ''/'' \<in> set (lower s) \<longleftrightarrow> CHR ''/'' \<in> set s"
  by (induction s) (auto simp: lower_slash)

lemma takeWhile_component: "c \<notin> set u \<Longrightarrow> takeWhile (\<lambda>x. x \<noteq> c) (u @ c # r) = u"
  by (induction u) auto

lemma component_prefix:
  assumes "CHR ''/'' \<notin> set t" "CHR ''/'' \<notin> set u"
  shows "lower (take (length t + 1) (u @ CHR ''/'' # r)) = lower (t @ ''/'') \<longleftrightarrow> lower u = lower t"
proof
  have s: "CHR ''/'' \<notin> set (lower t)" "CHR ''/'' \<notin> set (lower u)"
    using assms by (simp_all only: lower_noslash not_False_eq_True)
  assume "lower (take (length t + 1) (u @ CHR ''/'' # r)) = lower (t @ ''/'')"
  moreover have "c_tolower CHR ''/'' = CHR ''/''" by (simp add: lower_slash)
  ultimately have "take (length t + 1) (lower u @ CHR ''/'' # lower r) = lower t @ [CHR ''/'']"
    by (simp only: take_map [symmetric] map_append list.map)
  then have "lower u @ CHR ''/'' # lower r = lower t @ CHR ''/'' # drop (length t + 1) (lower u @ CHR ''/'' # lower r)"
    by (metis append.assoc append_Cons append_Nil append_take_drop_id)
  then show "lower u = lower t" using takeWhile_component [OF s(1)] takeWhile_component [OF s(2)] by metis
next
  assume l: "lower u = lower t"
  then have "length u = length t" by (metis length_map)
  with l show "lower (take (length t + 1) (u @ CHR ''/'' # r)) = lower (t @ ''/'')" by (simp add: lower_slash)
qed

lemma in_table:
  assumes "like_plain table" "CHR ''/'' \<notin> set table" "CHR ''/'' \<notin> set t"
  shows "in_tree (''/'' @ table) (''/'' @ t @ ''/'' @ key) \<longleftrightarrow> lower t = lower table"
proof -
  have "like_plain (''/'' @ table)" using assms(1) by (simp add: like_plain_def)
  from in_tree_plain [OF this, of "''/'' @ t @ ''/'' @ key"]
  have "in_tree (''/'' @ table) (''/'' @ t @ ''/'' @ key) \<longleftrightarrow>
      lower (take (length table + 1) (t @ CHR ''/'' # key @ ''/'')) = lower (table @ ''/'')" by simp
  then show ?thesis using component_prefix [OF assms(2,3)] by simp
qed

text \<open>A table as an association list satisfies the laws.\<close>

definition demo_sqlite :: "(string \<times> string) list sqlite" where
  "demo_sqlite =
     \<lparr>q_get = \<lambda>k s. map_of s k,
      q_put = \<lambda>k v s. (True, (k, v) # s),
      q_del = \<lambda>k s. (True, filter (\<lambda>r. fst r \<noteq> k) s),
      q_gettree = \<lambda>p s. (case p of None \<Rightarrow> [] | Some p \<Rightarrow> filter (\<lambda>(k, v). map_of s k = Some v \<and> in_tree p k) s),
      q_deltree = \<lambda>p s. (0, filter (\<lambda>r. \<not> in_tree p (fst r)) s),
      q_deltree_all = \<lambda>s. (0, [])\<rparr>"

lemma map_of_filter_neq: "map_of (filter (\<lambda>r. fst r \<noteq> k) s) = (map_of s)(k := None)"
  by (induction s) auto

lemma map_of_filter_tree: "map_of (filter (\<lambda>r. \<not> in_tree p (fst r)) s) = (\<lambda>k. if in_tree p k then None else map_of s k)"
  by (induction s) (auto simp: fun_eq_iff)

lemma demo_sqlite_ok: "sqlite_ok demo_sqlite map_of"
  by (auto simp: sqlite_ok_def demo_sqlite_def map_of_filter_neq map_of_filter_tree dest: map_of_SomeD)

text \<open>What the laws say of one call.\<close>

lemma sqlite_laws:
  assumes "sqlite_ok q rows"
  shows "q_get q k s = rows s k"
    and "q_put q k v s = (True, s') \<Longrightarrow> rows s' = (rows s)(k := Some v)"
    and "q_del q k s = (True, s') \<Longrightarrow> rows s' = (rows s)(k := None)"
    and "rows (snd (q_deltree q p s)) = (\<lambda>k. if in_tree p k then None else rows s k)"
proof -
  note laws = assms [unfolded sqlite_ok_def]
  have put: "case q_put q k v s of (ok, s') \<Rightarrow> rows s' = (if ok then (rows s)(k := Some v) else rows s)"
    using conjunct1 [OF conjunct2 [OF laws]] by (elim allE)
  have del: "case q_del q k s of (ok, s') \<Rightarrow> rows s' = (if ok then (rows s)(k := None) else rows s)"
    using conjunct1 [OF conjunct2 [OF conjunct2 [OF laws]]] by (elim allE)
  show "q_put q k v s = (True, s') \<Longrightarrow> rows s' = (rows s)(k := Some v)" using put by simp
  show "q_del q k s = (True, s') \<Longrightarrow> rows s' = (rows s)(k := None)" using del by simp
  show "q_get q k s = rows s k" using laws by (elim conjE allE)
  show "rows (snd (q_deltree q p s)) = (\<lambda>k. if in_tree p k then None else rows s k)"
    using laws by (elim conjE) (erule allE)+
qed

section \<open>Properties\<close>

text \<open>
  a value that was stored is read back, cut to the buffer and with its NUL when it is
  shorter; storing and deleting leave all other keys alone; after deleting the key is not found.
  A key whose full name fills the buffer exactly is accepted for storing but never for reading.
\<close>

lemma db_put_get_del:
  assumes "sqlite_ok q rows" "spd_db_put q table key v db = Some (0, db1)" "spd_db_del q table key db1 = Some (0, db2)"
    and "is_cstr v" "length v < len" "length table + length key + 2 \<le> 256"
  shows "(length table + length key + 2 \<le> 255 \<longrightarrow>
        (\<exists>b. spd_db_get q table key buf len db1 = Some (0, b) \<and> cstr b = v \<and> drop len b = drop len buf)) \<and>
     spd_db_get q table key buf len db2 = Some (- 1, buf) \<and>
     (length table + length key + 2 = 256 \<longrightarrow> spd_db_get q table key buf len db1 = Some (- 1, buf)) \<and>
     (\<forall>k. full_key table key \<noteq> Some k \<longrightarrow> rows (db_sq db2) k = rows (db_sq db) k)"
proof -
  obtain k where k: "full_key table key = Some k" using full_key_total [OF assms(6)] by blast
  have put: "rows (db_sq db1) = (rows (db_sq db))(k := Some v)"
    using assms(2,6) k by (intro sqlite_laws(2) [OF assms(1)]) (auto simp: spd_db_put_def split: prod.splits if_splits)
  have del: "rows (db_sq db2) = (rows (db_sq db1))(k := None)"
    using assms(3,6) k by (intro sqlite_laws(3) [OF assms(1)]) (auto simp: spd_db_del_def split: prod.splits if_splits)
  have n: "len - length v = Suc (len - length v - 1)" using assms(5) by simp
  have "strncpy buf v len = v @ NUL # replicate (len - length v - 1) NUL @ drop len buf"
    unfolding strncpy_def using assms(5) by (subst n) simp
  then have b: "cstr (strncpy buf v len) = v" using assms(4) by (simp add: cstr_append_NUL)
  have b': "drop len (strncpy buf v len) = drop len buf" using assms(5) by (simp add: strncpy_def)
  have get: "spd_db_get q table key buf len db' =
      (if length table + length key + 2 > 255 then Some (- 1, buf)
       else case rows (db_sq db') k of None \<Rightarrow> Some (- 1, buf) | Some r \<Rightarrow> Some (0, strncpy buf r len))" for db'
    by (simp add: spd_db_get_def k sqlite_laws(1) [OF assms(1)])
  have "rows (db_sq db2) x = rows (db_sq db) x" if "full_key table key \<noteq> Some x" for x
    using that k put del by auto
  then show ?thesis using b b' put del by (simp add: get)
qed

theorem db_put_get_del_witness:
  "\<exists>b. spd_db_get demo_sqlite ''cfg'' ''a'' (replicate 4 NUL) 4 \<lparr>db_sq = [(''/cfg/a'', ''1'')], db_bound = None\<rparr> = Some (0, b) \<and>
     cstr b = ''1''"
proof -
  let ?db = "\<lparr>db_sq = [], db_bound = None\<rparr>" and ?db1 = "\<lparr>db_sq = [(''/cfg/a'', ''1'')], db_bound = None\<rparr>"
  have "spd_db_put demo_sqlite ''cfg'' ''a'' ''1'' ?db = Some (0, ?db1)"
    "spd_db_del demo_sqlite ''cfg'' ''a'' ?db1 = Some (0, ?db)"
    by (simp_all add: spd_db_put_def spd_db_del_def full_key_short demo_sqlite_def)
  from db_put_get_del [OF demo_sqlite_ok this, of 4 "replicate 4 NUL"] show ?thesis by auto
qed

text \<open>
  deleting the tree of a table whose name has no slash and no wildcard removes
  exactly the rows of the tables that have this name up to the case of letters, whatever their keys.
\<close>

lemma db_deltree_table:
  assumes "sqlite_ok q rows" "table \<noteq> []" "like_plain table" "CHR ''/'' \<notin> set table" "length table < 255"
    and "spd_db_deltree q (Some table) None db = (n, db')" "CHR ''/'' \<notin> set t"
  shows "rows (db_sq db') (''/'' @ t @ ''/'' @ key) =
     (if lower t = lower table then None else rows (db_sq db) (''/'' @ t @ ''/'' @ key))"
proof -
  have "snd (spd_db_deltree q (Some table) None db) = db\<lparr>db_sq := snd (q_deltree q (''/'' @ table) (db_sq db))\<rparr>"
    using assms(2,5) by (simp add: spd_db_deltree_def spd_strlen_zero_def snprintf_out_def split: prod.splits)
  then have "rows (db_sq db') = (\<lambda>k. if in_tree (''/'' @ table) k then None else rows (db_sq db) k)"
    using assms(6) sqlite_laws(4) [OF assms(1)] by simp
  then show ?thesis using in_table [OF assms(3,4,7), of key] by simp
qed

theorem db_deltree_table_witness:
  "map_of (db_sq (snd (spd_db_deltree demo_sqlite (Some ''cfg'') None
     \<lparr>db_sq = [(''/CFG/a'', ''1''), (''/log/a'', ''2'')], db_bound = None\<rparr>))) ''/CFG/a'' = None"
proof -
  let ?db = "\<lparr>db_sq = [(''/CFG/a'', ''1''), (''/log/a'', ''2'')], db_bound = None\<rparr>"
  obtain n db' where d: "spd_db_deltree demo_sqlite (Some ''cfg'') None ?db = (n, db')" by fastforce
  have "lower ''CFG'' = lower ''cfg''" by code_simp
  with db_deltree_table [OF demo_sqlite_ok _ _ _ _ d, of "''CFG''" "''a''"] d show ?thesis
    by (simp add: like_plain_def)
qed

end
