(* ===== verification/Spd_Test.thy ===== *)
theory Spd_Test
  imports Spd_LinkedList Spd_Str Spd_Times
begin

text \<open>
  The test engine: \<open>src/test_engine.c\<close> and \<open>src/test_engine.h\<close>. A callback is an identifier; \<open>cbs\<close>
  gives its code, which may change its test and the outside world \<open>'w\<close>. The clock is a part of the
  world. The list of tests is a HOL list in alphabetical order of the categories; its mutex is the
  depth of the lock. Counters and times are unsigned words of 32 bits. A null pointer given to
  \<open>strcmp\<close> has no result. Allocations succeed when \<open>mem\<close> holds.
\<close>

section \<open>Data\<close>

datatype spd_test_result = TEST_RESULT_NOT_RUN | TEST_RESULT_PASS | TEST_RESULT_FAILED

datatype spd_test_cmd = SPD_TEST_CMD_INIT | SPD_TEST_CMD_RUN

datatype test_type = TEST_NAME | TEST_CATEGORY | TEST_ALL

record spd_test_record =
  tr_name :: "string option"
  tr_category :: "string option"
  tr_description :: "string option"

record 'cb spd_test =
  t_info :: spd_test_record
  t_result :: spd_test_result
  t_status :: "spd_str option"
  t_howlong :: "32 word"
  t_callback :: 'cb

type_synonym ('cb, 'w) spd_test_cb =
  "'cb \<Rightarrow> spd_test_cmd \<Rightarrow> 'cb spd_test \<Rightarrow> 'w \<Rightarrow> spd_test_result \<times> 'cb spd_test \<times> 'w"

fun test_result2str :: "spd_test_result \<Rightarrow> string" where
  "test_result2str TEST_RESULT_NOT_RUN = ''NOT RUN''"
| "test_result2str TEST_RESULT_PASS = ''PASS''"
| "test_result2str TEST_RESULT_FAILED = ''FAILED''"

record spd_test_execute_results =
  total_tests :: "32 word"
  total_passed :: "32 word"
  total_failed :: "32 word"
  total_time :: "32 word"
  last_passed :: "32 word"
  last_failed :: "32 word"
  last_time :: "32 word"

definition no_results :: spd_test_execute_results where
  "no_results = \<lparr>total_tests = 0, total_passed = 0, total_failed = 0, total_time = 0,
     last_passed = 0, last_failed = 0, last_time = 0\<rparr>"

record 'cb test_engine =
  te_tests :: "'cb spd_test list"
  te_results :: spd_test_execute_results
  te_lock :: int

section \<open>Registration\<close>

text \<open>The line that a callback reports goes through a string of 128 bytes of its own.\<close>

definition spd_test_update_state ::
  "bool \<Rightarrow> string \<Rightarrow> string \<Rightarrow> int \<Rightarrow> string \<Rightarrow> 'cb spd_test \<Rightarrow> (int \<times> 'cb spd_test) option" where
  "spd_test_update_state mem file func line out test =
     (case spd_str_create mem 128 of
        None \<Rightarrow> Some (- 1, test)
      | Some buf \<Rightarrow>
          (case spd_str_set mem buf 0 out of
             None \<Rightarrow> None
           | Some (_, buf) \<Rightarrow>
               (case t_status test of
                  None \<Rightarrow> None
                | Some status \<Rightarrow>
                    map_option (\<lambda>(_, status). (0, test\<lparr>t_status := Some status\<rparr>))
                      (spd_str_append mem status 0
                        (''['' @ file @ '':'' @ func @ '':'' @ int_dec line @ '']: '' @ cstr (spd_str_buffer buf))))))"

text \<open>A freed test is \<open>NULL\<close> for its caller.\<close>

definition spd_test_free :: "'cb spd_test option \<Rightarrow> 'cb spd_test option" where
  "spd_test_free test = None"

definition spd_test_create ::
  "('cb, 'w) spd_test_cb \<Rightarrow> bool \<Rightarrow> 'cb option \<Rightarrow> 'w \<Rightarrow> 'cb spd_test option \<times> 'w" where
  "spd_test_create cbs mem callback w =
     (case callback of
        None \<Rightarrow> (None, w)
      | Some cb \<Rightarrow>
          if \<not> mem then (None, w)
          else
            (let test = \<lparr>t_info = \<lparr>tr_name = None, tr_category = None, tr_description = None\<rparr>,
                         t_result = TEST_RESULT_NOT_RUN, t_status = None, t_howlong = 0, t_callback = cb\<rparr>;
                 (_, test, w) = cbs cb SPD_TEST_CMD_INIT test w
             in if spd_strlen_zero (tr_category (t_info test)) then (spd_test_free (Some test), w)
                else if spd_strlen_zero (tr_name (t_info test)) then (spd_test_free (Some test), w)
                else if spd_strlen_zero (tr_description (t_info test)) then (spd_test_free (Some test), w)
                else (case spd_str_create mem 128 of
                        None \<Rightarrow> (spd_test_free (Some test), w)
                      | Some s \<Rightarrow> (Some (test\<lparr>t_status := Some s\<rparr>), w))))"

abbreviation category_of :: "'cb spd_test \<Rightarrow> string" where
  "category_of t \<equiv> the (tr_category (t_info t))"

definition spd_test_insert :: "'cb spd_test \<Rightarrow> 'cb test_engine \<Rightarrow> int \<times> 'cb test_engine" where
  "spd_test_insert test te =
     (let lt = (\<lambda>t. strcmp (category_of t) (category_of test) < 0)
      in (0, te\<lparr>te_tests := takeWhile lt (te_tests te) @ test # dropWhile lt (te_tests te)\<rparr>))"

text \<open>Also the successful registration ends with -1.\<close>

definition spd_test_register ::
  "('cb, 'w) spd_test_cb \<Rightarrow> bool \<Rightarrow> 'cb option \<Rightarrow> 'w \<Rightarrow> 'cb test_engine \<Rightarrow> int \<times> 'w \<times> 'cb test_engine" where
  "spd_test_register cbs mem cb w te =
     (if cb = None then (- 1, w, te)
      else case spd_test_create cbs mem cb w of
             (None, w) \<Rightarrow> (- 1, w, te)
           | (Some test, w) \<Rightarrow>
               (case spd_test_insert test te of
                  (r, te) \<Rightarrow> if r \<noteq> 0 then (- 1, w, te) else (- 1, w, te)))"

fun remove_callback :: "'cb \<Rightarrow> 'cb spd_test list \<Rightarrow> 'cb spd_test option \<times> 'cb spd_test list" where
  "remove_callback cb [] = (None, [])"
| "remove_callback cb (cur # ts) =
     (if t_callback cur = cb then (Some cur, ts)
      else (case remove_callback cb ts of (r, ts) \<Rightarrow> (r, cur # ts)))"

definition spd_test_remove :: "'cb \<Rightarrow> 'cb test_engine \<Rightarrow> 'cb spd_test option \<times> 'cb test_engine" where
  "spd_test_remove cb te =
     (case remove_callback cb (te_tests te) of (cur, ts) \<Rightarrow> (cur, te\<lparr>te_tests := ts\<rparr>))"

definition spd_test_unregister :: "'cb option \<Rightarrow> 'cb test_engine \<Rightarrow> int \<times> 'cb test_engine" where
  "spd_test_unregister cb te =
     (case cb of
        None \<Rightarrow> (- 1, te)
      | Some cb \<Rightarrow>
          (case spd_test_remove cb te of
             (None, te) \<Rightarrow> (- 1, te)
           | (Some test, te) \<Rightarrow> (0, te)))"

section \<open>Running\<close>

definition spd_test_category_cmp :: "string option \<Rightarrow> string option \<Rightarrow> int" where
  "spd_test_category_cmp cat1 cat2 =
     (case (cat1, cat2) of
        (Some c1, Some c2) \<Rightarrow>
          if length c2 > length c1 then - 1 else if strncmp c1 c2 (length c2) \<noteq> 0 then 1 else 0
      | _ \<Rightarrow> - 1)"

definition run_one ::
  "('cb, 'w) spd_test_cb \<Rightarrow> ('w \<Rightarrow> timeval) \<Rightarrow> 'cb spd_test \<Rightarrow> 'w \<Rightarrow> int \<times> 'cb spd_test \<times> 'w" where
  "run_one cbs now test w =
     (let start = now w;
          test = test\<lparr>t_status := spd_str_reset (t_status test)\<rparr>;
          (r, test, w) = cbs (t_callback test) SPD_TEST_CMD_RUN test w;
          test = test\<lparr>t_result := r\<rparr>;
          test = test\<lparr>t_howlong := word_of_int (spd_tvdiff_ms (now w) start)\<rparr>
      in (0, test, w))"

text \<open>The mode that both \<open>spd_test_run\<close> and \<open>spd_test_report\<close> derive from their arguments.\<close>

definition test_mode :: "string option \<Rightarrow> string option \<Rightarrow> test_type" where
  "test_mode name category =
     (if \<not> spd_strlen_zero category
      then (if spd_strlen_zero name then TEST_NAME else TEST_CATEGORY) else TEST_ALL)"

text \<open>\<open>None\<close>: \<open>strcmp\<close> gets a null pointer.\<close>

definition test_selected :: "test_type \<Rightarrow> string option \<Rightarrow> string option \<Rightarrow> 'cb spd_test \<Rightarrow> bool option" where
  "test_selected mode name category test =
     (case mode of
        TEST_CATEGORY \<Rightarrow> Some (spd_test_category_cmp (tr_category (t_info test)) category = 0)
      | TEST_NAME \<Rightarrow>
          if spd_test_category_cmp (tr_category (t_info test)) category = 0
          then (case (tr_name (t_info test), name) of
                  (Some a, Some b) \<Rightarrow> Some (strcmp a b = 0)
                | _ \<Rightarrow> None)
          else Some False
      | TEST_ALL \<Rightarrow> Some True)"

text \<open>The second condition is an assignment: whatever did not pass becomes a failure.\<close>

definition count_last :: "'cb spd_test \<Rightarrow> spd_test_execute_results \<Rightarrow> 'cb spd_test \<times> spd_test_execute_results" where
  "count_last test rs =
     (let rs = rs\<lparr>last_time := last_time rs + t_howlong test\<rparr>
      in if t_result test = TEST_RESULT_PASS then (test, rs\<lparr>last_passed := last_passed rs + 1\<rparr>)
         else (let test = test\<lparr>t_result := TEST_RESULT_FAILED\<rparr>
               in if t_result test \<noteq> TEST_RESULT_NOT_RUN
                  then (test, rs\<lparr>last_failed := last_failed rs + 1\<rparr>) else (test, rs)))"

definition count_total :: "'cb spd_test \<Rightarrow> spd_test_execute_results \<Rightarrow> spd_test_execute_results" where
  "count_total test rs =
     (let rs = rs\<lparr>total_time := total_time rs + t_howlong test\<rparr>;
          rs = rs\<lparr>total_tests := total_tests rs + 1\<rparr>
      in if t_result test \<noteq> TEST_RESULT_NOT_RUN
         then (if t_result test = TEST_RESULT_PASS then rs\<lparr>total_passed := total_passed rs + 1\<rparr>
               else rs\<lparr>total_failed := total_failed rs + 1\<rparr>)
         else rs)"

fun run_loop ::
  "('cb, 'w) spd_test_cb \<Rightarrow> ('w \<Rightarrow> timeval) \<Rightarrow> test_type \<Rightarrow> string option \<Rightarrow> string option \<Rightarrow>
   'cb spd_test list \<Rightarrow> spd_test_execute_results \<Rightarrow> 'w \<Rightarrow>
   ('cb spd_test list \<times> spd_test_execute_results \<times> 'w) option" where
  "run_loop cbs now mode name category [] rs w = Some ([], rs, w)"
| "run_loop cbs now mode name category (test # ts) rs w =
     (case test_selected mode name category test of
        None \<Rightarrow> None
      | Some run \<Rightarrow>
          (let (test, rs, w) =
                 (if run then
                    (let (_, test, w) = run_one cbs now test w;
                         (test, rs) = count_last test rs
                     in (test, rs, w))
                  else (test, rs, w));
               rs = count_total test rs
           in case run_loop cbs now mode name category ts rs w of
                None \<Rightarrow> None
              | Some (ts, rs, w) \<Rightarrow> Some (test # ts, rs, w)))"

text \<open>The lock is released only when a test was executed.\<close>

definition spd_test_run ::
  "('cb, 'w) spd_test_cb \<Rightarrow> ('w \<Rightarrow> timeval) \<Rightarrow> string option \<Rightarrow> string option \<Rightarrow> 'w \<Rightarrow> 'cb test_engine \<Rightarrow>
   (int \<times> 'w \<times> 'cb test_engine) option" where
  "spd_test_run cbs now name category w te =
     (let mode = test_mode name category;
          te = te\<lparr>te_lock := te_lock te + 1\<rparr>
      in case run_loop cbs now mode name category (te_tests te) no_results w of
           None \<Rightarrow> None
         | Some (ts, rs, w) \<Rightarrow>
             (let te = te\<lparr>te_tests := ts, te_results := rs\<rparr>;
                  ret = sint (total_passed rs + total_failed rs)
              in if last_passed rs + last_failed rs = 0 then Some (ret, w, te)
                 else Some (ret, w, te\<lparr>te_lock := te_lock te - 1\<rparr>)))"

section \<open>Reporting\<close>

definition str_or_null :: "string option \<Rightarrow> string" where
  "str_or_null s = (case s of None \<Rightarrow> ''(null)'' | Some t \<Rightarrow> t)"

abbreviation lf :: string where "lf \<equiv> [char_of (10::nat)]"

text \<open>\<open>%d\<close> prints an unsigned word as the signed one. A failed test must have a status string.\<close>

definition test_report_one :: "'cb spd_test \<Rightarrow> string option" where
  "test_report_one test =
     (if t_result test = TEST_RESULT_FAILED \<and> t_status test = None then None
      else Some (lf @ ''Name:           '' @ str_or_null (tr_name (t_info test)) @ lf @
     ''Category:         '' @ str_or_null (tr_category (t_info test)) @ lf @
     ''Description:      '' @ str_or_null (tr_description (t_info test)) @ lf @
     ''Result:           '' @ test_result2str (t_result test) @ lf @
     (if t_result test \<noteq> TEST_RESULT_NOT_RUN then ''Time:          '' @ int_dec (sint (t_howlong test)) @ lf else []) @
     (if t_result test = TEST_RESULT_FAILED
      then ''Error Description:  '' @ cstr (spd_str_buffer (the (t_status test))) @ lf
      else [])))"

fun report_loop :: "test_type \<Rightarrow> string option \<Rightarrow> string option \<Rightarrow> 'cb spd_test list \<Rightarrow> string option" where
  "report_loop mode name category [] = Some []"
| "report_loop mode name category (test # ts) =
     (case test_selected mode name category test of
        None \<Rightarrow> None
      | Some sel \<Rightarrow>
          (case (if sel then test_report_one test else Some []) of
             None \<Rightarrow> None
           | Some one \<Rightarrow> map_option (\<lambda>out. one @ out) (report_loop mode name category ts)))"

definition report_head :: "spd_test_execute_results \<Rightarrow> string" where
  "report_head rs =
     ''Number of Tests:            '' @ int_dec (sint (total_tests rs)) @ lf @
     ''Number of Tests Executed:   '' @ int_dec (sint (total_passed rs + total_failed rs)) @ lf @
     ''Passed Tests:               '' @ int_dec (sint (total_passed rs)) @ lf @
     ''Failed Tests:               '' @ int_dec (sint (total_failed rs)) @ lf @
     ''Total Execution Time:       '' @ int_dec (sint (total_time rs)) @ lf"

text \<open>
  The result is the code and what is written to the file, if it can be opened. Without a file name
  the handle is not initialised.
\<close>

definition spd_test_report ::
  "bool \<Rightarrow> string option \<Rightarrow> string option \<Rightarrow> string option \<Rightarrow> 'cb test_engine \<Rightarrow> (int \<times> string) option" where
  "spd_test_report fopen_ok name category textfile te =
     (if spd_strlen_zero textfile then None
      else if \<not> fopen_ok then Some (- 1, [])
      else map_option (\<lambda>out. (0, report_head (te_results te) @ out))
             (report_loop (test_mode name category) name category (te_tests te)))"

section \<open>Invariant\<close>

text \<open>What a registered test has, and what its callback keeps when it runs.\<close>

definition test_ok :: "'cb spd_test \<Rightarrow> bool" where
  "test_ok t \<longleftrightarrow> \<not> spd_strlen_zero (tr_category (t_info t)) \<and> \<not> spd_strlen_zero (tr_name (t_info t)) \<and>
     \<not> spd_strlen_zero (tr_description (t_info t)) \<and> (\<exists>s. t_status t = Some s \<and> str_ok s)"

definition engine_ok :: "'cb test_engine \<Rightarrow> bool" where
  "engine_ok te \<longleftrightarrow> (\<forall>t \<in> set (te_tests te). test_ok t) \<and>
     sorted_wrt (\<lambda>a b. strcmp (category_of a) (category_of b) \<le> 0) (te_tests te)"

definition cbs_keep :: "('cb, 'w) spd_test_cb \<Rightarrow> bool" where
  "cbs_keep cbs \<longleftrightarrow>
     (\<forall>cb t w r t' w'. cbs cb SPD_TEST_CMD_RUN t w = (r, t', w') \<longrightarrow>
        t_info t' = t_info t \<and> t_callback t' = t_callback t \<and>
        (\<forall>s. t_status t = Some s \<and> str_ok s \<longrightarrow> (\<exists>s'. t_status t' = Some s' \<and> str_ok s')))"

text \<open>The reference: without a category all tests, with one those below it, but none without a name.\<close>

definition to_run :: "string option \<Rightarrow> string option \<Rightarrow> 'cb spd_test \<Rightarrow> bool" where
  "to_run name category t \<longleftrightarrow>
     spd_strlen_zero category \<or>
     (\<not> spd_strlen_zero name \<and> take (length (the category)) (category_of t) = the category)"

lemma category_cmp_prefix: "spd_test_category_cmp (Some a) (Some b) = 0 \<longleftrightarrow> take (length b) a = b"
  by (auto simp: spd_test_category_cmp_def)

lemma selected_to_run:
  assumes "test_ok t" "test_mode name category \<noteq> TEST_NAME \<or> name \<noteq> None"
  shows "test_selected (test_mode name category) name category t = Some (to_run name category t)"
  using assms
  by (cases name; cases category; cases "category = Some []")
    (auto simp: test_selected_def test_mode_def to_run_def test_ok_def spd_strlen_zero_def category_cmp_prefix
      split: option.splits)

text \<open>What one run leaves of a test.\<close>

definition ran :: "('cb, 'w) spd_test_cb \<Rightarrow> ('w \<Rightarrow> timeval) \<Rightarrow> 'cb spd_test \<Rightarrow> 'cb spd_test \<Rightarrow> bool" where
  "ran cbs now t t' \<longleftrightarrow>
     (\<exists>w. t' = (case run_one cbs now t w of
                  (_, u, _) \<Rightarrow> if t_result u = TEST_RESULT_PASS then u else u\<lparr>t_result := TEST_RESULT_FAILED\<rparr>))"

lemma run_one_keeps:
  assumes "cbs_keep cbs" "test_ok t" "run_one cbs now t w = (r, t', w')"
  shows "test_ok t' \<and> t_info t' = t_info t \<and> t_callback t' = t_callback t"
proof -
  let ?t = "t\<lparr>t_status := spd_str_reset (t_status t)\<rparr>"
  obtain c u v where u: "cbs (t_callback t) SPD_TEST_CMD_RUN ?t w = (c, u, v)" by (metis prod_cases3)
  obtain s where "t_status t = Some s" "str_ok s" using assms(2) by (auto simp: test_ok_def)
  then obtain s' where "t_status ?t = Some s'" "str_ok s'" using str_reset_ok by fastforce
  with assms(1) u have "t_info u = t_info ?t \<and> t_callback u = t_callback ?t \<and>
      (\<exists>s'. t_status u = Some s' \<and> str_ok s')"
    unfolding cbs_keep_def by blast
  with assms(2,3) u show ?thesis by (auto simp: run_one_def test_ok_def Let_def)
qed

lemma count_last_cases:
  "count_last t rs =
     (if t_result t = TEST_RESULT_PASS
      then (t, rs\<lparr>last_time := last_time rs + t_howlong t, last_passed := last_passed rs + 1\<rparr>)
      else (t\<lparr>t_result := TEST_RESULT_FAILED\<rparr>,
            rs\<lparr>last_time := last_time rs + t_howlong t, last_failed := last_failed rs + 1\<rparr>))"
  by (simp add: count_last_def Let_def)

lemma ran_keeps:
  assumes "cbs_keep cbs" "test_ok t" "ran cbs now t t'"
  shows "test_ok t' \<and> t_info t' = t_info t \<and> t_callback t' = t_callback t \<and> t_result t' \<noteq> TEST_RESULT_NOT_RUN"
proof -
  obtain w where w: "t' = (case run_one cbs now t w of
      (_, u, _) \<Rightarrow> if t_result u = TEST_RESULT_PASS then u else u\<lparr>t_result := TEST_RESULT_FAILED\<rparr>)"
    using assms(3) unfolding ran_def by blast
  obtain r u v where u: "run_one cbs now t w = (r, u, v)" by (metis prod_cases3)
  with run_one_keeps [OF assms(1,2) u] w show ?thesis by (auto simp: test_ok_def)
qed

text \<open>How many tests of a list have a result.\<close>

abbreviation count_if :: "('a \<Rightarrow> bool) \<Rightarrow> 'a list \<Rightarrow> 32 word" where
  "count_if P xs \<equiv> of_nat (length (filter P xs))"

lemma count_if_Cons: "count_if P (x # xs) = of_bool (P x) + count_if P xs"
  by simp

lemma count_last_counts:
  "last_passed (snd (count_last t rs)) = last_passed rs + of_bool (t_result t = TEST_RESULT_PASS)"
  "last_failed (snd (count_last t rs)) = last_failed rs + of_bool (t_result t \<noteq> TEST_RESULT_PASS)"
  "total_passed (snd (count_last t rs)) = total_passed rs"
  "total_failed (snd (count_last t rs)) = total_failed rs"
  "total_tests (snd (count_last t rs)) = total_tests rs"
  by (simp_all add: count_last_cases)

lemma count_total_counts:
  "last_passed (count_total t rs) = last_passed rs"
  "last_failed (count_total t rs) = last_failed rs"
  "total_passed (count_total t rs) = total_passed rs + of_bool (t_result t = TEST_RESULT_PASS)"
  "total_failed (count_total t rs) = total_failed rs + of_bool (t_result t = TEST_RESULT_FAILED)"
  "total_tests (count_total t rs) = total_tests rs + 1"
  by (cases "t_result t"; simp add: count_total_def Let_def)+

lemma run_step:
  assumes "cbs_keep cbs" "test_ok t" "test_mode name category \<noteq> TEST_NAME \<or> name \<noteq> None"
  defines "sel \<equiv> to_run name category"
  obtains t1 rs1 w1 where
    "\<And>ts. run_loop cbs now (test_mode name category) name category (t # ts) rs w =
       (case run_loop cbs now (test_mode name category) name category ts (count_total t1 rs1) w1 of
          None \<Rightarrow> None | Some (ts, rs, w) \<Rightarrow> Some (t1 # ts, rs, w))"
    "if sel t then ran cbs now t t1 else t1 = t"
    "last_passed rs1 = last_passed rs + of_bool (sel t1 \<and> t_result t1 = TEST_RESULT_PASS)"
    "last_failed rs1 = last_failed rs + of_bool (sel t1 \<and> t_result t1 = TEST_RESULT_FAILED)"
    "total_passed rs1 = total_passed rs" "total_failed rs1 = total_failed rs" "total_tests rs1 = total_tests rs"
proof (cases "sel t")
  case False
  then have "test_selected (test_mode name category) name category t = Some False"
    using selected_to_run [OF assms(2,3)] by (simp add: sel_def)
  with False show ?thesis by (intro that [of t rs w]) simp_all
next
  case True
  then have sl: "test_selected (test_mode name category) name category t = Some True"
    using selected_to_run [OF assms(2,3)] by (simp add: sel_def)
  obtain r u v where u: "run_one cbs now t w = (r, u, v)" by (metis prod_cases3)
  obtain a b where cl: "count_last u rs = (a, b)" by (cases "count_last u rs")
  have r: "ran cbs now t a"
    using cl unfolding ran_def by (intro exI [of _ w]) (auto simp: u count_last_cases split: if_splits)
  have s: "sel a" using ran_keeps [OF assms(1,2) r] True by (simp add: sel_def to_run_def)
  show ?thesis
  proof (rule that [of a b v])
    show "run_loop cbs now (test_mode name category) name category (t # ts) rs w =
       (case run_loop cbs now (test_mode name category) name category ts (count_total a b) v of
          None \<Rightarrow> None | Some (ts, rs, w) \<Rightarrow> Some (a # ts, rs, w))" for ts
      by (simp add: sl u cl)
    show "last_passed b = last_passed rs + of_bool (sel a \<and> t_result a = TEST_RESULT_PASS)"
      "last_failed b = last_failed rs + of_bool (sel a \<and> t_result a = TEST_RESULT_FAILED)"
      using s cl by (auto simp: count_last_cases split: if_splits)
  qed (use count_last_counts [of u rs] in \<open>simp_all add: True r cl\<close>)
qed

lemma run_loop_correct:
  assumes "cbs_keep cbs" "\<forall>t \<in> set ts. test_ok t" "test_mode name category \<noteq> TEST_NAME \<or> name \<noteq> None"
  defines "sel \<equiv> to_run name category"
  shows "\<exists>ts' rs' w'. run_loop cbs now (test_mode name category) name category ts rs w = Some (ts', rs', w') \<and>
     list_all2 (\<lambda>t t'. if sel t then ran cbs now t t' else t' = t) ts ts' \<and>
     last_passed rs' = last_passed rs + count_if (\<lambda>t. sel t \<and> t_result t = TEST_RESULT_PASS) ts' \<and>
     last_failed rs' = last_failed rs + count_if (\<lambda>t. sel t \<and> t_result t = TEST_RESULT_FAILED) ts' \<and>
     total_passed rs' = total_passed rs + count_if (\<lambda>t. t_result t = TEST_RESULT_PASS) ts' \<and>
     total_failed rs' = total_failed rs + count_if (\<lambda>t. t_result t = TEST_RESULT_FAILED) ts' \<and>
     total_tests rs' = total_tests rs + of_nat (length ts')"
  using assms(2)
proof (induction ts arbitrary: rs w)
  case (Cons t ts)
  then have t: "test_ok t" by simp
  obtain t1 rs1 w1 where
    step: "run_loop cbs now (test_mode name category) name category (t # ts) rs w =
       (case run_loop cbs now (test_mode name category) name category ts (count_total t1 rs1) w1 of
          None \<Rightarrow> None | Some (ts, rs, w) \<Rightarrow> Some (t1 # ts, rs, w))"
    and r: "if sel t then ran cbs now t t1 else t1 = t"
    and c: "last_passed rs1 = last_passed rs + of_bool (sel t1 \<and> t_result t1 = TEST_RESULT_PASS)"
      "last_failed rs1 = last_failed rs + of_bool (sel t1 \<and> t_result t1 = TEST_RESULT_FAILED)"
      "total_passed rs1 = total_passed rs" "total_failed rs1 = total_failed rs" "total_tests rs1 = total_tests rs"
    unfolding sel_def using run_step [OF assms(1) t assms(3), of now rs w] by metis
  from Cons.IH [of "count_total t1 rs1" w1] Cons.prems obtain ts' rs' w' where
    l: "run_loop cbs now (test_mode name category) name category ts (count_total t1 rs1) w1 = Some (ts', rs', w')"
      "list_all2 (\<lambda>t t'. if sel t then ran cbs now t t' else t' = t) ts ts'" and
    h: "last_passed rs' = last_passed (count_total t1 rs1) + count_if (\<lambda>t. sel t \<and> t_result t = TEST_RESULT_PASS) ts'"
     "last_failed rs' = last_failed (count_total t1 rs1) + count_if (\<lambda>t. sel t \<and> t_result t = TEST_RESULT_FAILED) ts'"
     "total_passed rs' = total_passed (count_total t1 rs1) + count_if (\<lambda>t. t_result t = TEST_RESULT_PASS) ts'"
     "total_failed rs' = total_failed (count_total t1 rs1) + count_if (\<lambda>t. t_result t = TEST_RESULT_FAILED) ts'"
     "total_tests rs' = total_tests (count_total t1 rs1) + of_nat (length ts')"
    by auto
  have "list_all2 (\<lambda>t t'. if sel t then ran cbs now t t' else t' = t) (t # ts) (t1 # ts')" using l(2) r by simp
  moreover have "total_tests rs' = total_tests rs + of_nat (length (t1 # ts'))"
    unfolding h(5) count_total_counts c by simp
  ultimately show ?case using step l(1)
    by (intro exI [of _ "t1 # ts'"] exI [of _ rs'] exI [of _ w'])
      (simp only: h count_if_Cons count_total_counts c option.case prod.case add.assoc simp_thms)
qed simp

lemma unat_count:
  assumes "length xs < 2 ^ 31" shows "unat (count_if P xs) = length (filter P xs)"
proof -
  have "length (filter P xs) < 2 ^ 32" by (rule le_less_trans [OF length_filter_le]) (use assms in simp)
  then show ?thesis by (simp add: unsigned_of_nat take_bit_nat_eq_self)
qed

lemma count_if_disjoint:
  "(\<And>x. \<not> (P x \<and> Q x)) \<Longrightarrow> count_if P xs + count_if Q xs = count_if (\<lambda>x. P x \<or> Q x) xs"
  by (induction xs) (auto simp: algebra_simps)

lemma sint_count:
  assumes "length xs < 2 ^ 31" shows "sint (count_if P xs) = int (length (filter P xs))"
proof -
  have "length (filter P xs) < 2 ^ 31" by (rule le_less_trans [OF length_filter_le assms])
  then have "int (length (filter P xs)) < 2 ^ 31" by (metis of_nat_less_iff of_nat_numeral of_nat_power)
  then show ?thesis by (simp add: signed_of_nat signed_take_bit_int_eq_self)
qed

lemma ran_list_keeps:
  assumes "cbs_keep cbs" "\<forall>t \<in> set ts. test_ok t"
    and "list_all2 (\<lambda>t t'. if to_run name category t then ran cbs now t t' else t' = t) ts ts'"
  shows "map t_info ts' = map t_info ts \<and> map t_callback ts' = map t_callback ts \<and> (\<forall>t \<in> set ts'. test_ok t) \<and>
     filter (\<lambda>t. to_run name category t \<and> t_result t = TEST_RESULT_NOT_RUN) ts' = []"
  using assms(3,2)
proof (induction rule: list_all2_induct)
  case (Cons t ts t' ts')
  then have "test_ok t' \<and> t_info t' = t_info t \<and> t_callback t' = t_callback t \<and>
      (to_run name category t' \<longrightarrow> t_result t' \<noteq> TEST_RESULT_NOT_RUN)"
    using ran_keeps [OF assms(1), of t now t'] by (cases "to_run name category t") (auto simp: to_run_def)
  with Cons show ?case by simp
qed simp

text \<open>The counters tell whether something was executed.\<close>

lemma ran_list_counts:
  assumes "cbs_keep cbs" "\<forall>t \<in> set ts. test_ok t" "length ts < 2 ^ 31"
    and "list_all2 (\<lambda>t t'. if to_run name category t then ran cbs now t t' else t' = t) ts ts'"
  defines "sel \<equiv> to_run name category"
  shows "count_if (\<lambda>t. sel t \<and> t_result t = TEST_RESULT_PASS) ts' +
       count_if (\<lambda>t. sel t \<and> t_result t = TEST_RESULT_FAILED) ts' = 0 \<longleftrightarrow> \<not> (\<exists>t \<in> set ts. sel t)"
    and "count_if (\<lambda>t. t_result t = TEST_RESULT_PASS) ts' + count_if (\<lambda>t. t_result t = TEST_RESULT_FAILED) ts' =
       count_if (\<lambda>t. t_result t \<noteq> TEST_RESULT_NOT_RUN) ts'"
proof -
  note keep = ran_list_keeps [OF assms(1,2,4)]
  have len: "length ts' < 2 ^ 31" using assms(3) list_all2_lengthD [OF assms(4)] by simp
  have res: "r = TEST_RESULT_PASS \<or> r = TEST_RESULT_FAILED \<longleftrightarrow> r \<noteq> TEST_RESULT_NOT_RUN" for r by (cases r) auto
  show "count_if (\<lambda>t. t_result t = TEST_RESULT_PASS) ts' + count_if (\<lambda>t. t_result t = TEST_RESULT_FAILED) ts' =
       count_if (\<lambda>t. t_result t \<noteq> TEST_RESULT_NOT_RUN) ts'"
    by (subst count_if_disjoint) (simp_all add: res)
  have "count_if (\<lambda>t. sel t \<and> t_result t = TEST_RESULT_PASS) ts' +
      count_if (\<lambda>t. sel t \<and> t_result t = TEST_RESULT_FAILED) ts' =
      count_if (\<lambda>t. sel t \<and> (t_result t = TEST_RESULT_PASS \<or> t_result t = TEST_RESULT_FAILED)) ts'"
    by (subst count_if_disjoint) (simp_all add: conj_disj_distribL)
  also have "\<dots> = count_if sel ts'"
    using keep by (intro arg_cong [of _ _ of_nat] arg_cong [of _ _ length] filter_cong)
      (auto simp: filter_empty_conv res sel_def)
  finally have "count_if (\<lambda>t. sel t \<and> t_result t = TEST_RESULT_PASS) ts' +
      count_if (\<lambda>t. sel t \<and> t_result t = TEST_RESULT_FAILED) ts' = 0 \<longleftrightarrow> filter sel ts' = []"
    using unat_count [OF len, of sel] by (metis length_0_conv unat_eq_zero)
  moreover have "map sel ts' = map sel ts"
    using arg_cong [OF conjunct1 [OF keep], of "map (\<lambda>i. spd_strlen_zero category \<or>
      (\<not> spd_strlen_zero name \<and> take (length (the category)) (the (tr_category i)) = the category))"]
    by (simp add: sel_def to_run_def [abs_def] comp_def)
  then have "set (map sel ts') = set (map sel ts)" by (simp only:)
  then have "filter sel ts' = [] \<longleftrightarrow> \<not> (\<exists>t \<in> set ts. sel t)" by (auto simp: filter_empty_conv) 
  ultimately show "count_if (\<lambda>t. sel t \<and> t_result t = TEST_RESULT_PASS) ts' +
       count_if (\<lambda>t. sel t \<and> t_result t = TEST_RESULT_FAILED) ts' = 0 \<longleftrightarrow> \<not> (\<exists>t \<in> set ts. sel t)" by simp
qed

text \<open>The order of the list only depends on the descriptions of the tests.\<close>

lemma engine_ok_infos:
  assumes "engine_ok te" "map t_info (te_tests te2) = map t_info (te_tests te)" "\<forall>t \<in> set (te_tests te2). test_ok t"
  shows "engine_ok te2"
proof -
  let ?P = "\<lambda>a b. strcmp (the (tr_category a)) (the (tr_category b)) \<le> 0"
  have "sorted_wrt ?P (map t_info (te_tests te))" using assms(1) by (simp add: engine_ok_def sorted_wrt_map)
  then have "sorted_wrt ?P (map t_info (te_tests te2))" by (simp only: assms(2))
  then show ?thesis using assms(3) by (simp add: engine_ok_def sorted_wrt_map)
qed

lemma engine_ok_insert:
  assumes "engine_ok te" "test_ok t"
  shows "engine_ok (snd (spd_test_insert t te))"
  using assms sortalpha_sorted [of category_of "te_tests te" t]
  by (auto simp: engine_ok_def spd_test_insert_def Let_def dest: set_takeWhileD set_dropWhileD)

lemma remove_callback_split:
  "remove_callback cb ts = (find (\<lambda>t. t_callback t = cb) ts,
     takeWhile (\<lambda>t. t_callback t \<noteq> cb) ts @ tl (dropWhile (\<lambda>t. t_callback t \<noteq> cb) ts))"
  by (induction ts) auto

lemma engine_ok_tl: "engine_ok (te\<lparr>te_tests := a @ b\<rparr>) \<Longrightarrow> engine_ok (te\<lparr>te_tests := a @ tl b\<rparr>)"
  by (cases b) (auto simp: engine_ok_def sorted_wrt_append)

lemma engine_ok_remove:
  assumes "engine_ok te" shows "engine_ok (snd (spd_test_remove cb te))"
  using assms engine_ok_tl [of "takeWhile (\<lambda>t. t_callback t \<noteq> cb) (te_tests te)"
    "dropWhile (\<lambda>t. t_callback t \<noteq> cb) (te_tests te)" te]
  by (simp add: spd_test_remove_def remove_callback_split)

lemma test_create_ok: "spd_test_create cbs mem cb w = (Some t, w') \<Longrightarrow> test_ok t"
  using str_create_ok [of 128]
  by (auto simp: spd_test_create_def test_ok_def spd_test_free_def Let_def
      split: option.splits if_splits prod.splits)

section \<open>Properties\<close>


text \<open>A callback that describes itself as \<open>a\<close> in \<open>/x/\<close> and passes.\<close>

definition demo_cbs :: "(nat, unit) spd_test_cb" where
  "demo_cbs cb cmd t w =
     (case cmd of
        SPD_TEST_CMD_INIT \<Rightarrow>
          (TEST_RESULT_NOT_RUN,
           t\<lparr>t_info := \<lparr>tr_name = Some ''a'', tr_category = Some ''/x/'', tr_description = Some ''d''\<rparr>\<rparr>, w)
      | SPD_TEST_CMD_RUN \<Rightarrow> (TEST_RESULT_PASS, t, w))"

definition demo_engine :: "nat test_engine" where
  "demo_engine = snd (snd (spd_test_register demo_cbs True (Some 7) ()
     \<lparr>te_tests = [], te_results = no_results, te_lock = 0\<rparr>))"

lemma demo_cbs_keep: "cbs_keep demo_cbs"
  by (simp add: cbs_keep_def demo_cbs_def)

lemma demo_engine_tests:
  "\<exists>t. te_tests demo_engine = [t] \<and> category_of t = ''/x/'' \<and> te_lock demo_engine = 0 \<and> test_ok t"
  using str_create_ok [of 128]
  by (auto simp: demo_engine_def spd_test_register_def spd_test_create_def spd_test_insert_def demo_cbs_def
      test_ok_def spd_strlen_zero_def Let_def)


lemma remove_callback_append:
  "cb \<notin> t_callback ` set xs \<Longrightarrow>
   remove_callback cb (xs @ ys) = (fst (remove_callback cb ys), xs @ snd (remove_callback cb ys))"
  by (induction xs) (auto split: prod.splits)

text \<open>
  C26: every registered test has a category, a name, a description and a string for
  its status, and the list is sorted by categories: registration, removal and a whole run keep it.
  Registration always answers -1; it adds the test exactly when its description is complete, and
  removing that callback again restores the list if it was not in it.
\<close>

theorem test_registry_type:
  assumes "engine_ok te" "cbs_keep cbs" "spd_strlen_zero category \<or> name \<noteq> None"
    and "spd_test_register cbs mem (Some cb) w te = (r, w1, te1)" "spd_test_run cbs now name category w te = Some (n, w2, te2)"
    and "spd_test_unregister (Some cb) te1 = (u, te3)" "cb \<notin> t_callback ` set (te_tests te)"
    and "spd_test_create cbs mem (Some cb) w = (t, w1)" "\<And>v. t = Some v \<Longrightarrow> t_callback v = cb"
  shows "engine_ok te1 \<and> engine_ok te2 \<and> engine_ok te3 \<and> r = - 1 \<and>
     (case t of None \<Rightarrow> te_tests te1 = te_tests te
      | Some v \<Rightarrow> \<exists>xs ys. te_tests te = xs @ ys \<and> te_tests te1 = xs @ v # ys) \<and>
     te3 = te \<and> (u = 0 \<longleftrightarrow> t \<noteq> None)"
proof -
  have ok: "\<forall>t \<in> set (te_tests te). test_ok t" using assms(1) by (simp add: engine_ok_def)
  have m: "test_mode name category \<noteq> TEST_NAME \<or> name \<noteq> None" using assms(3) by (auto simp: test_mode_def)
  have reg: "r = - 1 \<and> te1 = (case t of None \<Rightarrow> te | Some v \<Rightarrow> snd (spd_test_insert v te))"
    using assms(4,8) by (auto simp: spd_test_register_def split: option.splits prod.splits if_splits)
  have ok1: "engine_ok te1"
    using reg assms(1,8) by (auto intro: engine_ok_insert dest: test_create_ok split: option.splits)
  obtain ts rs v where l: "run_loop cbs now (test_mode name category) name category (te_tests te) no_results w = Some (ts, rs, v)"
      "list_all2 (\<lambda>t t'. if to_run name category t then ran cbs now t t' else t' = t) (te_tests te) ts"
    using run_loop_correct [OF assms(2) ok m, of now no_results w] by auto
  have "te_tests te2 = ts" using assms(5) l(1) by (auto simp: spd_test_run_def Let_def split: if_splits)
  then have ok2: "engine_ok te2"
    using ran_list_keeps [OF assms(2) ok l(2)] by (intro engine_ok_infos [OF assms(1)]) simp_all
  have rem: "te3 = snd (spd_test_remove cb te1)" "u = (case fst (spd_test_remove cb te1) of None \<Rightarrow> - 1 | Some _ \<Rightarrow> 0)"
    using assms(6) by (auto simp: spd_test_unregister_def split: option.splits prod.splits)
  have "te3 = te \<and> (u = 0 \<longleftrightarrow> t \<noteq> None)"
  proof (cases t)
    case None
    then show ?thesis using reg rem remove_callback_append [OF assms(7), of "[]"] by (simp add: spd_test_remove_def)
  next
    case (Some v)
    let ?lt = "\<lambda>x. strcmp (category_of x) (category_of v) < 0"
    have "cb \<notin> t_callback ` set (takeWhile ?lt (te_tests te))" using assms(7) by (auto dest: set_takeWhileD)
    from remove_callback_append [OF this, of "v # dropWhile ?lt (te_tests te)"] Some show ?thesis
      using reg rem assms(9) by (simp add: spd_test_remove_def spd_test_insert_def Let_def)
  qed
  moreover have "case t of None \<Rightarrow> te_tests te1 = te_tests te
      | Some v \<Rightarrow> \<exists>xs ys. te_tests te = xs @ ys \<and> te_tests te1 = xs @ v # ys"
    using reg by (auto simp: spd_test_insert_def Let_def intro: takeWhile_dropWhile_id [symmetric] split: option.splits)
  ultimately show ?thesis using ok1 ok2 reg assms(1) by simp
qed

theorem test_registry_type_witness:
  "\<exists>te2 n w2. spd_test_run demo_cbs (\<lambda>_. TV 0 0) None None ()
       (\<lparr>te_tests = [], te_results = no_results, te_lock = 0\<rparr> :: nat test_engine) = Some (n, w2, te2) \<and>
     engine_ok te2 \<and> engine_ok demo_engine"
proof -
  let ?te = "\<lparr>te_tests = [], te_results = no_results, te_lock = 0\<rparr> :: nat test_engine"
  have e: "engine_ok ?te" by (simp add: engine_ok_def)
  obtain n w2 te2 where run: "spd_test_run demo_cbs (\<lambda>_. TV 0 0) None None () ?te = Some (n, w2, te2)"
    by (simp add: spd_test_run_def Let_def no_results_def)
  obtain r w1 te1 where reg: "spd_test_register demo_cbs True (Some 7) () ?te = (r, w1, te1)" by (metis prod_cases3)
  obtain u te3 where un: "spd_test_unregister (Some 7) te1 = (u, te3)" by (metis prod.exhaust)
  obtain t where t: "spd_test_create demo_cbs True (Some 7) () = (t, w1)"
    by (cases "spd_test_create demo_cbs True (Some 7) ()") simp
  then have "\<And>v. t = Some v \<Longrightarrow> t_callback v = 7"
    by (auto simp: spd_test_create_def spd_test_free_def demo_cbs_def Let_def split: if_splits option.splits)
  from test_registry_type [OF e demo_cbs_keep _ reg run un _ t this] run reg show ?thesis
    by (auto simp: spd_strlen_zero_def demo_engine_def)
qed

end
