(* ===== verification/Spd_Log.thy ===== *)
theory Spd_Log
  imports Spd_Config Spd_Utils Spd_Str
begin

unbundle bit_operations_syntax

text \<open>
  The logger: \<open>src/logger.c\<close>, and the names of \<open>src/syslog.c\<close>. What is written goes to a list of
  sinks with texts. The date, the process, the host name and the success of opening and writing a
  file are arguments. \<open>spd_thread_dynamic_str_build_helper\<close> has no return statement when the text
  fits; what it returns then is taken to be none of its two codes. Allocations succeed.
\<close>

section \<open>Buffers\<close>

text \<open>The loop of \<open>spd_thread_dynamic_str_set_helper\<close>, which asks again as long as it is told to.\<close>

partial_function (option) dynamic_str_set :: "spd_dynamic_str \<Rightarrow> nat \<Rightarrow> string \<Rightarrow> spd_dynamic_str option" where
  "dynamic_str_set buf max_len out =
     (case spd_thread_dynamic_str_build_helper True buf max_len False out of
        None \<Rightarrow> None
      | Some r \<Rightarrow>
          (case snd r of
             None \<Rightarrow> None
           | Some b \<Rightarrow> if fst r = Some SPD_DNMCSTR_BUILD_RETRY then dynamic_str_set b max_len out else Some b))"

definition dyn_ok :: "spd_dynamic_str \<Rightarrow> bool" where
  "dyn_ok b \<longleftrightarrow> 0 < dn_len b \<and> length (dn_str b) = dn_len b \<and> NUL \<in> set (dn_str b)"

text \<open>\<open>BUFSIZ\<close> of the C library.\<close>

definition BUFSIZ :: nat where "BUFSIZ = 8192"

section \<open>Channels\<close>

definition LVL_DEBUG :: nat where "LVL_DEBUG = 0"
definition LVL_NOTICE :: nat where "LVL_NOTICE = 1"
definition LVL_WARNING :: nat where "LVL_WARNING = 2"
definition LVL_ERROR :: nat where "LVL_ERROR = 3"
definition LVL_VERBOSE :: nat where "LVL_VERBOSE = 4"

lemmas log_levels = LVL_DEBUG_def LVL_NOTICE_def LVL_WARNING_def LVL_ERROR_def LVL_VERBOSE_def

definition loglevels :: "string list" where
  "loglevels = [''DEBUG'', ''NOTICE'', ''WARNING'', ''ERROR'', ''VERBOSE'']"

definition COLOR_BRWHITE :: int where "COLOR_BRWHITE = 165"

text \<open>Bright green, bright blue, yellow, bright red, red, green, bright green.\<close>

definition colors :: "int list" where
  "colors = [160, 162, 161, 159, 31, 32, 160]"

datatype spd_logtype = LOGTYPE_FILE | LOGTYPE_CONSOLE | LOGTYPE_SYSLOG

record spd_logchain =
  lc_type :: spd_logtype
  lc_logmark :: int
  lc_fptr :: "string option"
  lc_filename :: string

datatype sink = Stdout | Stderr | LogFile string | Verboser nat

record logger =
  lg_chains :: "spd_logchain list"
  lg_mask :: int
  lg_hostname :: string
  lg_dateformat :: string
  lg_buf :: spd_dynamic_str
  lg_vbuf :: spd_dynamic_str
  lg_verbosers :: "nat list"
  lg_out :: "(sink \<times> string) list"

fun components_loop :: "string list \<Rightarrow> int \<Rightarrow> int" where
  "components_loop [] res = res"
| "components_loop (w # ws) res =
     (let w = strip_text w
      in if w = [] then components_loop ws res
         else if strcasecmp w ''error'' = 0 then components_loop ws (res OR push_bit LVL_ERROR 1)
         else if strcasecmp w ''warning'' = 0 then components_loop ws (res OR push_bit LVL_WARNING 1)
         else if strcasecmp w ''notice'' = 0 then components_loop ws (res OR push_bit LVL_NOTICE 1)
         else if strcasecmp w ''debug'' = 0 then components_loop ws (res OR push_bit LVL_DEBUG 1)
         else if strcasecmp w ''verbose'' = 0 then components_loop ws (res OR push_bit LVL_VERBOSE 1)
         else components_loop ws res)"

definition make_components :: "string \<Rightarrow> int" where
  "make_components s = components_loop (strsep_comma s) 0"

definition SPD_LOG_DIR :: string where "SPD_LOG_DIR = ''/var/log/spider''"

text \<open>A syslog channel keeps the zeros of \<open>spd_calloc\<close>: it is a file that is not open.\<close>

definition make_logchain :: "(string \<Rightarrow> bool) \<Rightarrow> string \<Rightarrow> string \<Rightarrow> string \<Rightarrow> spd_logchain option" where
  "make_logchain fopen_ok hostname channel components =
     (if channel = [] then None
      else
        (let chan = \<lparr>lc_type = LOGTYPE_FILE, lc_logmark = 0, lc_fptr = None, lc_filename = []\<rparr>;
             dir = (if hd channel \<noteq> CHR ''/'' then SPD_LOG_DIR else []);
             chan =
               (if strncasecmp channel ''console'' 7 = 0 then chan\<lparr>lc_type := LOGTYPE_CONSOLE\<rparr>
                else if strncasecmp channel ''syslog'' 6 = 0 then chan
                else
                  (let name = snprintf_out 256
                         (if hostname \<noteq> [] then dir @ ''/'' @ channel @ ''.'' @ hostname else dir @ ''/'' @ channel)
                   in chan\<lparr>lc_filename := name, lc_fptr := (if fopen_ok name then Some name else None),
                           lc_type := LOGTYPE_FILE\<rparr>))
         in Some (chan\<lparr>lc_logmark := make_components components\<rparr>)))"

fun chains_loop ::
  "(string \<Rightarrow> bool) \<Rightarrow> string \<Rightarrow> spd_variable list \<Rightarrow> spd_logchain list \<Rightarrow> int \<Rightarrow> spd_logchain list \<times> int" where
  "chains_loop fopen_ok hostname [] chs lm = (chs, lm)"
| "chains_loop fopen_ok hostname (var # vs) chs lm =
     (case make_logchain fopen_ok hostname (v_name var) (v_value var) of
        None \<Rightarrow> chains_loop fopen_ok hostname vs chs lm
      | Some chain \<Rightarrow> chains_loop fopen_ok hostname vs (chain # chs) (lm OR lc_logmark chain))"

text \<open>
  \<open>cfg\<close> is what \<open>spd_config_load\<close> returns; \<open>host\<close> is the host name, if \<open>gethostname\<close> succeeds. The
  default mask is made of the numbers of the levels, not of their bits.
\<close>

definition init_logger_chain ::
  "(string \<Rightarrow> bool) \<Rightarrow> string option \<Rightarrow> spd_config option \<Rightarrow> logger \<Rightarrow> logger option" where
  "init_logger_chain fopen_ok host cfg lg =
     (let lg = lg\<lparr>lg_mask := 0, lg_chains := []\<rparr>
      in case cfg of
           None \<Rightarrow>
             (let chain = \<lparr>lc_type = LOGTYPE_CONSOLE,
                           lc_logmark = int LVL_WARNING OR int LVL_NOTICE OR int LVL_ERROR,
                           lc_fptr = None, lc_filename = []\<rparr>
              in Some (lg\<lparr>lg_chains := [chain], lg_mask := lg_mask lg OR lc_logmark chain\<rparr>))
         | Some cfg \<Rightarrow>
             Option.bind (spd_variable_retrive cfg (Some (CP None ''general'')) ''appendhostname'') (\<lambda>s.
               (let lg = lg\<lparr>lg_hostname :=
                      (if s \<noteq> None \<and> spd_true s \<noteq> 0 then (case host of None \<Rightarrow> ''unknown'' | Some h \<Rightarrow> h) else [])\<rparr>
                in Option.bind (spd_variable_retrive cfg (Some (CP None ''general'')) ''dataformat'') (\<lambda>s.
                     (let lg = (case s of None \<Rightarrow> lg | Some t \<Rightarrow> lg\<lparr>lg_dateformat := take 255 t\<rparr>)
                      in map_option
                           (\<lambda>vs. case chains_loop fopen_ok (lg_hostname lg) vs [] (lg_mask lg) of
                                   (chs, lm) \<Rightarrow> lg\<lparr>lg_chains := chs, lg_mask := lm\<rparr>)
                           (spd_variable_browse cfg (Some (CP None ''logfiles''))))))))"

definition close_logger :: "logger \<Rightarrow> logger" where
  "close_logger lg = lg\<lparr>lg_chains := map (\<lambda>c. c\<lparr>lc_fptr := None\<rparr>) (lg_chains lg)\<rparr>"

section \<open>Messages\<close>

record log_msg =
  lm_level :: nat
  lm_file :: string
  lm_line :: int
  lm_function :: string
  lm_text :: string

record log_env =
  le_date :: "string \<Rightarrow> string"
  le_pid :: int
  le_write_ok :: "string \<Rightarrow> bool"
  le_error :: "string \<Rightarrow> string"
  le_reload :: bool

definition put_out :: "sink \<Rightarrow> string \<Rightarrow> logger \<Rightarrow> logger" where
  "put_out s t lg = lg\<lparr>lg_out := lg_out lg @ [(s, t)]\<rparr>"

text \<open>The buffer after \<open>term_filter_escapes\<close>, which keeps the length of the text.\<close>

definition filter_buf :: "spd_dynamic_str \<Rightarrow> spd_dynamic_str" where
  "filter_buf b = b\<lparr>dn_str := term_filter_escapes (cstr (dn_str b)) @ drop (length (cstr (dn_str b))) (dn_str b)\<rparr>"

definition buf_text :: "spd_dynamic_str \<Rightarrow> string" where
  "buf_text b = cstr (dn_str b)"

text \<open>Formatting into the buffer of the thread and printing it.\<close>

definition print_filtered :: "sink \<Rightarrow> string \<Rightarrow> logger \<Rightarrow> logger option" where
  "print_filtered s out lg =
     map_option (\<lambda>b. put_out s (buf_text (filter_buf b)) (lg\<lparr>lg_buf := filter_buf b\<rparr>))
       (dynamic_str_set (lg_buf lg) BUFSIZ out)"

definition print_plain :: "sink \<Rightarrow> string \<Rightarrow> logger \<Rightarrow> logger option" where
  "print_plain s out lg =
     map_option (\<lambda>b. put_out s (buf_text b) (lg\<lparr>lg_buf := b\<rparr>)) (dynamic_str_set (lg_buf lg) BUFSIZ out)"

definition console_prefix :: "log_env \<Rightarrow> log_msg \<Rightarrow> string \<Rightarrow> string" where
  "console_prefix env m date =
     ''['' @ date @ ''] '' @ term_color (loglevels ! lm_level m) (colors ! lm_level m) 0 80 @
     ''['' @ int_dec (le_pid env) @ '']: '' @ term_color (lm_file m) COLOR_BRWHITE 0 80 @ '':'' @
     term_color (int_dec (lm_line m)) COLOR_BRWHITE 0 80 @ '' '' @ term_color (lm_function m) COLOR_BRWHITE 0 80 @ '': ''"

definition line_prefix :: "log_env \<Rightarrow> log_msg \<Rightarrow> string \<Rightarrow> string" where
  "line_prefix env m date =
     ''['' @ date @ ''] '' @ loglevels ! lm_level m @ ''['' @ int_dec (le_pid env) @ ''] '' @ lm_file m @ '': ''"

definition log_to_chain :: "log_env \<Rightarrow> log_msg \<Rightarrow> string \<Rightarrow> spd_logchain \<Rightarrow> logger \<Rightarrow> logger option" where
  "log_to_chain env m date chan lg =
     (if lc_logmark chan AND push_bit (lm_level m) 1 \<noteq> 0 \<and> lc_type chan = LOGTYPE_CONSOLE then
        (if lm_level m \<noteq> LVL_VERBOSE
         then Option.bind (print_filtered Stdout (console_prefix env m date) lg) (print_plain Stdout (lm_text m))
         else Some lg)
      else if lc_logmark chan AND push_bit (lm_level m) 1 \<noteq> 0 \<and> lc_fptr chan \<noteq> None then
        (let f = the (lc_fptr chan)
         in case dynamic_str_set (lg_buf lg) BUFSIZ (line_prefix env m date) of
              None \<Rightarrow> None
            | Some b \<Rightarrow>
                (let lg = lg\<lparr>lg_buf := b\<rparr>
                 in if \<not> le_write_ok env f \<and> buf_text b \<noteq> []
                    then Some (put_out Stderr (le_error env f) lg)
                    else print_plain (LogFile f) (lm_text m) (put_out (LogFile f) (buf_text b) lg)))
      else Some lg)"

fun log_to_chains :: "log_env \<Rightarrow> log_msg \<Rightarrow> string \<Rightarrow> spd_logchain list \<Rightarrow> logger \<Rightarrow> logger option" where
  "log_to_chains env m date [] lg = Some lg"
| "log_to_chains env m date (chan # cs) lg = Option.bind (log_to_chain env m date chan lg) (log_to_chains env m date cs)"

text \<open>The part of \<open>spd_verbose\<close> before it calls \<open>spd_log\<close>: the verbosers get the text with its mark.\<close>

definition call_verbosers :: "string \<Rightarrow> logger \<Rightarrow> logger option" where
  "call_verbosers out lg =
     map_option (\<lambda>b. (let b = filter_buf b
                      in lg\<lparr>lg_vbuf := b, lg_out := lg_out lg @ map (\<lambda>v. (Verboser v, buf_text b)) (lg_verbosers lg)\<rparr>))
       (dynamic_str_set (lg_vbuf lg) 0 (CHR 0x7F # out))"

definition own_msg :: "nat \<Rightarrow> int \<Rightarrow> string \<Rightarrow> string \<Rightarrow> log_msg" where
  "own_msg level line func out =
     \<lparr>lm_level = level, lm_file = ''logger.c'', lm_line = line, lm_function = func, lm_text = out\<rparr>"

text \<open>The flag of the signal handler is never cleared, and the function calls itself while it is set.\<close>

partial_function (option) spd_log :: "log_env \<Rightarrow> log_msg \<Rightarrow> logger \<Rightarrow> logger option" where
  "spd_log env m lg =
     (if lm_level m \<ge> 5 then None
      else if lg_chains lg = [] then
        (if lm_level m \<noteq> LVL_VERBOSE then print_filtered Stdout (lm_text m) lg else Some lg)
      else
        Option.bind (log_to_chains env m (le_date env (lg_dateformat lg)) (lg_chains lg) lg) (\<lambda>lg.
          if le_reload env then
            Option.bind (spd_log env (own_msg LVL_DEBUG 363 ''spd_log'' (''retated logs per sigxfsz '' @ [CHR 0x0A])) lg) (\<lambda>lg.
              Option.bind (call_verbosers (''retated log size '' @ [CHR 0x0A]) lg) (\<lambda>lg.
                spd_log env (own_msg LVL_VERBOSE 394 ''spd_verbose'' (tl (buf_text (lg_vbuf lg)))) lg))
          else Some lg))"

definition spd_verbose :: "log_env \<Rightarrow> string \<Rightarrow> logger \<Rightarrow> logger option" where
  "spd_verbose env out lg =
     Option.bind (call_verbosers out lg) (\<lambda>lg.
       spd_log env (own_msg LVL_VERBOSE 394 ''spd_verbose'' (tl (buf_text (lg_vbuf lg)))) lg)"

text \<open>A successful registration has no return statement.\<close>

definition spd_register_verbose :: "nat \<Rightarrow> logger \<Rightarrow> int option \<times> logger" where
  "spd_register_verbose v lg = (None, lg\<lparr>lg_verbosers := v # lg_verbosers lg\<rparr>)"

text \<open>\<open>spd_safe_free\<close> sets \<open>cur\<close> to \<open>NULL\<close>, so that also a removal answers -1.\<close>

definition spd_unregister_verbose :: "nat \<Rightarrow> logger \<Rightarrow> int \<times> logger" where
  "spd_unregister_verbose v lg = (- 1, lg\<lparr>lg_verbosers := remove1 v (lg_verbosers lg)\<rparr>)"

section \<open>Syslog names\<close>

text \<open>The values of the constants of \<open>syslog.h\<close> of the C library.\<close>

definition syslog_map :: "(string \<times> int) list" where
  "syslog_map =
     [(''user'', 8), (''local0'', 128), (''local1'', 136), (''local2'', 144), (''local3'', 152), (''local4'', 160),
      (''local5'', 168), (''local6'', 176), (''local7'', 184), (''kern'', 0), (''mail'', 16), (''daemon'', 24),
      (''ftp'', 88), (''cron'', 72)]"

definition priority_map :: "(string \<times> int) list" where
  "priority_map =
     [(''alert'', 1), (''crit'', 2), (''debug'', 7), (''emerg'', 0), (''err'', 3), (''error'', 3), (''info'', 6),
      (''notice'', 5), (''warning'', 4)]"

definition spd_syslog_facility :: "string \<Rightarrow> int" where
  "spd_syslog_facility facility =
     (case find (\<lambda>e. strcasecmp (fst e) facility = 0) syslog_map of Some e \<Rightarrow> snd e | None \<Rightarrow> - 1)"

definition spd_syslog_facility_name :: "int \<Rightarrow> string option" where
  "spd_syslog_facility_name facility = map_option fst (find (\<lambda>e. snd e = facility) syslog_map)"

definition spd_syslog_priority :: "string \<Rightarrow> int" where
  "spd_syslog_priority priority =
     (case find (\<lambda>e. strcasecmp (fst e) priority = 0) priority_map of Some e \<Rightarrow> snd e | None \<Rightarrow> - 1)"

definition spd_syslog_priority_name :: "int \<Rightarrow> string option" where
  "spd_syslog_priority_name priority = map_option fst (find (\<lambda>e. snd e = priority) priority_map)"

text \<open>
  The table of the logger's levels, without the level \<open>__LOG_DTMF\<close>, which does not exist. The entry for 1
  that is kept for compatibility is the one of \<open>__LOG_NOTICE\<close>, which comes later and counts.
\<close>

definition logger_level_to_syslog_map :: "int list" where
  "logger_level_to_syslog_map = (replicate 5 0)[0 := 7, 1 := 6, 1 := 5, 2 := 4, 3 := 3, 4 := 7]"

definition spd_syslog_loglevel_to_priority :: "int \<Rightarrow> int" where
  "spd_syslog_loglevel_to_priority loglevel =
     (if loglevel < 0 \<or> loglevel \<ge> int (length logger_level_to_syslog_map) then - 1
      else logger_level_to_syslog_map ! nat loglevel)"

lemma loglevel_priorities:
  "spd_syslog_loglevel_to_priority l \<in> {- 1, 3, 4, 5, 7} \<and>
   (spd_syslog_loglevel_to_priority l = - 1 \<longleftrightarrow> l < 0 \<or> 4 < l) \<and> spd_syslog_loglevel_to_priority l \<noteq> spd_syslog_priority ''info''"
proof -
  have i: "spd_syslog_priority ''info'' = 6" by code_simp
  consider "l < 0" | "4 < l" | "l = 0" | "l = 1" | "l = 2" | "l = 3" | "l = 4" by linarith
  then show ?thesis
    by cases (simp_all add: spd_syslog_loglevel_to_priority_def logger_level_to_syslog_map_def i)
qed

section \<open>Formatting\<close>

lemma vsn_write_start:
  assumes "0 < n" "n \<le> length b"
  shows "vsn_write b 0 n out = Some (take (n - 1) out @ NUL # drop (length (take (n - 1) out) + 1) b)"
proof -
  have "length (take (n - 1) out) < n" using assms(1) by simp
  then show ?thesis using assms by (simp add: vsn_write_def snprintf_out_def overwrite_def Let_def)
qed

lemma build_helper_start:
  assumes "dyn_ok b"
  shows "spd_thread_dynamic_str_build_helper True b mx False out =
     (let s = take (dn_len b - 1) out @ NUL # drop (length (take (dn_len b - 1) out) + 1) (dn_str b)
      in if length out + 1 > dn_len b \<and> (if mx > 0 then dn_len b < mx else True) then
           (let len = (if mx > 0 then min (length out + 1) mx else length out + 1)
            in Some (Some SPD_DNMCSTR_BUILD_RETRY, Some \<lparr>dn_len = len, dn_str = s @ replicate (len - length s) NUL\<rparr>))
         else Some (None, Some (b\<lparr>dn_str := s\<rparr>)))"
  using assms vsn_write_start [of "dn_len b" "dn_str b" out]
  by (auto simp: spd_thread_dynamic_str_build_helper_def dyn_ok_def Let_def min_def)

lemma filled_buffer:
  assumes "dyn_ok b" "is_cstr out"
  defines "b' \<equiv> b\<lparr>dn_str := take (dn_len b - 1) out @ NUL # drop (length (take (dn_len b - 1) out) + 1) (dn_str b)\<rparr>"
  shows "dyn_ok b' \<and> dn_len b' = dn_len b \<and> buf_text b' = take (dn_len b - 1) out"
proof -
  have "length (take (dn_len b - 1) out) + 1 \<le> dn_len b"
    using assms(1) by (auto simp: dyn_ok_def min_def)
  then show ?thesis
    using assms(1) cstr_append_NUL [OF is_cstr_take [OF assms(2)]] by (simp add: b'_def dyn_ok_def buf_text_def)
qed

text \<open>The buffer ends up with the text, cut if there is a limit.\<close>

lemma dynamic_str_set_text:
  assumes "dyn_ok b" "is_cstr out" "mx = 0 \<or> dn_len b \<le> mx"
  shows "\<exists>b'. dynamic_str_set b mx out = Some b' \<and> dyn_ok b' \<and> (mx = 0 \<or> dn_len b' \<le> mx) \<and>
     buf_text b' = (if mx = 0 then out else take (mx - 1) out)"
proof -
  let ?s = "take (dn_len b - 1) out @ NUL # drop (length (take (dn_len b - 1) out) + 1) (dn_str b)"
  have len: "length ?s = dn_len b" "0 < dn_len b" using assms(1) by (auto simp: dyn_ok_def)
  show ?thesis
  proof (cases "length out + 1 > dn_len b \<and> (if mx > 0 then dn_len b < mx else True)")
    case False
    then have "spd_thread_dynamic_str_build_helper True b mx False out = Some (None, Some (b\<lparr>dn_str := ?s\<rparr>))"
      unfolding build_helper_start [OF assms(1)] Let_def by (rule if_not_P)
    then have "dynamic_str_set b mx out = Some (b\<lparr>dn_str := ?s\<rparr>)"
      by (subst dynamic_str_set.simps) simp
    moreover have "take (dn_len b - 1) out = (if mx = 0 then out else take (mx - 1) out)"
      using False assms(3) len(2) by (auto split: if_splits)
    ultimately show ?thesis using filled_buffer [OF assms(1,2)] assms(3) by (intro exI conjI) (assumption | simp)+
  next
    case True
    define l where "l = (if mx > 0 then min (length out + 1) mx else length out + 1)"
    let ?b = "\<lparr>dn_len = l, dn_str = ?s @ replicate (l - length ?s) NUL\<rparr>"
    have l: "dn_len b \<le> l" "0 < l" using True len(2) by (auto simp: l_def split: if_splits)
    have "length (?s @ replicate (l - length ?s) NUL) = l"
      using length_append [of ?s "replicate (l - length ?s) NUL"] l(1) unfolding length_replicate len(1) by linarith
    then have ok: "dyn_ok ?b" using l(2) by (simp add: dyn_ok_def del: length_append)
    let ?t = "take (l - 1) out @ NUL # drop (length (take (l - 1) out) + 1) (dn_str ?b)"
    have stop: "\<not> (length out + 1 > l \<and> (if mx > 0 then l < mx else True))" by (auto simp: l_def min_def)
    have "spd_thread_dynamic_str_build_helper True b mx False out = Some (Some SPD_DNMCSTR_BUILD_RETRY, Some ?b)"
      unfolding build_helper_start [OF assms(1)] Let_def l_def using True by (rule if_P)
    then have "dynamic_str_set b mx out = dynamic_str_set ?b mx out"
      by (subst dynamic_str_set.simps) simp
    also have "spd_thread_dynamic_str_build_helper True ?b mx False out = Some (None, Some (?b\<lparr>dn_str := ?t\<rparr>))"
      unfolding build_helper_start [OF ok] Let_def spd_dynamic_str.simps using stop by (rule if_not_P)
    then have "dynamic_str_set ?b mx out = Some (?b\<lparr>dn_str := ?t\<rparr>)"
      by (subst dynamic_str_set.simps) simp
    finally have "dynamic_str_set b mx out = Some (?b\<lparr>dn_str := ?t\<rparr>)" .
    moreover have "take (l - 1) out = (if mx = 0 then out else take (mx - 1) out)"
      by (auto simp: l_def min_def)
    moreover have "mx = 0 \<or> l \<le> mx" by (auto simp: l_def)
    ultimately show ?thesis using filled_buffer [OF ok assms(2)] by (intro exI conjI) (assumption | simp)+
  qed
qed

section \<open>Levels\<close>

lemma mark_test: "m AND push_bit l 1 \<noteq> 0 \<longleftrightarrow> bit m l" for m :: int
  by (simp add: push_bit_of_1 and_exp_eq_0_iff_not_bit)

text \<open>A list of components names a level.\<close>

definition names_level :: "nat \<Rightarrow> string list \<Rightarrow> bool" where
  "names_level l ws \<longleftrightarrow> (\<exists>w \<in> set ws. strcasecmp (strip_text w) (loglevels ! l) = 0)"

lemma level_cases: "l < 5 \<Longrightarrow> l = 0 \<or> l = 1 \<or> l = 2 \<or> l = 3 \<or> l = (4 :: nat)"
  by linarith

definition level_names :: "string list" where
  "level_names = [''debug'', ''notice'', ''warning'', ''error'', ''verbose'']"

lemma level_names_lower: "map lower loglevels = level_names"
  by code_simp

lemma lower_level:
  assumes "l < 5" shows "lower (loglevels ! l) = level_names ! l"
proof -
  have "l < length loglevels" using assms by (simp add: loglevels_def)
  then show ?thesis unfolding level_names_lower [symmetric] by (rule nth_map [symmetric])
qed

lemma level_names_distinct: "l < 5 \<Longrightarrow> k < 5 \<Longrightarrow> level_names ! l = level_names ! k \<longleftrightarrow> l = k"
  by (subst nth_eq_iff_index_eq) (simp_all add: level_names_def)

lemma level_name_in: "l < 5 \<Longrightarrow> level_names ! l \<in> set level_names"
  by (rule nth_mem) (simp add: level_names_def)

lemma level_words:
  "strcasecmp w ''error'' = 0 \<longleftrightarrow> lower w = level_names ! 3"
  "strcasecmp w ''warning'' = 0 \<longleftrightarrow> lower w = level_names ! 2"
  "strcasecmp w ''notice'' = 0 \<longleftrightarrow> lower w = level_names ! 1"
  "strcasecmp w ''debug'' = 0 \<longleftrightarrow> lower w = level_names ! 0"
  "strcasecmp w ''verbose'' = 0 \<longleftrightarrow> lower w = level_names ! 4"
proof -
  have "lower ''error'' = level_names ! 3" "lower ''warning'' = level_names ! 2" "lower ''notice'' = level_names ! 1"
    "lower ''debug'' = level_names ! 0" "lower ''verbose'' = level_names ! 4"
    by code_simp+
  then show "strcasecmp w ''error'' = 0 \<longleftrightarrow> lower w = level_names ! 3"
    "strcasecmp w ''warning'' = 0 \<longleftrightarrow> lower w = level_names ! 2"
    "strcasecmp w ''notice'' = 0 \<longleftrightarrow> lower w = level_names ! 1"
    "strcasecmp w ''debug'' = 0 \<longleftrightarrow> lower w = level_names ! 0"
    "strcasecmp w ''verbose'' = 0 \<longleftrightarrow> lower w = level_names ! 4"
    by (simp_all only: strcasecmp_eq_0)
qed

text \<open>The bit that one word sets.\<close>

definition word_mark :: "string \<Rightarrow> int" where
  "word_mark w =
     (let x = lower (strip_text w)
      in if x = level_names ! 3 then push_bit 3 1 else if x = level_names ! 2 then push_bit 2 1
         else if x = level_names ! 1 then push_bit 1 1 else if x = level_names ! 0 then push_bit 0 1
         else if x = level_names ! 4 then push_bit 4 1 else 0)"

lemma components_loop_Cons: "components_loop (w # ws) res = components_loop ws (res OR word_mark w)"
proof (cases "strip_text w = []")
  case True
  have "[] \<notin> set level_names" by (simp add: level_names_def)
  then have "[] \<noteq> level_names ! l" if "l < 5" for l using level_name_in [OF that] by metis
  from this [of 0] this [of 1] this [of 2] this [of 3] this [of 4] have "word_mark w = 0"
    unfolding word_mark_def Let_def True by simp
  then show ?thesis by (simp add: True)
next
  case False
  then show ?thesis
    unfolding components_loop.simps Let_def level_words log_levels word_mark_def by (simp split: if_split)
qed

lemma word_mark_bit: "l < 5 \<Longrightarrow> bit (word_mark w) l \<longleftrightarrow> lower (strip_text w) = level_names ! l"
proof -
  assume l: "l < 5"
  have b: "bit (push_bit k 1 :: int) l \<longleftrightarrow> l = k" for k by (auto simp: bit_exp_iff)
  show ?thesis
    unfolding word_mark_def Let_def if_distrib [of "\<lambda>m. bit m l"] b
    using level_cases [OF l] by (elim disjE) (simp_all add: level_names_distinct)
qed

lemma components_loop_bit:
  "l < 5 \<Longrightarrow> bit (components_loop ws res) l \<longleftrightarrow> bit res l \<or> names_level l ws"
proof (induction ws arbitrary: res)
  case (Cons w ws)
  have n: "names_level l (w # ws) \<longleftrightarrow> lower (strip_text w) = level_names ! l \<or> names_level l ws"
    by (simp add: names_level_def lower_level [OF Cons.prems])
  show ?case
    unfolding n components_loop_Cons Cons.IH [OF Cons.prems] bit_or_iff word_mark_bit [OF Cons.prems] by blast
qed (simp add: names_level_def)

lemma make_components_bit: "l < 5 \<Longrightarrow> bit (make_components s) l \<longleftrightarrow> names_level l (strsep_comma s)"
  by (simp add: make_components_def components_loop_bit)

section \<open>Printing\<close>

lemma is_cstr_nat_dec: "is_cstr (nat_dec n)"
proof (induction n rule: nat_dec.induct)
  case (1 n)
  have "byte NUL = 0" by (simp add: byte_def)
  then have "char_of (48 + m) \<noteq> NUL" if "m < 10" for m :: nat
    using byte_char_of [of "48 + m"] that by auto
  then show ?case using 1 by (subst nat_dec.simps) simp
qed

lemma is_cstr_int_dec: "is_cstr (int_dec i)"
  by (simp add: int_dec_def is_cstr_nat_dec)

lemma is_cstr_term_color: "is_cstr s \<Longrightarrow> is_cstr (term_color s fg bg n)"
  by (auto simp: term_color_def Let_def snprintf_out_def ESC_def is_cstr_int_dec intro!: is_cstr_take)

definition log_ok :: "logger \<Rightarrow> bool" where
  "log_ok lg \<longleftrightarrow> dyn_ok (lg_buf lg) \<and> dn_len (lg_buf lg) \<le> BUFSIZ"

definition msg_ok :: "log_env \<Rightarrow> log_msg \<Rightarrow> bool" where
  "msg_ok env m \<longleftrightarrow> lm_level m < 5 \<and> is_cstr (lm_file m) \<and> is_cstr (lm_function m) \<and> is_cstr (lm_text m) \<and>
     (\<forall>d. is_cstr (le_date env d))"

lemma loglevels_cstr: "l < 5 \<Longrightarrow> is_cstr (loglevels ! l)"
  using nth_mem [of l loglevels] by (auto simp: loglevels_def)

lemma prefixes_cstr:
  assumes "msg_ok env m"
  shows "is_cstr (console_prefix env m (le_date env d))" "is_cstr (line_prefix env m (le_date env d))"
  using assms by (simp_all add: msg_ok_def console_prefix_def line_prefix_def is_cstr_term_color is_cstr_int_dec loglevels_cstr)

text \<open>What is printed of a text, and that the state apart from the buffer and the output stays.\<close>

abbreviation cut :: "string \<Rightarrow> string" where
  "cut out \<equiv> take (BUFSIZ - 1) out"

definition log_same :: "logger \<Rightarrow> logger \<Rightarrow> bool" where
  "log_same a b \<longleftrightarrow> (\<exists>buf out. b = a\<lparr>lg_buf := buf, lg_out := out\<rparr>)"

lemma log_same_refl [simp]: "log_same a a"
  unfolding log_same_def by (intro exI [of _ "lg_buf a"] exI [of _ "lg_out a"]) simp

lemma log_same_trans: "log_same a b \<Longrightarrow> log_same b c \<Longrightarrow> log_same a c"
  unfolding log_same_def by (elim exE, hypsubst) (rule exI, rule exI, simp)

lemma print_plain_out:
  assumes "log_ok lg" "is_cstr out"
  shows "\<exists>lg'. print_plain s out lg = Some lg' \<and> log_ok lg' \<and> log_same lg lg' \<and> lg_out lg' = lg_out lg @ [(s, cut out)]"
proof -
  have "BUFSIZ = 0 \<or> dn_len (lg_buf lg) \<le> BUFSIZ" using assms(1) by (simp add: log_ok_def)
  from dynamic_str_set_text [OF _ assms(2) this] assms(1) obtain b where
    "dynamic_str_set (lg_buf lg) BUFSIZ out = Some b" "dyn_ok b" "dn_len b \<le> BUFSIZ" "buf_text b = cut out"
    by (auto simp: log_ok_def BUFSIZ_def)
  then show ?thesis by (auto simp: print_plain_def put_out_def log_ok_def log_same_def)
qed

lemma filter_escapes_cstr: "is_cstr line \<Longrightarrow> is_cstr (filter_escapes_loop i len line)"
proof (induction i len line rule: filter_escapes_loop.induct)
  case (1 i len line)
  have "is_cstr (line[i := CHR '' ''])"
    using "1.prems" set_update_subset_insert [of line i "CHR '' ''"] by (auto simp: is_cstr_def)
  with 1 show ?case by (subst filter_escapes_loop.simps) auto
qed

lemma filter_buf_text:
  assumes "dyn_ok b"
  shows "dyn_ok (filter_buf b) \<and> dn_len (filter_buf b) = dn_len b \<and>
     buf_text (filter_buf b) = term_filter_escapes (buf_text b)"
proof -
  let ?t = "cstr (dn_str b)"
  have "NUL \<in> set (dn_str b)" using assms by (simp add: dyn_ok_def)
  then obtain u v where "dn_str b = u @ NUL # v" "NUL \<notin> set u" by (metis split_list_first)
  then have d: "dn_str b = ?t @ NUL # v" using cstr_append_NUL [of u v] by (simp add: is_cstr_def)
  have len: "length (term_filter_escapes ?t) = length ?t" by (simp add: term_filter_escapes_def length_filter_escapes)
  have "drop (length ?t) (dn_str b) = NUL # v" using d by (metis append_eq_conv_conj)
  then have f: "dn_str (filter_buf b) = term_filter_escapes ?t @ NUL # v" by (simp add: filter_buf_def)
  have "is_cstr (term_filter_escapes ?t)" unfolding term_filter_escapes_def by (rule filter_escapes_cstr) simp
  then have "buf_text (filter_buf b) = term_filter_escapes (buf_text b)"
    unfolding buf_text_def f by (rule cstr_append_NUL)
  moreover have "length (dn_str (filter_buf b)) = length (dn_str b)"
    using arg_cong [OF d, of length] by (simp add: f len)
  moreover have "NUL \<in> set (dn_str (filter_buf b))" "dn_len (filter_buf b) = dn_len b"
    unfolding f by (simp_all add: filter_buf_def)
  ultimately show ?thesis using assms by (simp add: dyn_ok_def)
qed

lemma print_filtered_out:
  assumes "log_ok lg" "is_cstr out"
  shows "\<exists>lg'. print_filtered s out lg = Some lg' \<and> log_ok lg' \<and> log_same lg lg' \<and>
     lg_out lg' = lg_out lg @ [(s, term_filter_escapes (cut out))]"
proof -
  have "BUFSIZ = 0 \<or> dn_len (lg_buf lg) \<le> BUFSIZ" using assms(1) by (simp add: log_ok_def)
  from dynamic_str_set_text [OF _ assms(2) this] assms(1) obtain b where
    "dynamic_str_set (lg_buf lg) BUFSIZ out = Some b" "dyn_ok b" "dn_len b \<le> BUFSIZ" "buf_text b = cut out"
    by (auto simp: log_ok_def BUFSIZ_def)
  then show ?thesis by (auto simp: print_filtered_def put_out_def log_ok_def log_same_def filter_buf_text)
qed

section \<open>Dispatch\<close>

text \<open>What a channel gets of a message.\<close>

definition chain_output :: "log_env \<Rightarrow> log_msg \<Rightarrow> string \<Rightarrow> spd_logchain \<Rightarrow> (sink \<times> string) list" where
  "chain_output env m date chan =
     (if \<not> bit (lc_logmark chan) (lm_level m) then []
      else if lc_type chan = LOGTYPE_CONSOLE then
        (if lm_level m \<noteq> LVL_VERBOSE
         then [(Stdout, term_filter_escapes (cut (console_prefix env m date))), (Stdout, cut (lm_text m))] else [])
      else (case lc_fptr chan of
              None \<Rightarrow> []
            | Some f \<Rightarrow>
                if le_write_ok env f then [(LogFile f, cut (line_prefix env m date)), (LogFile f, cut (lm_text m))]
                else [(Stderr, le_error env f)]))"

lemma put_out_facts [simp]:
  "lg_out (put_out s t lg) = lg_out lg @ [(s, t)]" "log_ok (put_out s t lg) = log_ok lg"
  "log_same lg (put_out s t lg)"
  by (simp_all add: put_out_def log_ok_def log_same_def)
    (intro exI [of _ "lg_buf lg"] exI, simp)

lemmas log_to_chain_bit = log_to_chain_def [unfolded mark_test]

lemma log_to_chain_out:
  assumes "log_ok lg" "msg_ok env m" "date = le_date env d"
  shows "\<exists>lg'. log_to_chain env m date chan lg = Some lg' \<and> log_ok lg' \<and> log_same lg lg' \<and>
     lg_out lg' = lg_out lg @ chain_output env m date chan"
proof -
  note pc = prefixes_cstr [OF assms(2), of d, folded assms(3)]
  have tx: "is_cstr (lm_text m)" using assms(2) by (simp add: msg_ok_def)
  consider "\<not> bit (lc_logmark chan) (lm_level m)" | "bit (lc_logmark chan) (lm_level m)" "lc_type chan = LOGTYPE_CONSOLE"
    | "bit (lc_logmark chan) (lm_level m)" "lc_type chan \<noteq> LOGTYPE_CONSOLE" by blast
  then show ?thesis
  proof cases
    case 1
    then show ?thesis using assms(1) by (simp add: log_to_chain_bit chain_output_def)
  next
    case 2
    obtain l1 where l1: "print_filtered Stdout (console_prefix env m date) lg = Some l1" "log_ok l1" "log_same lg l1"
      "lg_out l1 = lg_out lg @ [(Stdout, term_filter_escapes (cut (console_prefix env m date)))]"
      using print_filtered_out [OF assms(1) pc(1)] by blast
    obtain l2 where "print_plain Stdout (lm_text m) l1 = Some l2" "log_ok l2" "log_same l1 l2"
      "lg_out l2 = lg_out l1 @ [(Stdout, cut (lm_text m))]"
      using print_plain_out [OF l1(2) tx] by blast
    with l1 2 assms(1) show ?thesis
      by (auto simp: log_to_chain_bit chain_output_def intro: log_same_trans)
  next
    case 3
    show ?thesis
    proof (cases "lc_fptr chan")
      case None
      then show ?thesis using assms(1) 3 by (simp add: log_to_chain_bit chain_output_def)
    next
      case (Some f)
      have "BUFSIZ = 0 \<or> dn_len (lg_buf lg) \<le> BUFSIZ" using assms(1) by (simp add: log_ok_def)
      from dynamic_str_set_text [OF _ pc(2) this] assms(1) obtain b where
        b: "dynamic_str_set (lg_buf lg) BUFSIZ (line_prefix env m date) = Some b" "dyn_ok b" "dn_len b \<le> BUFSIZ"
          "buf_text b = cut (line_prefix env m date)"
        by (auto simp: log_ok_def BUFSIZ_def)
      let ?lg = "lg\<lparr>lg_buf := b\<rparr>"
      have lg: "log_ok ?lg" "log_same lg ?lg" "lg_out ?lg = lg_out lg"
        using b(2,3) by (simp_all add: log_ok_def log_same_def) (intro exI [of _ b] exI [of _ "lg_out lg"], simp)
      have "buf_text b \<noteq> []" using b(4) by (simp add: line_prefix_def BUFSIZ_def)
      then show ?thesis
        using 3 Some b(1,4) lg print_plain_out [of "put_out (LogFile f) (buf_text b) ?lg" "lm_text m" "LogFile f"] tx
        by (auto simp: log_to_chain_bit chain_output_def Let_def
            intro: log_same_trans log_same_trans [OF log_same_trans [OF lg(2) put_out_facts(3)]])
    qed
  qed
qed

lemma log_to_chains_out:
  assumes "log_ok lg" "msg_ok env m" "date = le_date env d"
  shows "\<exists>lg'. log_to_chains env m date cs lg = Some lg' \<and> log_ok lg' \<and> log_same lg lg' \<and>
     lg_out lg' = lg_out lg @ concat (map (chain_output env m date) cs)"
  using assms(1)
proof (induction cs arbitrary: lg)
  case (Cons c cs)
  obtain l1 where l1: "log_to_chain env m date c lg = Some l1" "log_ok l1" "log_same lg l1"
    "lg_out l1 = lg_out lg @ chain_output env m date c"
    using log_to_chain_out [OF Cons.prems assms(2,3)] by blast
  with Cons.IH [OF l1(2)] show ?case by (auto intro: log_same_trans)
qed auto

lemma spd_log_out:
  assumes "log_ok lg" "msg_ok env m" "lg_chains lg \<noteq> []" "\<not> le_reload env"
  shows "\<exists>lg'. spd_log env m lg = Some lg' \<and> log_ok lg' \<and> log_same lg lg' \<and>
     lg_out lg' = lg_out lg @ concat (map (chain_output env m (le_date env (lg_dateformat lg))) (lg_chains lg))"
proof -
  have "lm_level m < 5" using assms(2) by (simp add: msg_ok_def)
  with log_to_chains_out [OF assms(1,2) refl, of "lg_dateformat lg" "lg_chains lg"] assms(3,4) show ?thesis
    by (subst spd_log.simps) auto
qed

text \<open>A verbose message: the verbosers get it with its mark, the channels without.\<close>

lemma call_verbosers_out:
  assumes "dyn_ok (lg_vbuf lg)" "is_cstr out"
  shows "\<exists>b. call_verbosers out lg = Some (lg\<lparr>lg_vbuf := b,
       lg_out := lg_out lg @ map (\<lambda>v. (Verboser v, term_filter_escapes (CHR 0x7F # out))) (lg_verbosers lg)\<rparr>) \<and>
     dyn_ok b \<and> buf_text b = term_filter_escapes (CHR 0x7F # out)"
proof -
  have "is_cstr (CHR 0x7F # out)" using assms(2) by (simp add: is_cstr_def)
  from dynamic_str_set_text [OF assms(1) this, of 0] obtain b where
    "dynamic_str_set (lg_vbuf lg) 0 (CHR 0x7F # out) = Some b" "dyn_ok b" "buf_text b = CHR 0x7F # out" by auto
  then show ?thesis using filter_buf_text [of b] by (auto simp: call_verbosers_def Let_def)
qed

lemma chain_output_sinks: "x \<in> set (chain_output env m date chan) \<Longrightarrow> fst x \<noteq> Verboser v"
  by (auto simp: chain_output_def split: if_splits option.splits)

lemma spd_verbose_out:
  assumes "log_ok lg" "dyn_ok (lg_vbuf lg)" "is_cstr out" "\<not> le_reload env" "\<forall>d. is_cstr (le_date env d)"
  shows "\<exists>lg' rest. spd_verbose env out lg = Some lg' \<and> log_ok lg' \<and>
     lg_out lg' = lg_out lg @ map (\<lambda>v. (Verboser v, term_filter_escapes (CHR 0x7F # out))) (lg_verbosers lg) @ rest \<and>
     (\<forall>x \<in> set rest. \<forall>v. fst x \<noteq> Verboser v)"
proof -
  obtain b where b: "call_verbosers out lg = Some (lg\<lparr>lg_vbuf := b,
       lg_out := lg_out lg @ map (\<lambda>v. (Verboser v, term_filter_escapes (CHR 0x7F # out))) (lg_verbosers lg)\<rparr>)"
    (is "_ = Some ?lg") "buf_text b = term_filter_escapes (CHR 0x7F # out)"
    using call_verbosers_out [OF assms(2,3)] by blast
  let ?m = "own_msg LVL_VERBOSE 394 ''spd_verbose'' (tl (buf_text b))"
  have "is_cstr (term_filter_escapes (CHR 0x7F # out))"
    unfolding term_filter_escapes_def using assms(3) by (intro filter_escapes_cstr) (simp add: is_cstr_def)
  then have "is_cstr (tl (buf_text b))" unfolding b(2) is_cstr_def by (metis list.set_sel(2) tl_Nil)
  then have m: "msg_ok env ?m" using assms(5) by (simp add: msg_ok_def own_msg_def LVL_VERBOSE_def is_cstr_def)
  have ok: "log_ok ?lg" using assms(1) by (simp add: log_ok_def)
  have v: "spd_verbose env out lg = spd_log env ?m ?lg" using b(1) by (simp add: spd_verbose_def)
  show ?thesis
  proof (cases "lg_chains lg = []")
    case True
    then have "spd_log env ?m ?lg = Some ?lg"
      by (subst spd_log.simps) (simp add: own_msg_def LVL_VERBOSE_def)
    with v ok show ?thesis by (intro exI [of _ ?lg] exI [of _ "[]"]) simp
  next
    case False
    then have "lg_chains ?lg \<noteq> []" by simp
    from spd_log_out [OF ok m this assms(4)] obtain lg' where
      "spd_log env ?m ?lg = Some lg'" "log_ok lg'"
      "lg_out lg' = lg_out ?lg @ concat (map (chain_output env ?m (le_date env (lg_dateformat ?lg))) (lg_chains ?lg))"
      by blast
    with v show ?thesis
      by (intro exI [of _ lg'] exI [of _ "concat (map (chain_output env ?m (le_date env (lg_dateformat ?lg))) (lg_chains ?lg))"])
        (auto dest: chain_output_sinks)
  qed
qed

text \<open>The channels that a configuration makes.\<close>

lemma chains_loop_chains:
  "(\<forall>v \<in> set vs. v_name v \<noteq> []) \<Longrightarrow>
   fst (chains_loop fo host vs cs lm) = map (\<lambda>v. the (make_logchain fo host (v_name v) (v_value v))) (rev vs) @ cs"
proof (induction vs arbitrary: cs lm)
  case (Cons v vs)
  then obtain c where "make_logchain fo host (v_name v) (v_value v) = Some c" by (auto simp: make_logchain_def Let_def)
  with Cons show ?case by simp
qed simp

text \<open>The reference: what the owner of a line of the configuration file expects of a message.\<close>

definition channel_file :: "string \<Rightarrow> string" where
  "channel_file c = snprintf_out 256 ((if hd c \<noteq> CHR ''/'' then SPD_LOG_DIR else []) @ ''/'' @ c)"

definition channel_output :: "(string \<Rightarrow> bool) \<Rightarrow> log_env \<Rightarrow> log_msg \<Rightarrow> string \<Rightarrow> string \<Rightarrow> string \<Rightarrow> (sink \<times> string) list" where
  "channel_output fo env m date channel levels =
     (if \<not> names_level (lm_level m) (strsep_comma levels) then []
      else if lower (take 7 channel) = ''console'' then
        (if lm_level m = LVL_VERBOSE then []
         else [(Stdout, term_filter_escapes (cut (console_prefix env m date))), (Stdout, cut (lm_text m))])
      else if lower (take 6 channel) = ''syslog'' \<or> \<not> fo (channel_file channel) then []
      else if le_write_ok env (channel_file channel)
      then [(LogFile (channel_file channel), cut (line_prefix env m date)), (LogFile (channel_file channel), cut (lm_text m))]
      else [(Stderr, le_error env (channel_file channel))])"

lemma lower_channels: "lower (take 7 ''console'') = ''console''" "lower (take 6 ''syslog'') = ''syslog''"
  by code_simp+

lemma channel_kinds:
  "strncasecmp c ''console'' 7 = 0 \<longleftrightarrow> lower (take 7 c) = ''console''"
  "strncasecmp c ''syslog'' 6 = 0 \<longleftrightarrow> lower (take 6 c) = ''syslog''"
  by (simp_all only: strncasecmp_eq_0 lower_channels)

lemma make_logchain_output:
  assumes "channel \<noteq> []" "lm_level m < 5"
  shows "chain_output env m date (the (make_logchain fo [] channel levels)) = channel_output fo env m date channel levels"
proof (cases "lower (take 7 channel) = ''console'' \<or> lower (take 6 channel) = ''syslog''")
  case True
  then show ?thesis
    using assms(1) unfolding make_logchain_def channel_kinds Let_def chain_output_def channel_output_def
    by (auto simp: make_components_bit [OF assms(2)])
next
  case False
  then show ?thesis
    using assms(1) unfolding make_logchain_def channel_kinds Let_def chain_output_def channel_output_def channel_file_def
    by (simp add: make_components_bit [OF assms(2)])
qed

text \<open>The name of an option is no word for yes: the host name is never used.\<close>

lemma retrive_general:
  assumes "spd_variable_retrive cfg (Some s) name = Some (Some t)" shows "lower t = lower name"
  using assms by (auto simp: spd_variable_retrive_def find_Some_iff)

lemma appendhostname_false:
  assumes "lower t = lower ''appendhostname''" shows "spd_true (Some t) = 0"
proof -
  have t: "length t = 14" using arg_cong [OF assms, of length] by simp
  have "strcasecmp t w \<noteq> 0" if "length w < 14" for w
    using that t unfolding strcasecmp_eq_0 by (metis length_map less_irrefl)
  from this [of "''yes''"] this [of "''true''"] this [of "''y''"] this [of "''t''"] this [of "''1''"] this [of "''on''"]
  show ?thesis unfolding spd_true_def option.case by (simp del: strcasecmp_eq_0)
qed

lemma init_from_config:
  assumes "init_logger_chain fo host (Some cfg) lg = Some lg1"
    and "spd_variable_browse cfg (Some (CP None ''logfiles'')) = Some vs" "\<forall>v \<in> set vs. v_name v \<noteq> []"
  shows "lg_hostname lg1 = [] \<and> lg_buf lg1 = lg_buf lg \<and> lg_out lg1 = lg_out lg \<and>
     lg_chains lg1 = map (\<lambda>v. the (make_logchain fo [] (v_name v) (v_value v))) (rev vs)"
proof -
  obtain s where s: "spd_variable_retrive cfg (Some (CP None ''general'')) ''appendhostname'' = Some s"
    using assms(1) by (auto simp: init_logger_chain_def Let_def bind_Some_iff)
  have n: "s = None \<or> spd_true s = 0"
    using s appendhostname_false [OF retrive_general] by (cases s) auto
  obtain d where d: "spd_variable_retrive cfg (Some (CP None ''general'')) ''dataformat'' = Some d"
    using assms(1) s by (auto simp: init_logger_chain_def Let_def bind_Some_iff)
  have "lg_chains lg1 = fst (chains_loop fo [] vs [] 0) \<and> lg_hostname lg1 = [] \<and> lg_buf lg1 = lg_buf lg \<and> lg_out lg1 = lg_out lg"
    using assms(1,2) s d n unfolding init_logger_chain_def Let_def option.case
    by (cases s; cases d) (auto simp: case_prod_beta)
  then show ?thesis using chains_loop_chains [OF assms(3)] by simp
qed

section \<open>Properties\<close>

text \<open>
  C24: after the logger was set up from a configuration, a message is printed on exactly the
  channels whose comma-separated list names its level, in the order that the last line of the section
  comes first: on the console as a filtered prefix and the text, in a file that could be opened as a
  prefix and the text, on a syslog channel not at all. File names never get the host name.
\<close>

theorem log_dispatch:
  assumes "init_logger_chain fo host (Some cfg) lg = Some lg1" "log_ok lg" "msg_ok env m" "\<not> le_reload env"
    and "spd_variable_browse cfg (Some (CP None ''logfiles'')) = Some vs" "vs \<noteq> []" "\<forall>v \<in> set vs. v_name v \<noteq> []"
  shows "\<exists>lg2. spd_log env m lg1 = Some lg2 \<and>
     lg_out lg2 = lg_out lg1 @
       concat (map (\<lambda>v. channel_output fo env m (le_date env (lg_dateformat lg1)) (v_name v) (v_value v)) (rev vs))"
proof -
  note init = init_from_config [OF assms(1,5,7)]
  have ok: "log_ok lg1" using assms(2) init by (simp add: log_ok_def)
  have lv: "lm_level m < 5" using assms(3) by (simp add: msg_ok_def)
  have "map (chain_output env m date) (lg_chains lg1) =
      map (\<lambda>v. channel_output fo env m date (v_name v) (v_value v)) (rev vs)" for date
    using init assms(7) by (simp add: make_logchain_output [OF _ lv])
  moreover have "lg_chains lg1 \<noteq> []" using init assms(6) by simp
  ultimately show ?thesis using spd_log_out [OF ok assms(3) _ assms(4)] by metis
qed

text \<open>
  without a configuration file the mask is made of the level numbers 1, 2 and 3
  instead of their bits: warnings and errors are printed nowhere, debug messages and notices are.
\<close>

lemma log_default_levels:
  assumes "init_logger_chain fo host None lg = Some lg1" "log_ok lg" "msg_ok env m" "\<not> le_reload env"
  shows "\<exists>lg2. spd_log env m lg1 = Some lg2 \<and>
     lg_out lg2 = lg_out lg @
       (if lm_level m = LVL_DEBUG \<or> lm_level m = LVL_NOTICE
        then [(Stdout, term_filter_escapes (cut (console_prefix env m (le_date env (lg_dateformat lg))))), (Stdout, cut (lm_text m))]
        else [])"
proof -
  let ?c = "\<lparr>lc_type = LOGTYPE_CONSOLE, lc_logmark = 3, lc_fptr = None, lc_filename = []\<rparr>"
  have init: "lg_chains lg1 = [?c]" "lg_buf lg1 = lg_buf lg" "lg_out lg1 = lg_out lg" "lg_dateformat lg1 = lg_dateformat lg"
    using assms(1) by (auto simp: init_logger_chain_def Let_def log_levels)
  have ok: "log_ok lg1" using assms(2) init by (simp add: log_ok_def)
  have "bit (3 :: int) l \<longleftrightarrow> l = 0 \<or> l = 1" if "l < 5" for l
    using level_cases [OF that] by (elim disjE) (simp_all add: bit_iff_odd)
  then have "bit (3 :: int) (lm_level m) \<longleftrightarrow> lm_level m = 0 \<or> lm_level m = 1"
    using assms(3) by (simp add: msg_ok_def)
  then have "chain_output env m date ?c =
      (if lm_level m = LVL_DEBUG \<or> lm_level m = LVL_NOTICE
       then [(Stdout, term_filter_escapes (cut (console_prefix env m date))), (Stdout, cut (lm_text m))] else [])" for date
    by (simp add: chain_output_def log_levels)
  then show ?thesis using spd_log_out [OF ok assms(3) _ assms(4)] init by auto
qed

text \<open>Once the size limit of a file was hit every further message calls the logger without end.\<close>

lemma log_to_chains_keep: "log_to_chains env m date cs lg = Some lg' \<Longrightarrow> lg_chains lg' = lg_chains lg"
proof (induction cs arbitrary: lg)
  case (Cons c cs)
  obtain l1 where l1: "log_to_chain env m date c lg = Some l1" "log_to_chains env m date cs l1 = Some lg'"
    using Cons.prems by (auto simp: bind_Some_iff)
  have "lg_chains l1 = lg_chains lg"
    using l1(1) by (auto simp: log_to_chain_def print_filtered_def print_plain_def put_out_def Let_def bind_Some_iff
      split: if_splits option.splits)
  with Cons.IH [OF l1(2)] show ?case by simp
qed simp

lemma if_None_Some: "(if a then None else x) = Some y \<longleftrightarrow> \<not> a \<and> x = Some y"
  by simp

lemma log_reload_diverges:
  assumes "le_reload env" "lg_chains lg \<noteq> []" shows "spd_log env m lg = None"
proof -
  let ?P = "\<lambda>(env :: log_env) (m :: log_msg) (lg :: logger) (y :: logger). le_reload env \<longrightarrow> lg_chains lg = []"
  have "?P env m lg y" if "spd_log env m lg = Some y" for y
  proof (rule spd_log.raw_induct [of ?P, OF _ that], intro impI, rule ccontr)
    fix f :: "log_env \<Rightarrow> log_msg \<Rightarrow> logger \<Rightarrow> logger option" and env :: log_env and m :: log_msg and lg y :: logger
    assume ih: "\<And>env m lg y. f env m lg = Some y \<Longrightarrow> ?P env m lg y" and r: "le_reload env" "lg_chains lg \<noteq> []"
    assume body: "(if lm_level m \<ge> 5 then None
        else if lg_chains lg = [] then
          (if lm_level m \<noteq> LVL_VERBOSE then print_filtered Stdout (lm_text m) lg else Some lg)
        else
          Option.bind (log_to_chains env m (le_date env (lg_dateformat lg)) (lg_chains lg) lg) (\<lambda>lg.
            if le_reload env then
              Option.bind (f env (own_msg LVL_DEBUG 363 ''spd_log'' (''retated logs per sigxfsz '' @ [CHR 0x0A])) lg) (\<lambda>lg.
                Option.bind (call_verbosers (''retated log size '' @ [CHR 0x0A]) lg) (\<lambda>lg.
                  f env (own_msg LVL_VERBOSE 394 ''spd_verbose'' (tl (buf_text (lg_vbuf lg)))) lg))
            else Some lg)) = Some y"
    obtain l1 l2 mm where l: "log_to_chains env m (le_date env (lg_dateformat lg)) (lg_chains lg) lg = Some l1"
        "f env mm l1 = Some l2"
      using body [unfolded if_None_Some if_not_P [OF r(2)] bind_Some_iff if_P [OF r(1)]] by blast
    show False using ih [OF l(2)] r log_to_chains_keep [OF l(1)] by simp
  qed
  with assms show ?thesis by (metis not_None_eq)
qed

text \<open>Messages of a small program: notices and errors go to a file, all but debugging to the console.\<close>

definition demo_env :: log_env where
  "demo_env = \<lparr>le_date = \<lambda>_. ''now'', le_pid = 1, le_write_ok = \<lambda>_. True, le_error = \<lambda>_. [], le_reload = False\<rparr>"

definition demo_msg :: log_msg where
  "demo_msg = \<lparr>lm_level = LVL_ERROR, lm_file = ''a.c'', lm_line = 1, lm_function = ''f'', lm_text = ''hi''\<rparr>"

definition demo_logger :: logger where
  "demo_logger = \<lparr>lg_chains = [], lg_mask = - 1, lg_hostname = [], lg_dateformat = ''%T'',
     lg_buf = \<lparr>dn_len = 128, dn_str = replicate 128 NUL\<rparr>, lg_vbuf = \<lparr>dn_len = 128, dn_str = replicate 128 NUL\<rparr>,
     lg_verbosers = [], lg_out = []\<rparr>"

definition demo_log_cfg where
  "demo_log_cfg =
     spd_config_new\<lparr>c_sections :=
       [\<lparr>s_addr = 1, s_name = ''logfiles'', s_ignored = False, s_include_level = 0, s_templates = [], s_prev = [],
         s_sameline = [],
         s_vars = [spd_variable_new 2 ''messages'' ''notice,error'', spd_variable_new 3 ''debug.log'' ''debug''],
         s_last = Some 3\<rparr>], c_last := Some 1\<rparr>"

lemma demo_log: "log_ok demo_logger" "msg_ok demo_env demo_msg" "\<not> le_reload demo_env"
  by (simp_all add: log_ok_def dyn_ok_def demo_logger_def BUFSIZ_def msg_ok_def demo_env_def demo_msg_def log_levels)

theorem log_dispatch_witness:
  "\<exists>lg1 lg2. init_logger_chain (\<lambda>_. True) None (Some demo_log_cfg) demo_logger = Some lg1 \<and>
     spd_log demo_env demo_msg lg1 = Some lg2 \<and> map fst (lg_out lg2) = [LogFile ''/var/log/spider/messages'', LogFile ''/var/log/spider/messages'']"
proof -
  let ?vs = "[spd_variable_new 2 ''messages'' ''notice,error'', spd_variable_new 3 ''debug.log'' ''debug'']"
  have vs: "spd_variable_browse demo_log_cfg (Some (CP None ''logfiles'')) = Some ?vs"
    by (simp add: spd_variable_browse_def demo_log_cfg_def spd_config_new_def spd_section_get_def section_get_def)
  have "lower ''logfiles'' \<noteq> lower ''general''" by code_simp
  then have g: "spd_variable_retrive demo_log_cfg (Some (CP None ''general'')) n = Some None" for n
    by (simp add: spd_variable_retrive_def spd_variable_browse_def demo_log_cfg_def spd_config_new_def
        spd_section_get_def section_get_def del: list.map)
  obtain lg1 where init: "init_logger_chain (\<lambda>_. True) None (Some demo_log_cfg) demo_logger = Some lg1"
    by (simp add: init_logger_chain_def Let_def g vs)
  have "names_level 3 (strsep_comma ''notice,error'')" "\<not> names_level 3 (strsep_comma ''debug'')"
    "channel_file ''messages'' = ''/var/log/spider/messages''"
    "lower (take 7 ''messages'') \<noteq> ''console''" "lower (take 6 ''messages'') \<noteq> ''syslog''"
    by code_simp+
  moreover have "lg_out lg1 = []" using init_from_config [OF init vs] by (simp add: spd_variable_new_def demo_logger_def)
  moreover note log_dispatch [OF init demo_log vs]
  ultimately show ?thesis using init
    by (auto simp: spd_variable_new_def channel_output_def demo_msg_def demo_env_def log_levels)
qed

theorem log_default_levels_witness:
  "\<exists>lg1 lg2. init_logger_chain (\<lambda>_. True) None None demo_logger = Some lg1 \<and>
     spd_log demo_env demo_msg lg1 = Some lg2 \<and> lg_out lg2 = []"
proof -
  obtain lg1 where "init_logger_chain (\<lambda>_. True) None None demo_logger = Some lg1"
    by (simp add: init_logger_chain_def Let_def)
  from log_default_levels [OF this demo_log] this show ?thesis
    by (auto simp: demo_msg_def log_levels) (simp add: demo_logger_def)
qed

end
