(* ===== verification/Spd_Daemon.thy ===== *)
theory Spd_Daemon
  imports Spd_Config Spd_Utils "HOL-Library.Multiset"
begin

unbundle bit_operations_syntax

text \<open>
  The daemon: \<open>src/spider.c\<close> and \<open>src/options.h\<close>: functions to call at exit, the options of the
  command line and of the configuration, the start, the consoles, the prefixes of verbose messages,
  the sort and the search of an array. Integers of arrays and counters stay far from their bounds
  and are \<open>int\<close>. What system calls and \<open>getopt\<close> return are arguments.
\<close>

section \<open>Functions to call at exit\<close>

text \<open>The list of \<open>atexits\<close>; a function is a number.\<close>

definition spd_unregister_atexit :: "nat \<Rightarrow> nat list \<Rightarrow> nat list" where
  "spd_unregister_atexit func ats = remove1 func ats"

definition spd_register_atexit :: "bool \<Rightarrow> nat \<Rightarrow> nat list \<Rightarrow> int \<times> nat list" where
  "spd_register_atexit mem func ats =
     (if \<not> mem then (- 1, ats) else (0, func # spd_unregister_atexit func ats))"

section \<open>Options\<close>

definition SPD_OPT_FLAG_NO_FORK :: flags where "SPD_OPT_FLAG_NO_FORK = push_bit 0 1"
definition SPD_OPT_FLAG_CONSOLE :: flags where "SPD_OPT_FLAG_CONSOLE = push_bit 1 1"
definition SPD_OPT_FLAG_REMOTE :: flags where "SPD_OPT_FLAG_REMOTE = push_bit 2 1"
definition SPD_OPT_FLAG_TIMESTAMP :: flags where "SPD_OPT_FLAG_TIMESTAMP = push_bit 3 1"
definition SPD_OPT_FLAG_CORE_DUMP :: flags where "SPD_OPT_FLAG_CORE_DUMP = push_bit 4 1"
definition SPD_OPT_FLAG_RECONNECT :: flags where "SPD_OPT_FLAG_RECONNECT = push_bit 5 1"
definition SPD_OPT_FLAG_MUTE :: flags where "SPD_OPT_FLAG_MUTE = push_bit 6 1"

lemmas opt_flags = SPD_OPT_FLAG_NO_FORK_def SPD_OPT_FLAG_CONSOLE_def SPD_OPT_FLAG_REMOTE_def
  SPD_OPT_FLAG_TIMESTAMP_def SPD_OPT_FLAG_CORE_DUMP_def SPD_OPT_FLAG_RECONNECT_def SPD_OPT_FLAG_MUTE_def

record options =
  spd_options :: flags
  option_verbose :: int
  option_debug :: int
  system_name :: string

definition spd_opt_no_fork :: "options \<Rightarrow> bool" where
  "spd_opt_no_fork o' \<longleftrightarrow> spd_test_flag (spd_options o') SPD_OPT_FLAG_NO_FORK \<noteq> 0"
definition spd_opt_console :: "options \<Rightarrow> bool" where
  "spd_opt_console o' \<longleftrightarrow> spd_test_flag (spd_options o') SPD_OPT_FLAG_CONSOLE \<noteq> 0"
definition spd_opt_remote :: "options \<Rightarrow> bool" where
  "spd_opt_remote o' \<longleftrightarrow> spd_test_flag (spd_options o') SPD_OPT_FLAG_REMOTE \<noteq> 0"
definition spd_opt_core_dump :: "options \<Rightarrow> bool" where
  "spd_opt_core_dump o' \<longleftrightarrow> spd_test_flag (spd_options o') SPD_OPT_FLAG_CORE_DUMP \<noteq> 0"
definition spd_opt_mute :: "options \<Rightarrow> bool" where
  "spd_opt_mute o' \<longleftrightarrow> spd_test_flag (spd_options o') SPD_OPT_FLAG_MUTE \<noteq> 0"

datatype leave = Usage | Version | KillBackground

text \<open>The letters that \<open>getopt\<close> returns; \<open>R\<close> falls through to \<open>c\<close>.\<close>

definition getopt_option :: "char \<Rightarrow> options \<Rightarrow> leave + options" where
  "getopt_option c op =
     (if c = CHR ''g'' then Inr (op\<lparr>spd_options := spd_set_flag (spd_options op) SPD_OPT_FLAG_CORE_DUMP\<rparr>)
      else if c = CHR ''h'' then Inl Usage
      else if c = CHR ''V'' then Inl Version
      else if c = CHR ''v'' then Inr (op\<lparr>option_verbose := option_verbose op + 1\<rparr>)
      else if c = CHR ''k'' then Inl KillBackground
      else if c = CHR ''d'' then Inr (op\<lparr>option_debug := option_debug op + 1\<rparr>)
      else if c = CHR ''r'' then
        Inr (op\<lparr>spd_options := spd_set_flag (spd_options op) (SPD_OPT_FLAG_NO_FORK OR SPD_OPT_FLAG_REMOTE)\<rparr>)
      else if c = CHR ''R'' then
        Inr (op\<lparr>spd_options :=
          spd_set_flag (spd_set_flag (spd_options op) (SPD_OPT_FLAG_NO_FORK OR SPD_OPT_FLAG_RECONNECT))
            (SPD_OPT_FLAG_CONSOLE OR SPD_OPT_FLAG_NO_FORK)\<rparr>)
      else if c = CHR ''c'' then
        Inr (op\<lparr>spd_options := spd_set_flag (spd_options op) (SPD_OPT_FLAG_CONSOLE OR SPD_OPT_FLAG_NO_FORK)\<rparr>)
      else Inr op)"

fun getopt_loop :: "char list \<Rightarrow> options \<Rightarrow> leave + options" where
  "getopt_loop [] op = Inr op"
| "getopt_loop (c # cs) op = (case getopt_option c op of Inl l \<Rightarrow> Inl l | Inr op \<Rightarrow> getopt_loop cs op)"

text \<open>The value for yes of \<open>spd_true\<close> is -1. \<open>PATH_MAX\<close> is 4096.\<close>

fun mainconfig_loop :: "spd_variable list \<Rightarrow> options \<Rightarrow> options" where
  "mainconfig_loop [] op = op"
| "mainconfig_loop (v # vs) op =
     (if strcasecmp (v_name v) ''verbose'' = 0 then mainconfig_loop vs (op\<lparr>option_verbose := c_atoi (v_value v)\<rparr>)
      else if strcasecmp (v_name v) ''timestamp'' = 0 then
        mainconfig_loop vs
          (op\<lparr>spd_options := spd_set2_flag (spd_options op) (spd_true (Some (v_value v)) \<noteq> 0) SPD_OPT_FLAG_TIMESTAMP\<rparr>)
      else if strcasecmp (v_name v) ''debug'' = 0 then
        mainconfig_loop vs
          (op\<lparr>option_debug := (case scan_int 30 (v_value v) of None \<Rightarrow> spd_true (Some (v_value v)) | Some n \<Rightarrow> n)\<rparr>)
      else if strcasecmp (v_name v) ''systemname'' = 0 then
        mainconfig_loop vs (op\<lparr>system_name := take 4095 (v_value v)\<rparr>)
      else mainconfig_loop vs op)"

definition read_mainconfig :: "spd_config option \<Rightarrow> options \<Rightarrow> options option" where
  "read_mainconfig cfg op =
     (case cfg of
        None \<Rightarrow> Some op
      | Some cfg \<Rightarrow> map_option (\<lambda>vs. mainconfig_loop vs op) (spd_variable_browse cfg (Some (CP None ''options''))))"

section \<open>Start\<close>

text \<open>The process leaves in the parents and when the session cannot be changed.\<close>

definition deamonize :: "int \<Rightarrow> int \<Rightarrow> int \<Rightarrow> bool" where
  "deamonize fork1 setsid fork2 \<longleftrightarrow>
     (if fork1 \<noteq> 0 then False else if setsid < 0 then False else if fork2 \<noteq> 0 then False else True)"

text \<open>The result and the process that gets a signal.\<close>

definition kill_spider_backgroud :: "string option \<Rightarrow> int \<times> int option" where
  "kill_spider_backgroud pidfile =
     (case pidfile of
        None \<Rightarrow> (- 1, None)
      | Some s \<Rightarrow>
          (let pid = (case scan_int (length s) s of None \<Rightarrow> 0 | Some n \<Rightarrow> n)
           in (0, if pid > 0 then Some pid else None)))"

datatype boot =
    RegisterConsole | Welcome | Booting | ReadConfig | CoreLimit | TryConnect | Deamonize | WritePid
  | DomainServer | InitLogger | Leave leave | ParentExit

text \<open>
  \<open>main\<close> up to its endless loop: what it does in order, and the options with which it runs on.
  \<open>child\<close> is the answer of \<open>deamonize\<close>. The answer of \<open>spd_tryconn\<close> is not used. \<open>op\<close> are the
  options before and \<open>op'\<close> after reading the configuration.
\<close>

definition boot_steps :: "bool \<Rightarrow> options \<Rightarrow> options \<Rightarrow> boot list \<times> options option" where
  "boot_steps child op op' =
     (let steps =
            (if spd_opt_console op \<or> option_verbose op \<noteq> 0 \<or> spd_opt_remote op then [RegisterConsole, Welcome] else []) @
            (if spd_opt_console op then [Booting] else []) @ [ReadConfig] @
            (if spd_opt_core_dump op' then [CoreLimit] else []) @ [TryConnect]
      in if \<not> spd_opt_no_fork op' then
           (if child then (steps @ [Deamonize, WritePid, DomainServer, InitLogger], Some op')
            else (steps @ [Deamonize, ParentExit], None))
         else (steps @ [DomainServer, InitLogger], Some op'))"

definition spider_main ::
  "string option \<Rightarrow> char list \<Rightarrow> spd_config option \<Rightarrow> bool \<Rightarrow> options \<Rightarrow> (boot list \<times> options option) option" where
  "spider_main argv0 opts cfg child op =
     (let op = (if argv0 \<noteq> None \<and> strstr (the argv0) ''rspider'' \<noteq> None
                then op\<lparr>spd_options := spd_set_flag (spd_options op) (SPD_OPT_FLAG_REMOTE OR SPD_OPT_FLAG_NO_FORK)\<rparr>
                else op)
      in case getopt_loop opts op of
           Inl l \<Rightarrow> Some ([Leave l], None)
         | Inr op \<Rightarrow> map_option (boot_steps child op) (read_mainconfig cfg op))"

section \<open>Consoles\<close>

record console =
  con_fd :: int
  con_p0 :: int
  con_p1 :: int
  con_mute :: bool

definition SPD_MAX_CONNECTS :: nat where "SPD_MAX_CONNECTS = 128"

datatype fd_event = FdPrint int string | FdClose int

text \<open>\<open>start_domainserver\<close> frees all slots first.\<close>

definition free_consoles :: "console list \<Rightarrow> console list" where
  "free_consoles cs = map (\<lambda>c. c\<lparr>con_fd := - 1\<rparr>) cs"

text \<open>
  One accepted connection \<open>s\<close> in \<open>listener_thread\<close>: \<open>pipe\<close> is what \<open>socketpair\<close> gives, \<open>thread\<close>
  tells whether the thread could be created.
\<close>

fun take_console :: "int \<Rightarrow> (int \<times> int) option \<Rightarrow> bool \<Rightarrow> bool \<Rightarrow> console list \<Rightarrow> (console list \<times> fd_event list) option" where
  "take_console s pipe thread mute [] = None"
| "take_console s pipe thread mute (c # cs) =
     (if con_fd c < 0 then
        (case pipe of
           None \<Rightarrow> Some (c\<lparr>con_fd := - 1\<rparr> # cs, [FdPrint s (''Server failed to create pipe'' @ [CHR 0x0A]), FdClose s])
         | Some (p0, p1) \<Rightarrow>
             (let c = c\<lparr>con_p0 := p0, con_p1 := p1, con_fd := s, con_mute := mute\<rparr>
              in if \<not> thread then Some (c\<lparr>con_fd := - 1\<rparr> # cs, [FdClose p0, FdClose p1, FdClose s])
                 else Some (c # cs, [])))
      else map_option (\<lambda>(cs, ev). (c # cs, ev)) (take_console s pipe thread mute cs))"

definition listener_accept ::
  "int \<Rightarrow> (int \<times> int) option \<Rightarrow> bool \<Rightarrow> bool \<Rightarrow> console list \<Rightarrow> console list \<times> fd_event list" where
  "listener_accept s pipe thread mute cs =
     (case take_console s pipe thread mute cs of
        None \<Rightarrow> (cs, [FdPrint s (''No more connect '' @ [CHR 0x0A]), FdClose s])
      | Some r \<Rightarrow> r)"

text \<open>The end of \<open>netconsole_thread\<close> for the console in slot \<open>x\<close>.\<close>

definition netconsole_end :: "nat \<Rightarrow> console list \<Rightarrow> console list \<times> fd_event list" where
  "netconsole_end x cs =
     (cs[x := (cs ! x)\<lparr>con_fd := - 1\<rparr>], [FdClose (con_fd (cs ! x)), FdClose (con_p0 (cs ! x)), FdClose (con_p1 (cs ! x))])"

fun spd_network_puts_mutable :: "string \<Rightarrow> console list \<Rightarrow> fd_event list" where
  "spd_network_puts_mutable string [] = []"
| "spd_network_puts_mutable string (c # cs) =
     (if con_mute c then spd_network_puts_mutable string cs
      else if con_fd c > - 1 then FdPrint (con_p1 c) string # spd_network_puts_mutable string cs
      else spd_network_puts_mutable string cs)"

text \<open>What is printed here and what goes to the consoles; the verboser that the server registers.\<close>

definition spd_console_puts_mutable :: "string \<Rightarrow> console list \<Rightarrow> string \<times> fd_event list" where
  "spd_console_puts_mutable string cs = (string, spd_network_puts_mutable string cs)"

definition network_verboser :: "string \<Rightarrow> console list \<Rightarrow> fd_event list" where
  "network_verboser s cs = spd_network_puts_mutable s cs"

section \<open>Verbose messages on the console\<close>

definition COLOR_GRAY :: int where "COLOR_GRAY = 158"

definition fix_header :: "nat \<Rightarrow> string \<Rightarrow> string \<Rightarrow> (string \<times> string) option" where
  "fix_header maxout s cmp =
     (if strncmp s cmp (length cmp) = 0 then Some (term_color cmp COLOR_GRAY 0 maxout, drop (length cmp) s) else None)"

definition VERBOSE_PREFIX_1 :: string where "VERBOSE_PREFIX_1 = '' ''"
definition VERBOSE_PREFIX_2 :: string where "VERBOSE_PREFIX_2 = ''  == ''"
definition VERBOSE_PREFIX_3 :: string where "VERBOSE_PREFIX_3 = ''    -- ''"
definition VERBOSE_PREFIX_4 :: string where "VERBOSE_PREFIX_4 = ''       > ''"

definition console_verboser :: "string \<Rightarrow> string" where
  "console_verboser s =
     (case List.map_filter (fix_header 80 s) [VERBOSE_PREFIX_4, VERBOSE_PREFIX_3, VERBOSE_PREFIX_2, VERBOSE_PREFIX_1] of
        (tmp, c) # _ \<Rightarrow> tmp @ c
      | [] \<Rightarrow> if s \<noteq> [] \<and> hd s = CHR 0x7F then tl s else s)"

section \<open>Sorting and searching\<close>

text \<open>The inner loop with \<open>k = i + 1\<close>, and the final assignment.\<close>

fun shift_loop :: "int list \<Rightarrow> nat \<Rightarrow> int \<Rightarrow> int list" where
  "shift_loop arr 0 key = arr[0 := key]"
| "shift_loop arr (Suc i) key =
     (if arr ! i > key then shift_loop (arr[Suc i := arr ! i]) i key else arr[Suc i := key])"

text \<open>The log lines read the first five elements.\<close>

function outer_loop :: "int list \<Rightarrow> nat \<Rightarrow> nat \<Rightarrow> int list option" where
  "outer_loop arr j len =
     (if length arr < 5 then None
      else if j < len then outer_loop (shift_loop arr j (arr ! j)) (j + 1) len
      else Some arr)"
  by pat_completeness auto
termination by (relation "measure (\<lambda>(arr, j, len). len - j)") auto

declare outer_loop.simps [simp del]

definition insersion_sort :: "int list \<Rightarrow> nat \<Rightarrow> int list option" where
  "insersion_sort arr len = outer_loop arr 1 len"

text \<open>The last condition is an assignment, which is false when the element is 0.\<close>

partial_function (option) search_loop :: "int list \<Rightarrow> int \<Rightarrow> int \<Rightarrow> int \<Rightarrow> int option" where
  "search_loop arr left en key =
     (if left < en then
        (let mid = (left + en) div 2
         in if key > arr ! nat mid then search_loop arr (mid + 1) en key
            else if key < arr ! nat mid then search_loop arr left (mid - 1) key
            else (let key = arr ! nat mid
                  in if key \<noteq> 0 then Some mid else search_loop arr left en key))
      else Some (- 1))"

definition binary_search :: "int list \<Rightarrow> nat \<Rightarrow> int \<Rightarrow> int option" where
  "binary_search arr len key = search_loop arr 0 (int len - 1) key"

section \<open>The sort is a sort\<close>

lemma shift_loop_insert:
  assumes "sorted (take k arr)" "k < length arr"
  shows "shift_loop arr k key =
     takeWhile (\<lambda>x. x \<le> key) (take k arr) @ key # dropWhile (\<lambda>x. x \<le> key) (take k arr) @ drop (k + 1) arr"
  using assms
proof (induction k arbitrary: arr)
  case 0
  then show ?case by (cases arr) auto
next
  case (Suc i)
  have t: "take (Suc i) arr = take i arr @ [arr ! i]" using Suc.prems(2) by (intro take_Suc_conv_app_nth) simp
  show ?case
  proof (cases "arr ! i > key")
    case True
    let ?arr = "arr[Suc i := arr ! i]"
    have "drop (Suc i) ?arr = arr ! i # drop (Suc (Suc i)) arr"
      using Suc.prems(2) by (simp add: drop_update_swap [symmetric] Cons_nth_drop_Suc [symmetric])
    moreover have "shift_loop ?arr i key = takeWhile (\<lambda>x. x \<le> key) (take i ?arr) @
        key # dropWhile (\<lambda>x. x \<le> key) (take i ?arr) @ drop (i + 1) ?arr"
      using Suc.prems t by (intro Suc.IH) (simp_all add: sorted_append)
    ultimately show ?thesis
      using True unfolding t by (simp add: takeWhile_tail dropWhile_append3)
  next
    case False
    have "\<forall>x \<in> set (take (Suc i) arr). x \<le> key"
      using Suc.prems(1) False unfolding t by (auto simp: sorted_append)
    then have "takeWhile (\<lambda>x. x \<le> key) (take (Suc i) arr) = take (Suc i) arr"
      "dropWhile (\<lambda>x. x \<le> key) (take (Suc i) arr) = []"
      by (simp_all only: takeWhile_eq_all_conv dropWhile_eq_Nil_conv)
    moreover have "shift_loop arr (Suc i) key = take (Suc i) arr @ key # drop (Suc i + 1) arr"
      using False upd_conv_take_nth_drop [OF Suc.prems(2), of key] by simp
    ultimately show ?thesis by (simp only: append_Nil)
  qed
qed

lemma insert_sorted:
  "sorted xs \<Longrightarrow> sorted (takeWhile (\<lambda>x. x \<le> key) xs @ key # dropWhile (\<lambda>x. x \<le> key) xs)" for key :: int
  by (induction xs) (auto dest: set_takeWhileD set_dropWhileD)

lemma insert_mset: "mset (takeWhile P xs @ key # dropWhile P xs) = add_mset key (mset xs)"
  by (induction xs) auto

lemma shift_loop_step:
  assumes "sorted (take j arr)" "j < length arr"
  defines "r \<equiv> shift_loop arr j (arr ! j)"
  shows "length r = length arr \<and> sorted (take (j + 1) r) \<and> mset r = mset arr"
proof -
  let ?i = "takeWhile (\<lambda>x. x \<le> arr ! j) (take j arr) @ arr ! j # dropWhile (\<lambda>x. x \<le> arr ! j) (take j arr)"
  have r: "r = ?i @ drop (j + 1) arr" using shift_loop_insert [OF assms(1,2)] by (simp add: r_def)
  have m: "mset ?i = add_mset (arr ! j) (mset (take j arr))" by (rule insert_mset)
  then have l: "length ?i = j + 1" using assms(2) by (metis Suc_eq_plus1 length_take min.absorb4 size_add_mset size_mset)
  have "mset arr = mset (take j arr @ arr ! j # drop (j + 1) arr)"
    using assms(2) by (metis Suc_eq_plus1 id_take_nth_drop)
  then have "mset r = mset arr" unfolding r using m by simp
  moreover have "take (j + 1) r = ?i" unfolding r l [symmetric] by (rule append_eq_conv_conj [THEN iffD1, OF refl, THEN conjunct1, symmetric])
  ultimately show ?thesis using insert_sorted [OF assms(1), of "arr ! j"] by (metis size_mset)
qed

lemma outer_loop_sorts:
  assumes "sorted (take j arr)" "length arr = len" "5 \<le> len" "j \<le> len"
  shows "outer_loop arr j len = Some (sort arr)"
  using assms
proof (induction "len - j" arbitrary: arr j)
  case 0
  then have "sorted arr" by simp
  then have "sort arr = arr" by (rule sort_key_id_if_sorted [where f = "\<lambda>x. x", simplified])
  with 0 show ?case by (subst outer_loop.simps) simp
next
  case (Suc n)
  then have j: "j < length arr" by simp
  note st = shift_loop_step [OF Suc.prems(1) j]
  have "outer_loop (shift_loop arr j (arr ! j)) (j + 1) len = Some (sort (shift_loop arr j (arr ! j)))"
    using Suc.hyps(2) Suc.prems st by (intro Suc.hyps(1)) auto
  also have "sort (shift_loop arr j (arr ! j)) = sort arr"
    using st by (metis properties_for_sort mset_sort sorted_sort)
  finally show ?case using Suc.prems j by (subst outer_loop.simps) simp
qed

section \<open>The search\<close>

lemma search_loop_result:
  assumes "key \<noteq> 0"
  shows "\<exists>r. search_loop arr left en key = Some r \<and> (r = - 1 \<or> (left \<le> r \<and> r < en \<and> arr ! nat r = key))"
proof (induction "nat (en - left)" arbitrary: left en rule: less_induct)
  case less
  show ?case
  proof (cases "left < en")
    case False
    then show ?thesis by (subst search_loop.simps) simp
  next
    case True
    let ?m = "(left + en) div 2"
    have m: "left \<le> ?m" "?m < en" using True by linarith+
    consider "key > arr ! nat ?m" | "key < arr ! nat ?m" | "key = arr ! nat ?m" by linarith
    then show ?thesis
    proof cases
      case 1
      then show ?thesis using less [of en "?m + 1"] True m by (subst search_loop.simps) (fastforce simp: Let_def)
    next
      case 2
      then show ?thesis using less [of "?m - 1" left] True m by (subst search_loop.simps) (fastforce simp: Let_def)
    next
      case 3
      then show ?thesis using True m assms by (subst search_loop.simps) (simp add: Let_def)
    qed
  qed
qed

lemma search_loop_absent:
  assumes "key \<notin> set arr" "0 \<le> left" "en < int (length arr)"
  shows "search_loop arr left en key = Some (- 1)"
  using assms(2,3)
proof (induction "nat (en - left)" arbitrary: left en rule: less_induct)
  case less
  show ?case
  proof (cases "left < en")
    case False
    then show ?thesis by (subst search_loop.simps) simp
  next
    case True
    let ?m = "(left + en) div 2"
    have m: "left \<le> ?m" "?m < en" using True by linarith+
    then have "arr ! nat ?m \<in> set arr" using less.prems by (intro nth_mem) simp
    then have "key > arr ! nat ?m \<or> key < arr ! nat ?m" using assms(1) by (metis linorder_less_linear)
    then show ?thesis
      using less.hyps [of en "?m + 1"] less.hyps [of "?m - 1" left] less.prems True m
      by (subst search_loop.simps) (auto simp: Let_def)
  qed
qed

text \<open>Looking for a zero never succeeds.\<close>

lemma search_loop_zero: "search_loop arr left en 0 = Some r \<Longrightarrow> r = - 1"
proof -
  let ?P = "\<lambda>(arr :: int list) (left :: int) (en :: int) (key :: int) (r :: int). key = 0 \<longrightarrow> r = - 1"
  assume s: "search_loop arr left en 0 = Some r"
  have "?P arr left en 0 r"
  proof (rule search_loop.raw_induct [of ?P, OF _ s], intro impI)
    fix f :: "int list \<Rightarrow> int \<Rightarrow> int \<Rightarrow> int \<Rightarrow> int option" and arr :: "int list" and left en key r :: int
    assume ih: "\<And>arr left en (key :: int) r. f arr left en key = Some r \<Longrightarrow> ?P arr left en key r" and k: "key = 0"
    assume "(if left < en
        then let mid = (left + en) div 2
             in if key > arr ! nat mid then f arr (mid + 1) en key
                else if key < arr ! nat mid then f arr left (mid - 1) key
                else let key = arr ! nat mid in if key \<noteq> 0 then Some mid else f arr left en key
        else Some (- 1)) = Some r"
    then show "r = - 1" using k ih by (auto simp: Let_def split: if_splits)
  qed
  then show "r = - 1" by simp
qed

section \<open>Options\<close>

lemma flag_test: "spd_test_flag p (push_bit n 1) \<noteq> 0 \<longleftrightarrow> bit p n" if "n < 32" for p :: flags
  using that by (simp add: spd_test_flag_def push_bit_of_1 and_exp_eq_0_iff_not_bit)

lemma flag_bits:
  "bit (SPD_OPT_FLAG_NO_FORK OR SPD_OPT_FLAG_REMOTE) 0" "bit (SPD_OPT_FLAG_REMOTE OR SPD_OPT_FLAG_NO_FORK) 0"
  "bit (SPD_OPT_FLAG_NO_FORK OR SPD_OPT_FLAG_RECONNECT) 0" "bit (SPD_OPT_FLAG_CONSOLE OR SPD_OPT_FLAG_NO_FORK) 0"
  "\<not> bit SPD_OPT_FLAG_CORE_DUMP 0" "\<not> bit SPD_OPT_FLAG_TIMESTAMP 0"
  by (simp_all add: opt_flags bit_or_iff bit_push_bit_iff bit_exp_iff)

lemma no_fork_bit: "spd_opt_no_fork op \<longleftrightarrow> bit (spd_options op) 0"
  unfolding spd_opt_no_fork_def SPD_OPT_FLAG_NO_FORK_def by (rule flag_test) simp

lemma set_flag_bit: "bit (spd_set_flag p f) n \<longleftrightarrow> bit p n \<or> bit f n"
  by (simp add: spd_set_flag_def bit_or_iff)

lemma getopt_option_no_fork:
  assumes "c \<noteq> CHR ''h''" "c \<noteq> CHR ''V''" "c \<noteq> CHR ''k''"
  shows "\<exists>op'. getopt_option c op = Inr op' \<and>
     (spd_opt_no_fork op' \<longleftrightarrow> spd_opt_no_fork op \<or> c = CHR ''r'' \<or> c = CHR ''R'' \<or> c = CHR ''c'')"
  using assms unfolding getopt_option_def no_fork_bit by (auto simp: set_flag_bit flag_bits)

lemma getopt_no_fork:
  assumes "set opts \<inter> {CHR ''h'', CHR ''V'', CHR ''k''} = {}"
  shows "\<exists>op'. getopt_loop opts op = Inr op' \<and>
     (spd_opt_no_fork op' \<longleftrightarrow> spd_opt_no_fork op \<or> set opts \<inter> {CHR ''r'', CHR ''R'', CHR ''c''} \<noteq> {})"
  using assms
proof (induction opts arbitrary: op)
  case (Cons c opts)
  obtain o1 where o1: "getopt_option c op = Inr o1"
    "spd_opt_no_fork o1 \<longleftrightarrow> spd_opt_no_fork op \<or> c = CHR ''r'' \<or> c = CHR ''R'' \<or> c = CHR ''c''"
    using getopt_option_no_fork [of c op] Cons.prems by auto
  obtain o2 where "getopt_loop opts o1 = Inr o2"
    "spd_opt_no_fork o2 \<longleftrightarrow> spd_opt_no_fork o1 \<or> set opts \<inter> {CHR ''r'', CHR ''R'', CHR ''c''} \<noteq> {}"
    using Cons.IH [of o1] Cons.prems by auto
  with o1 show ?case by auto
qed simp

lemma boot_steps_facts:
  assumes "boot_steps child op op' = (steps, run)"
  shows "Deamonize \<in> set steps \<longleftrightarrow> \<not> spd_opt_no_fork op'" "DomainServer \<in> set steps \<longleftrightarrow> run \<noteq> None"
    "run = None \<longleftrightarrow> \<not> spd_opt_no_fork op' \<and> \<not> child"
  using assms unfolding boot_steps_def Let_def
  by (cases "spd_opt_no_fork op'"; cases child; auto split: if_splits)+

lemma mainconfig_no_fork: "spd_opt_no_fork (mainconfig_loop vs op) \<longleftrightarrow> spd_opt_no_fork op"
proof (induction vs arbitrary: op)
  case (Cons v vs)
  have "bit (spd_set2_flag p x SPD_OPT_FLAG_TIMESTAMP) 0 \<longleftrightarrow> bit p 0" for p x
    using flag_bits(6) by (simp add: spd_set2_flag_def bit_or_iff bit_and_iff bit_not_iff)
  with Cons show ?case by (simp add: no_fork_bit)
qed simp

section \<open>Free consoles\<close>

lemma take_console_none: "\<forall>c \<in> set cs. 0 \<le> con_fd c \<Longrightarrow> take_console s pipe thread mute cs = None"
  by (induction cs) auto

lemma take_console_skip:
  "\<forall>x \<in> set xs. 0 \<le> con_fd x \<Longrightarrow> take_console s pipe thread mute (xs @ cs) =
     map_option (\<lambda>(cs, ev). (xs @ cs, ev)) (take_console s pipe thread mute cs)"
  by (cases "take_console s pipe thread mute cs"; induction xs) auto

lemma take_console_free:
  assumes "con_fd c < 0"
  shows "\<exists>c' e. take_console s pipe thread mute (c # ys) = Some (c' # ys, e) \<and>
     (if pipe \<noteq> None \<and> thread
      then c' = \<lparr>con_fd = s, con_p0 = fst (the pipe), con_p1 = snd (the pipe), con_mute = mute\<rparr> \<and> e = []
      else con_fd c' < 0 \<and> FdClose s \<in> set e)"
  using assms by (cases pipe; cases thread; cases c) (auto simp: Let_def)

lemma first_free:
  "find (\<lambda>c. con_fd c < 0) cs = Some c \<Longrightarrow> \<exists>xs ys. cs = xs @ c # ys \<and> (\<forall>x \<in> set xs. 0 \<le> con_fd x) \<and> con_fd c < 0"
  by (induction cs) (force split: if_splits intro: exI [of _ "[]"] exI [of _ "_ # _"])+

text \<open>
  \<open>spd_verbose\<close> puts the byte 127 in front of what it hands to the verbosers: no prefix is ever
  recognised, and the text is printed as it is.
\<close>

lemma console_verboser_marked: "console_verboser (CHR 0x7F # out) = out"
proof -
  have "fix_header 80 (CHR 0x7F # out) p = None"
    if "p \<in> {VERBOSE_PREFIX_4, VERBOSE_PREFIX_3, VERBOSE_PREFIX_2, VERBOSE_PREFIX_1}" for p
    using that by (auto simp: fix_header_def VERBOSE_PREFIX_1_def VERBOSE_PREFIX_2_def VERBOSE_PREFIX_3_def VERBOSE_PREFIX_4_def)
  then show ?thesis by (simp add: console_verboser_def List.map_filter_simps)
qed

text \<open>A word for yes as the debug level is -1, so that no debug message has a level that is low enough.\<close>

lemma mainconfig_debug_yes:
  "v_name v = ''debug'' \<Longrightarrow> v_value v = ''yes'' \<Longrightarrow> option_debug (mainconfig_loop [v] op) = - 1"
proof -
  assume v: "v_name v = ''debug''" "v_value v = ''yes''"
  have "strcasecmp ''debug'' ''verbose'' \<noteq> 0" "strcasecmp ''debug'' ''timestamp'' \<noteq> 0" "strcasecmp ''debug'' ''debug'' = 0"
    "scan_int 30 ''yes'' = None" "spd_true (Some ''yes'') = - 1"
    by code_simp+
  then show ?thesis unfolding mainconfig_loop.simps v by (simp del: strcasecmp_eq_0)
qed

section \<open>Properties\<close>

text \<open>
  C31: on an array of at least five numbers \<open>insersion_sort\<close> leaves the sorted
  array; on a shorter one its log lines read past the end.
\<close>

theorem insersion_sort_sorts:
  "insersion_sort arr (length arr) = (if length arr < 5 then None else Some (sort arr))"
proof (cases "length arr < 5")
  case True
  then show ?thesis by (subst insersion_sort_def, subst outer_loop.simps) simp
next
  case False
  have "sorted (take 1 arr)" by (cases arr) simp_all
  with False show ?thesis using outer_loop_sorts [of 1 arr "length arr"] by (simp add: insersion_sort_def)
qed



text \<open>
  unless an option makes it leave at once, the program goes through its start and
  becomes a daemon exactly when none of the options \<open>r\<close>, \<open>R\<close> and \<open>c\<close> is given and its name does not
  contain \<open>rspider\<close>; a parent left behind does not open the socket of the daemon.
\<close>

lemma main_daemonizes:
  assumes "set opts \<inter> {CHR ''h'', CHR ''V'', CHR ''k''} = {}" "\<not> spd_opt_no_fork op"
    and "spider_main argv0 opts cfg child op = Some (steps, run)"
  shows "(Deamonize \<in> set steps \<longleftrightarrow>
       set opts \<inter> {CHR ''r'', CHR ''R'', CHR ''c''} = {} \<and> (\<forall>a. argv0 = Some a \<longrightarrow> strstr a ''rspider'' = None)) \<and>
     (DomainServer \<in> set steps \<longleftrightarrow> run \<noteq> None) \<and> (run = None \<longleftrightarrow> Deamonize \<in> set steps \<and> \<not> child)"
proof -
  let ?op = "if argv0 \<noteq> None \<and> strstr (the argv0) ''rspider'' \<noteq> None
     then op\<lparr>spd_options := spd_set_flag (spd_options op) (SPD_OPT_FLAG_REMOTE OR SPD_OPT_FLAG_NO_FORK)\<rparr> else op"
  have o1: "spd_opt_no_fork ?op \<longleftrightarrow> (\<exists>a. argv0 = Some a \<and> strstr a ''rspider'' \<noteq> None)"
    using assms(2) by (cases argv0) (simp_all add: no_fork_bit set_flag_bit flag_bits)
  obtain o2 where o2: "getopt_loop opts ?op = Inr o2"
    "spd_opt_no_fork o2 \<longleftrightarrow> spd_opt_no_fork ?op \<or> set opts \<inter> {CHR ''r'', CHR ''R'', CHR ''c''} \<noteq> {}"
    using getopt_no_fork [OF assms(1)] by blast
  have m: "map_option (boot_steps child o2) (read_mainconfig cfg o2) = Some (steps, run)"
    using assms(3) unfolding spider_main_def Let_def o2(1) sum.case .
  then obtain o3 where o3: "read_mainconfig cfg o2 = Some o3" "boot_steps child o2 o3 = (steps, run)"
    by (cases "read_mainconfig cfg o2") simp_all
  have nf: "spd_opt_no_fork o3 \<longleftrightarrow> spd_opt_no_fork o2"
    using o3(1) by (auto simp: read_mainconfig_def mainconfig_no_fork split: option.splits)
  have r: "(\<forall>a. argv0 = Some a \<longrightarrow> strstr a ''rspider'' = None) \<longleftrightarrow> \<not> spd_opt_no_fork ?op" unfolding o1 by (cases argv0) simp_all
  show ?thesis unfolding boot_steps_facts [OF o3(2)] nf o2(2) r by blast
qed

theorem main_daemonizes_witness:
  "\<exists>steps run. spider_main (Some ''spider'') ''vd'' None True
     \<lparr>spd_options = 0, option_verbose = 0, option_debug = 0, system_name = []\<rparr> = Some (steps, run) \<and>
     Deamonize \<in> set steps \<and> run \<noteq> None"
proof -
  let ?op = "\<lparr>spd_options = 0, option_verbose = 0, option_debug = 0, system_name = []\<rparr>"
  have n: "\<not> spd_opt_no_fork ?op" by (simp add: no_fork_bit)
  have s: "strstr ''spider'' ''rspider'' = None" by code_simp
  obtain o2 where o2: "getopt_loop ''vd'' ?op = Inr o2" using getopt_no_fork [of "''vd''" ?op] by auto
  have "spider_main (Some ''spider'') ''vd'' None True ?op = Some (boot_steps True o2 o2)"
    unfolding spider_main_def Let_def option.sel s by (simp add: o2 read_mainconfig_def del: getopt_loop.simps)
  then obtain steps run where m: "spider_main (Some ''spider'') ''vd'' None True ?op = Some (steps, run)"
    by (metis prod.exhaust)
  have "set ''vd'' \<inter> {CHR ''h'', CHR ''V'', CHR ''k''} = {}" by simp
  from main_daemonizes [OF this n m] s have "Deamonize \<in> set steps \<and> run \<noteq> None" by simp
  with m show ?thesis by blast
qed

text \<open>
  an accepted connection takes the first free console and no other changes; when
  the pipe or the thread fails, or none is free, it is closed and all consoles in use stay. A
  message then goes once to every console that is in use and not muted.
\<close>

lemma console_slots:
  assumes "listener_accept s pipe thread mute cs = (cs', ev)" "0 \<le> s"
  shows "(case find (\<lambda>c. con_fd c < 0) cs of
       None \<Rightarrow> cs' = cs \<and> FdClose s \<in> set ev
     | Some c \<Rightarrow>
         (\<exists>xs ys c'. cs = xs @ c # ys \<and> (\<forall>x \<in> set xs. 0 \<le> con_fd x) \<and> cs' = xs @ c' # ys \<and>
            (if pipe \<noteq> None \<and> thread
             then c' = \<lparr>con_fd = s, con_p0 = fst (the pipe), con_p1 = snd (the pipe), con_mute = mute\<rparr> \<and> ev = []
             else con_fd c' < 0 \<and> FdClose s \<in> set ev))) \<and>
     spd_network_puts_mutable msg cs' =
       map (\<lambda>c. FdPrint (con_p1 c) msg) (filter (\<lambda>c. \<not> con_mute c \<and> 0 \<le> con_fd c) cs')"
proof -
  have puts: "spd_network_puts_mutable msg cs' =
       map (\<lambda>c. FdPrint (con_p1 c) msg) (filter (\<lambda>c. \<not> con_mute c \<and> 0 \<le> con_fd c) cs')"
    by (induction cs') auto
  show ?thesis
  proof (cases "find (\<lambda>c. con_fd c < 0) cs")
    case None
    then have "take_console s pipe thread mute cs = None"
      by (intro take_console_none) (auto simp: find_None_iff not_less)
    then show ?thesis using assms None puts by (auto simp: listener_accept_def)
  next
    case (Some c)
    then obtain xs ys where xs: "cs = xs @ c # ys" "\<forall>x \<in> set xs. 0 \<le> con_fd x" "con_fd c < 0"
      using first_free by blast
    obtain c' e where c': "take_console s pipe thread mute (c # ys) = Some (c' # ys, e)"
      "if pipe \<noteq> None \<and> thread
       then c' = \<lparr>con_fd = s, con_p0 = fst (the pipe), con_p1 = snd (the pipe), con_mute = mute\<rparr> \<and> e = []
       else con_fd c' < 0 \<and> FdClose s \<in> set e"
      using take_console_free [OF xs(3)] by blast
    have "cs' = xs @ c' # ys" "ev = e"
      using assms(1) c'(1) unfolding xs(1) listener_accept_def take_console_skip [OF xs(2)] by auto
    moreover have "if pipe \<noteq> None \<and> thread
       then c' = \<lparr>con_fd = s, con_p0 = fst (the pipe), con_p1 = snd (the pipe), con_mute = mute\<rparr> \<and> ev = []
       else con_fd c' < 0 \<and> FdClose s \<in> set ev" using c'(2) \<open>ev = e\<close> by simp
    ultimately show ?thesis unfolding Some option.case using xs(1,2) puts by blast
  qed
qed

theorem console_slots_witness:
  "\<exists>cs' ev. listener_accept 9 (Some (4, 5)) True False
       [\<lparr>con_fd = 3, con_p0 = 6, con_p1 = 7, con_mute = False\<rparr>, \<lparr>con_fd = - 1, con_p0 = 0, con_p1 = 0, con_mute = False\<rparr>] = (cs', ev) \<and>
     spd_network_puts_mutable ''x'' cs' = [FdPrint 7 ''x'', FdPrint 5 ''x'']"
proof -
  let ?cs = "[\<lparr>con_fd = 3, con_p0 = 6, con_p1 = 7, con_mute = False\<rparr>, \<lparr>con_fd = - 1, con_p0 = 0, con_p1 = 0, con_mute = False\<rparr>]"
  obtain cs' ev where l: "listener_accept 9 (Some (4, 5)) True False ?cs = (cs', ev)" by fastforce
  then have "cs' = [\<lparr>con_fd = 3, con_p0 = 6, con_p1 = 7, con_mute = False\<rparr>, \<lparr>con_fd = 9, con_p0 = 4, con_p1 = 5, con_mute = False\<rparr>]"
    by (simp add: listener_accept_def)
  with l console_slots [OF l, of "''x''"] show ?thesis by simp
qed

end
