(* ===== verification/Spd_Stun.thy ===== *)
theory Spd_Stun
  imports Spd_CString
begin

text \<open>
  The STUN client: \<open>src/tinyNet/stun.c\<close>. Messages are lists of octets in the byte order of the
  network; the port and the address of a peer are kept as the octets that the structures hold. The
  file does not compile as it stands (a stray semicolon, a missing result type, \<open>stun_debug\<close> defined
  with a semicolon, \<open>attr\<close> of the response handler not initialised); it is read with debugging off
  and a use of \<open>attr\<close> before it is set as having no result. The socket is an argument: an
  environment whose functions change the world.
\<close>

type_synonym octet = "8 word"

section \<open>Numbers of messages and attributes\<close>

definition STUN_BINDREQ :: nat where "STUN_BINDREQ = 0x0001"
definition STUN_BINDRESP :: nat where "STUN_BINDRESP = 0x0101"
definition STUN_BINDERROR :: nat where "STUN_BINDERROR = 0x0111"
definition STUN_SECREQ :: nat where "STUN_SECREQ = 0x0002"
definition STUN_SECRESP :: nat where "STUN_SECRESP = 0x0102"
definition STUN_SECERROR :: nat where "STUN_SECERROR = 0x0112"

definition STUN_MSG_MAPPED_ADDR :: nat where "STUN_MSG_MAPPED_ADDR = 0x0001"
definition STUN_MSG_RESPONCE_ADDR :: nat where "STUN_MSG_RESPONCE_ADDR = 0x0002"
definition STUN_MSG_CHANGE_REQUEST :: nat where "STUN_MSG_CHANGE_REQUEST = 0x0003"
definition STUN_MSG_SOURCE_ADDRESS :: nat where "STUN_MSG_SOURCE_ADDRESS = 0x0004"
definition STUN_MSG_CHANGED_ADDRESS :: nat where "STUN_MSG_CHANGED_ADDRESS = 0x0005"
definition STUN_MSG_USERNAME :: nat where "STUN_MSG_USERNAME = 0x0006"
definition STUN_MSG_PASSWORD :: nat where "STUN_MSG_PASSWORD = 0x0007"
definition STUN_MSG_INTEGRITY :: nat where "STUN_MSG_INTEGRITY = 0x0008"
definition STUN_MSG_ERROR_CODE :: nat where "STUN_MSG_ERROR_CODE = 0x0009"
definition STUN_MSG_UNKNOWN_ATTRIBUTES :: nat where "STUN_MSG_UNKNOWN_ATTRIBUTES = 0x000a"
definition STUN_MSG_REFLECTED_FROM :: nat where "STUN_MSG_REFLECTED_FROM = 0x000b"

lemmas stun_numbers = STUN_BINDREQ_def STUN_BINDRESP_def STUN_BINDERROR_def STUN_SECREQ_def STUN_SECRESP_def
  STUN_SECERROR_def STUN_MSG_MAPPED_ADDR_def STUN_MSG_RESPONCE_ADDR_def STUN_MSG_CHANGE_REQUEST_def
  STUN_MSG_SOURCE_ADDRESS_def STUN_MSG_CHANGED_ADDRESS_def STUN_MSG_USERNAME_def STUN_MSG_PASSWORD_def
  STUN_MSG_INTEGRITY_def STUN_MSG_ERROR_CODE_def STUN_MSG_UNKNOWN_ATTRIBUTES_def STUN_MSG_REFLECTED_FROM_def

definition stun_msg2str :: "nat \<Rightarrow> string" where
  "stun_msg2str msg =
     (if msg = STUN_BINDREQ then ''Binding Request''
      else if msg = STUN_BINDRESP then ''Binding Responce''
      else if msg = STUN_BINDERROR then ''Binding Error''
      else if msg = STUN_SECREQ then ''SecRequest''
      else if msg = STUN_SECRESP then ''SecResponce''
      else if msg = STUN_SECERROR then ''SecError''
      else ''Not RFC 3489 MSG'')"

definition stun_attr2str :: "nat \<Rightarrow> string" where
  "stun_attr2str msg =
     (if msg = STUN_MSG_MAPPED_ADDR then ''Mapped Address''
      else if msg = STUN_MSG_RESPONCE_ADDR then ''Responce Address''
      else if msg = STUN_MSG_CHANGE_REQUEST then ''Change Request''
      else if msg = STUN_MSG_SOURCE_ADDRESS then ''Source Address''
      else if msg = STUN_MSG_CHANGED_ADDRESS then ''Changed Address''
      else if msg = STUN_MSG_USERNAME then ''Username''
      else if msg = STUN_MSG_PASSWORD then ''Password''
      else if msg = STUN_MSG_INTEGRITY then ''Message Integrity''
      else if msg = STUN_MSG_UNKNOWN_ATTRIBUTES then ''Unknown Attributes''
      else if msg = STUN_MSG_REFLECTED_FROM then ''Reflected From''
      else if msg = STUN_MSG_ERROR_CODE then ''Error Code''
      else ''Non-RFC3489 Attribute'')"

section \<open>Octets\<close>

text \<open>\<open>htons\<close> into and \<open>ntohs\<close> out of memory.\<close>

definition put16 :: "nat \<Rightarrow> octet list" where
  "put16 n = [word_of_nat (n div 256), word_of_nat n]"

definition get16 :: "octet list \<Rightarrow> nat \<Rightarrow> nat" where
  "get16 b i = unat (b ! i) * 256 + unat (b ! (i + 1))"

record sockaddr_in =
  sin_port :: "octet list"
  sin_addr :: "octet list"

definition sin_ok :: "sockaddr_in \<Rightarrow> bool" where
  "sin_ok sin \<longleftrightarrow> length (sin_port sin) = 2 \<and> length (sin_addr sin) = 4"

definition sin_zero :: sockaddr_in where
  "sin_zero = \<lparr>sin_port = [0, 0], sin_addr = [0, 0, 0, 0]\<rparr>"

section \<open>Building messages\<close>

text \<open>The buffer, the position of \<open>attr\<close> in it, and \<open>*len\<close> and \<open>*left\<close>; a write past the end has no result.\<close>

record stun_out =
  so_buf :: "octet list"
  so_attr :: nat
  so_len :: int
  so_left :: int

definition stun_write :: "octet list \<Rightarrow> nat \<Rightarrow> octet list \<Rightarrow> octet list option" where
  "stun_write buf at bs = (if at + length bs \<le> length buf then Some (overwrite buf at bs) else None)"

definition apppend_stunattr :: "nat \<Rightarrow> octet list \<Rightarrow> stun_out \<Rightarrow> stun_out option" where
  "apppend_stunattr attrvalue s st =
     (let size = 4 + int (length s)
      in if so_left st > size then
           map_option (\<lambda>buf. st\<lparr>so_buf := buf, so_attr := so_attr st + 4 + length s,
               so_len := so_len st + size, so_left := so_left st - size\<rparr>)
             (stun_write (so_buf st) (so_attr st) (put16 attrvalue @ put16 (length s) @ s))
         else Some st)"

text \<open>Here \<open>*left\<close> is not reduced.\<close>

definition append_attr_address :: "nat \<Rightarrow> sockaddr_in \<Rightarrow> stun_out \<Rightarrow> stun_out option" where
  "append_attr_address attrval sin st =
     (let size = 4 + 8
      in if so_left st > size then
           map_option (\<lambda>buf. st\<lparr>so_buf := buf, so_attr := so_attr st + 12, so_len := so_len st + size\<rparr>)
             (stun_write (so_buf st) (so_attr st)
                (put16 attrval @ put16 8 @ [0, 1] @ sin_port sin @ sin_addr sin))
         else Some st)"

definition stun_transaction_match :: "octet list \<Rightarrow> octet list \<Rightarrow> bool" where
  "stun_transaction_match left right \<longleftrightarrow> left \<noteq> right"

text \<open>The header and the octets behind it that \<open>stun_send\<close> hands to \<open>sendto\<close>.\<close>

definition stun_send_octets :: "nat \<Rightarrow> nat \<Rightarrow> octet list \<Rightarrow> octet list \<Rightarrow> octet list" where
  "stun_send_octets msgtype msglen tid attrs = put16 msgtype @ put16 msglen @ tid @ take msglen attrs"

section \<open>Reading attributes\<close>

text \<open>The attribute at a position of a buffer: the user name and the password are kept as positions.\<close>

record stun_state =
  ss_username :: "nat option"
  ss_password :: "nat option"

definition stun_process_attr :: "octet list \<Rightarrow> nat \<Rightarrow> stun_state \<Rightarrow> int \<times> stun_state" where
  "stun_process_attr buf at st =
     (if get16 buf at = STUN_MSG_USERNAME then (0, st\<lparr>ss_username := Some (at + 4)\<rparr>)
      else if get16 buf at = STUN_MSG_PASSWORD then (0, st\<lparr>ss_password := Some (at + 4)\<rparr>)
      else (0, st))"

definition stun_get_mapped :: "octet list \<Rightarrow> nat \<Rightarrow> sockaddr_in \<Rightarrow> int \<times> sockaddr_in" where
  "stun_get_mapped buf at sa =
     (if get16 buf at \<noteq> STUN_MSG_MAPPED_ADDR \<or> get16 buf (at + 2) \<noteq> 8 then (1, sa)
      else (0, sa\<lparr>sin_port := take 2 (drop (at + 6) buf), sin_addr := take 4 (drop (at + 8) buf)\<rparr>))"

section \<open>Answering\<close>

definition SPD_STUN_ACCEPT :: int where "SPD_STUN_ACCEPT = 0"
definition SPD_STUN_IGNORE :: int where "SPD_STUN_IGNORE = 1"

text \<open>
  \<open>data\<close> is the whole buffer, of which \<open>len\<close> octets were received. The result is the code, the buffer,
  into which a zero is written behind the header, and the message that is sent. The loop over the
  attributes uses \<open>attr\<close> as soon as there are four octets of them. The user name is always null.
\<close>

definition spd_stun_response_handle ::
  "sockaddr_in \<Rightarrow> octet list \<Rightarrow> nat \<Rightarrow> (int \<times> octet list \<times> octet list option) option" where
  "spd_stun_response_handle src dat len =
     (if len < 20 then Some (- 1, dat, None)
      else
        (let len = len - 20;
             x = get16 dat 2;
             len = (if x > len then len else x)
         in if len \<ge> 4 then None
            else if length dat \<le> 20 then None
            else
              (let out = dat[20 := 0]
               in if len = 0 then
                    (if get16 dat 0 = STUN_BINDREQ then
                       (case append_attr_address STUN_MSG_MAPPED_ADDR src
                               \<lparr>so_buf = replicate 1004 0, so_attr = 0, so_len = 0, so_left = 1004\<rparr> of
                          None \<Rightarrow> None
                        | Some st \<Rightarrow>
                            Some (SPD_STUN_ACCEPT, out,
                              Some (stun_send_octets STUN_BINDRESP (nat (so_len st)) (take 16 (drop 4 dat)) (so_buf st))))
                     else Some (SPD_STUN_IGNORE, out, None))
                  else Some (SPD_STUN_IGNORE, out, None))))"

section \<open>Binding\<close>

record 'w stun_env =
  se_send :: "octet list \<Rightarrow> 'w \<Rightarrow> int \<times> 'w"
  se_poll :: "'w \<Rightarrow> int \<times> 'w"
  se_recv :: "'w \<Rightarrow> int \<times> octet list \<times> sockaddr_in \<times> 'w"

text \<open>What one round of the outer loop ends with: \<open>continue\<close> or \<open>break\<close>, with the value of \<open>res\<close>.\<close>

datatype 'w stun_round = Again int 'w | Break int sockaddr_in 'w

text \<open>
  The part from \<open>try_again\<close>: at most 1023 octets are received into a buffer of 1024. As the answer is
  only accepted when it has no attribute, the mapped address stays cleared.
\<close>

partial_function (option) try_again :: "'w stun_env \<Rightarrow> octet list \<Rightarrow> 'w \<Rightarrow> 'w stun_round option" where
  "try_again env tid w =
     (let p = se_poll env w
      in if fst p < 0 then Some (Again (fst p) (snd p))
         else if fst p = 0 then Some (Again 1 (snd p))
         else
           (let r = se_recv env (snd p);
                res = fst r; src = fst (snd (snd r)); w = snd (snd (snd r));
                got = take 1023 (fst (snd r)); buf = got @ replicate (1024 - length got) 0
            in if res < 0 then Some (Break res sin_zero w)
               else case spd_stun_response_handle src buf (length got) of
                      None \<Rightarrow> None
                    | Some h \<Rightarrow>
                        (let w = (case snd (snd h) of None \<Rightarrow> w | Some m \<Rightarrow> snd (se_send env m w))
                         in if fst h \<noteq> 0 \<or> take 2 (fst (snd h)) \<noteq> put16 STUN_BINDRESP \<or>
                               stun_transaction_match tid (take 16 (drop 4 (fst (snd h))))
                            then try_again env tid w
                            else Some (Break 0 sin_zero w))))"

fun bind_loop ::
  "nat \<Rightarrow> 'w stun_env \<Rightarrow> bool \<Rightarrow> octet list \<Rightarrow> octet list \<Rightarrow> int \<Rightarrow> 'w \<Rightarrow> (int \<times> 'w) option" where
  "bind_loop 0 env resp req tid res w = Some (res, w)"
| "bind_loop (Suc n) env resp req tid res w =
     (case se_send env req w of
        (res, w) \<Rightarrow>
          if res < 0 then Some (res, w)
          else if \<not> resp then Some (0, w)
          else (case try_again env tid w of
                  None \<Rightarrow> None
                | Some (Again res w) \<Rightarrow> bind_loop n env resp req tid res w
                | Some (Break res _ w) \<Rightarrow> Some (res, w)))"

text \<open>\<open>tid\<close> are the 16 random octets; \<open>resp\<close> tells whether the caller wants the mapped address.\<close>

definition spd_stun_bind ::
  "'w stun_env \<Rightarrow> octet list option \<Rightarrow> bool \<Rightarrow> octet list \<Rightarrow> 'w \<Rightarrow> (int \<times> 'w) option" where
  "spd_stun_bind env username resp tid w =
     (let st = \<lparr>so_buf = replicate 1004 0, so_attr = 0, so_len = 0, so_left = 1004\<rparr>
      in case (case username of None \<Rightarrow> Some st | Some u \<Rightarrow> apppend_stunattr STUN_MSG_USERNAME u st) of
           None \<Rightarrow> None
         | Some st \<Rightarrow>
             bind_loop 3 env resp (stun_send_octets STUN_BINDREQ (nat (so_len st)) tid (so_buf st)) tid (- 1) w)"

section \<open>Lemmas\<close>

lemma length_put16 [simp]: "length (put16 n) = 2"
  by (simp add: put16_def)

lemma get16_put16: "n < 65536 \<Longrightarrow> get16 (put16 n @ b) 0 = n"
  by (simp add: get16_def put16_def unsigned_of_nat take_bit_eq_mod)

lemma get16_skip: "get16 (a @ b) (length a + i) = get16 b i"
  by (simp add: get16_def nth_append)

lemma get16_at: "length a = i \<Longrightarrow> n < 65536 \<Longrightarrow> get16 (a @ put16 n @ b) i = n"
  using get16_skip [of a "put16 n @ b" 0] get16_put16 by simp

lemma stun_write_fits:
  "at + length bs \<le> length buf \<Longrightarrow> stun_write buf at bs = Some (take at buf @ bs @ drop (at + length bs) buf)"
  by (simp add: stun_write_def overwrite_def)

text \<open>An attribute is written only if it fits, and then it can be read.\<close>

definition out_ok :: "stun_out \<Rightarrow> bool" where
  "out_ok st \<longleftrightarrow> int (so_attr st) + so_left st \<le> int (length (so_buf st)) \<and> so_len st = int (so_attr st)"

lemma stunattr_written:
  assumes "out_ok st" "v < 65536" "length s < 65536"
  shows "\<exists>st'. apppend_stunattr v s st = Some st' \<and> out_ok st' \<and> length (so_buf st') = length (so_buf st) \<and>
     (if so_left st > 4 + int (length s)
      then so_len st' = so_len st + 4 + int (length s) \<and> get16 (so_buf st') (so_attr st) = v \<and>
        get16 (so_buf st') (so_attr st + 2) = length s \<and> take (length s) (drop (so_attr st + 4) (so_buf st')) = s \<and>
        take (so_attr st) (so_buf st') = take (so_attr st) (so_buf st)
      else st' = st)"
proof (cases "so_left st > 4 + int (length s)")
  case True
  let ?a = "so_attr st" and ?b = "so_buf st"
  let ?buf = "take ?a ?b @ (put16 v @ put16 (length s) @ s) @ drop (?a + length (put16 v @ put16 (length s) @ s)) ?b"
  have room: "?a + length (put16 v @ put16 (length s) @ s) \<le> length ?b"
    using assms(1) True by (simp add: out_ok_def)
  then have l: "length (take ?a ?b) = ?a" by simp
  have g: "get16 ?buf ?a = v"
    using get16_at [OF l assms(2)] by simp
  have g2: "get16 ?buf (?a + 2) = length s"
    using get16_at [of "take ?a ?b @ put16 v" "?a + 2" "length s"] l assms(3) by simp
  have t: "take (length s) (drop (?a + 4) ?buf) = s" using l by simp
  have len: "length ?buf = length ?b" using room l by simp
  have "apppend_stunattr v s st = Some (st\<lparr>so_buf := ?buf, so_attr := ?a + 4 + length s,
      so_len := so_len st + (4 + int (length s)), so_left := so_left st - (4 + int (length s))\<rparr>)"
    using True stun_write_fits [OF room] by (simp add: apppend_stunattr_def Let_def)
  moreover have "take ?a ?buf = take ?a ?b" using l by simp
  ultimately show ?thesis using True assms(1) room g g2 t len by (simp add: out_ok_def del: length_append append_assoc)
next
  case False
  then show ?thesis using assms(1) by (simp add: apppend_stunattr_def Let_def)
qed

text \<open>The address of the peer in a fresh buffer.\<close>

lemma address_written:
  assumes "sin_ok src"
  shows "\<exists>st. append_attr_address STUN_MSG_MAPPED_ADDR src
       \<lparr>so_buf = replicate 1004 0, so_attr = 0, so_len = 0, so_left = 1004\<rparr> = Some st \<and> so_len st = 12 \<and>
     take 12 (so_buf st) = put16 STUN_MSG_MAPPED_ADDR @ put16 8 @ [0, 1] @ sin_port src @ sin_addr src"
proof -
  let ?a = "put16 STUN_MSG_MAPPED_ADDR @ put16 8 @ [0, 1] @ sin_port src @ sin_addr src :: octet list"
  have l: "length ?a = 12" using assms by (simp add: sin_ok_def)
  have "stun_write (replicate 1004 0) 0 ?a = Some (take 0 (replicate 1004 0) @ ?a @ drop (0 + length ?a) (replicate 1004 0))"
    by (rule stun_write_fits) (simp only: l, simp)
  then have "stun_write (replicate 1004 0) 0 ?a = Some (?a @ drop 12 (replicate 1004 0))" by (simp only: l take_0 append_Nil add_0)
  moreover have "take 12 (?a @ drop 12 (replicate 1004 0)) = ?a"
    using l by (metis append_eq_conv_conj)
  ultimately show ?thesis by (simp add: append_attr_address_def Let_def)
qed

lemma mapped_read:
  assumes "sin_ok src" "length h = n"
  shows "stun_get_mapped (h @ put16 STUN_MSG_MAPPED_ADDR @ put16 8 @ [0, 1] @ sin_port src @ sin_addr src) n sa = (0, src)"
proof -
  let ?r = "[0, 1] @ sin_port src @ sin_addr src :: octet list"
  let ?m = "h @ put16 STUN_MSG_MAPPED_ADDR @ put16 8 @ ?r"
  have "get16 ?m n = STUN_MSG_MAPPED_ADDR" using assms(2) by (intro get16_at) (simp_all add: stun_numbers)
  moreover have "get16 ?m (n + 2) = 8" using get16_at [of "h @ put16 STUN_MSG_MAPPED_ADDR" "n + 2" 8 ?r] assms(2) by simp
  moreover have "drop (n + 6) ?m = sin_port src @ sin_addr src" "drop (n + 8) ?m = sin_addr src"
    using assms by (simp_all add: sin_ok_def)
  ultimately show ?thesis using assms(1) by (simp add: stun_get_mapped_def sin_ok_def)
qed

text \<open>Only requests are accepted.\<close>

lemma handle_accepts_requests:
  assumes "spd_stun_response_handle src dat len = Some (0, out, m)"
  shows "get16 out 0 = STUN_BINDREQ"
proof -
  have "get16 dat 0 = STUN_BINDREQ \<and> out = dat[20 := 0]"
    using assms by (auto simp: spd_stun_response_handle_def Let_def SPD_STUN_IGNORE_def split: if_splits option.splits)
  then show ?thesis by (simp add: get16_def)
qed

lemma not_response: "take 2 out = put16 STUN_BINDRESP \<Longrightarrow> get16 out 0 \<noteq> STUN_BINDREQ"
proof -
  assume "take 2 out = put16 STUN_BINDRESP"
  then have "get16 (put16 STUN_BINDRESP @ drop 2 out) 0 = get16 out 0" by (metis append_take_drop_id)
  then show ?thesis using get16_put16 [of STUN_BINDRESP "drop 2 out"] by (simp add: stun_numbers)
qed

lemma never_accepted:
  assumes "spd_stun_response_handle src dat len = Some h"
  shows "fst h \<noteq> 0 \<or> take 2 (fst (snd h)) \<noteq> put16 STUN_BINDRESP \<or> x"
  using handle_accepts_requests [of src dat len "fst (snd h)" "snd (snd h)"] not_response [of "fst (snd h)"] assms
  by (cases h) auto

fun round_fails :: "'w stun_round \<Rightarrow> bool" where
  "round_fails (Again res w) = (res \<noteq> 0)"
| "round_fails (Break res sa w) = (res < 0)"

lemma try_again_fails: "try_again env tid w = Some r \<Longrightarrow> round_fails r" for env :: "'w stun_env"
proof -
  let ?P = "\<lambda>(env :: 'w stun_env) (tid :: octet list) (w :: 'w) r. round_fails r"
  assume t: "try_again env tid w = Some r"
  show ?thesis
  proof (rule try_again.raw_induct [of ?P, OF _ t])
    fix f :: "'w stun_env \<Rightarrow> octet list \<Rightarrow> 'w \<Rightarrow> 'w stun_round option" and env tid w r
    assume ih: "\<And>env tid w r. f env tid w = Some r \<Longrightarrow> round_fails r"
    assume body: "(let p = se_poll env w
      in if fst p < 0 then Some (Again (fst p) (snd p))
         else if fst p = 0 then Some (Again 1 (snd p))
         else
           (let r = se_recv env (snd p);
                res = fst r; src = fst (snd (snd r)); w = snd (snd (snd r));
                got = take 1023 (fst (snd r)); buf = got @ replicate (1024 - length got) 0
            in if res < 0 then Some (Break res sin_zero w)
               else case spd_stun_response_handle src buf (length got) of
                      None \<Rightarrow> None
                    | Some h \<Rightarrow>
                        (let w = (case snd (snd h) of None \<Rightarrow> w | Some m \<Rightarrow> snd (se_send env m w))
                         in if fst h \<noteq> 0 \<or> take 2 (fst (snd h)) \<noteq> put16 STUN_BINDRESP \<or>
                               stun_transaction_match tid (take 16 (drop 4 (fst (snd h))))
                            then f env tid w
                            else Some (Break 0 sin_zero w)))) = Some r"
    let ?r = "se_recv env (snd (se_poll env w))"
    let ?got = "take 1023 (fst (snd ?r))"
    consider "fst (se_poll env w) < 0" | "fst (se_poll env w) = 0" | "fst (se_poll env w) > 0" "fst ?r < 0"
      | "fst (se_poll env w) > 0" "fst ?r \<ge> 0" by linarith
    then show "round_fails r"
    proof cases
      case 4
      with body obtain h where "spd_stun_response_handle (fst (snd (snd ?r))) (?got @ replicate (1024 - length ?got) 0) (length ?got) = Some h"
        by (auto simp: Let_def split: option.splits)
      note h = this
      let ?w = "case snd (snd h) of None \<Rightarrow> snd (snd (snd ?r)) | Some m \<Rightarrow> snd (se_send env m (snd (snd (snd ?r))))"
      have c: "(fst h \<noteq> 0 \<or> take 2 (fst (snd h)) \<noteq> put16 STUN_BINDRESP \<or>
          stun_transaction_match tid (take 16 (drop 4 (fst (snd h))))) = True"
        using never_accepted [OF h] by blast
      have "f env tid ?w = Some r"
        using body 4 h by (simp only: Let_def c if_True option.case if_False split: if_splits)
      then show ?thesis by (rule ih)
    qed (use body in \<open>auto simp: Let_def\<close>)
  qed
qed

section \<open>Properties\<close>

text \<open>
  C23: a bind request without attributes is accepted and answered by one message of
  32 octets with the type of a bind response, the length 12, the identifier of the request, and a
  mapped address from which \<open>stun_get_mapped\<close> reads exactly the address and port of the sender.
\<close>

theorem stun_answer_roundtrip:
  assumes "sin_ok src" "20 < length dat" "20 \<le> len" "get16 dat 0 = STUN_BINDREQ" "get16 dat 2 = 0 \<or> len = 20"
  shows "\<exists>m. spd_stun_response_handle src dat len = Some (SPD_STUN_ACCEPT, dat[20 := 0], Some m) \<and> length m = 32 \<and>
     get16 m 0 = STUN_BINDRESP \<and> get16 m 2 = 12 \<and> take 16 (drop 4 m) = take 16 (drop 4 dat) \<and>
     stun_get_mapped m 20 sa = (0, src)"
proof -
  let ?tid = "take 16 (drop 4 dat)"
  let ?addr = "put16 STUN_MSG_MAPPED_ADDR @ put16 8 @ [0, 1] @ sin_port src @ sin_addr src :: octet list"
  let ?m = "(put16 STUN_BINDRESP @ put16 12 @ ?tid) @ ?addr"
  obtain st where st: "append_attr_address STUN_MSG_MAPPED_ADDR src
       \<lparr>so_buf = replicate 1004 0, so_attr = 0, so_len = 0, so_left = 1004\<rparr> = Some st" "so_len st = 12"
      "take 12 (so_buf st) = ?addr"
    using address_written [OF assms(1)] by blast
  then have m: "stun_send_octets STUN_BINDRESP (nat (so_len st)) ?tid (so_buf st) = ?m"
    by (simp add: stun_send_octets_def)
  have "(if get16 dat 2 > len - 20 then len - 20 else get16 dat 2) = 0" using assms(5) by auto
  then have "spd_stun_response_handle src dat len = Some (SPD_STUN_ACCEPT, dat[20 := 0], Some ?m)"
    using assms(2-4) st(1) m by (simp add: spd_stun_response_handle_def Let_def)
  moreover have h: "length (put16 STUN_BINDRESP @ put16 12 @ ?tid) = 20" using assms(2) by simp
  moreover have "get16 ?m 0 = STUN_BINDRESP" using get16_put16 [of STUN_BINDRESP] by (simp add: stun_numbers)
  moreover have "get16 ?m 2 = 12" using get16_at [of "put16 STUN_BINDRESP" 2 12 "?tid @ ?addr"] by simp
  moreover have "take 16 (drop 4 ?m) = ?tid" using assms(2) by simp
  ultimately show ?thesis using mapped_read [OF assms(1) h] assms(1) by (auto simp: sin_ok_def)
qed

theorem stun_answer_roundtrip_witness:
  "\<exists>m. spd_stun_response_handle \<lparr>sin_port = [31, 144], sin_addr = [192, 0, 2, 1]\<rparr> ([0, 1] @ replicate 19 0) 20 =
     Some (SPD_STUN_ACCEPT, ([0, 1] @ replicate 19 0)[20 := 0], Some m) \<and> length m = 32"
proof -
  have "get16 ([0, 1] @ replicate 19 0) 0 = STUN_BINDREQ" by (simp add: get16_def stun_numbers)
  from stun_answer_roundtrip [OF _ _ _ this, of "\<lparr>sin_port = [31, 144], sin_addr = [192, 0, 2, 1]\<rparr>" 20 sin_zero]
  show ?thesis by (auto simp: sin_ok_def)
qed

text \<open>
  when the caller wants its mapped address, \<open>spd_stun_bind\<close> never returns 0,
  whatever the network does: the handler only accepts requests and the caller then asks for a
  response, and a response with an attribute has no defined result at all.
\<close>

lemma stun_bind_never_succeeds:
  assumes "spd_stun_bind env username True tid w = Some (res, w')"
  shows "res \<noteq> 0"
proof -
  have loop: "bind_loop n env True req tid r w = Some (res, w') \<Longrightarrow> n \<noteq> 0 \<or> r \<noteq> 0 \<Longrightarrow> res \<noteq> 0" for n req r w
  proof (induction n arbitrary: r w)
    case (Suc n)
    obtain r1 w1 where s: "se_send env req w = (r1, w1)" by fastforce
    show ?case
    proof (cases "r1 < 0")
      case False
      then obtain x where x: "try_again env tid w1 = Some x" using Suc.prems(1) s by (auto split: option.splits)
      then have "round_fails x" by (rule try_again_fails)
      then show ?thesis using Suc.prems(1) Suc.IH s x False by (cases x) auto
    qed (use Suc.prems(1) s in auto)
  qed simp
  from assms obtain m where "bind_loop 3 env True m tid (- 1) w = Some (res, w')"
    unfolding spd_stun_bind_def Let_def by (auto simp only: split: option.splits)
  then show ?thesis by (rule loop) simp
qed

text \<open>A network that never answers: three timeouts.\<close>

theorem stun_bind_never_succeeds_witness:
  "\<exists>w. spd_stun_bind \<lparr>se_send = \<lambda>m w. (1, w), se_poll = \<lambda>w. (0, w), se_recv = \<lambda>w. (0, [], sin_zero, w)\<rparr>
     None True (replicate 16 7) (0 :: nat) = Some (1, w) \<and> (1 :: int) \<noteq> 0"
proof -
  let ?env = "\<lparr>se_send = \<lambda>m w. (1, w), se_poll = \<lambda>w. (0, w), se_recv = \<lambda>w. (0, [], sin_zero, w)\<rparr> :: nat stun_env"
  have t: "try_again ?env tid 0 = Some (Again 1 0)" for tid by (subst try_again.simps) simp
  have "bind_loop (Suc (Suc (Suc 0))) ?env True req tid (- 1) 0 = Some (1, 0)" for req tid
    by (simp add: t)
  then have "spd_stun_bind ?env None True (replicate 16 7) (0 :: nat) = Some (1, 0)"
    unfolding spd_stun_bind_def Let_def option.case numeral_3_eq_3 .
  with stun_bind_never_succeeds [OF this] show ?thesis by blast
qed

end
