(* ===== verification/Spd_Http.thy ===== *)
theory Spd_Http
  imports Spd_CString Spd_Sockaddr Spd_Config
begin

text \<open>
  The small file server: \<open>tinyhttp.c\<close> (\<open>tinyNet/tinyhttp.c\<close> is a copy of it). A client sends
  \<open>method:path\<close>, then a line end in a segment of its own. The file does not compile as it stands
  (\<open>listen_fd\<close> is not declared, \<open>INTR\<close> and \<open>SOL_SOCEK\<close> are no names, \<open>v\<close> is used before it is set); it is
  read with the names it means, and with an \<open>off_t\<close> of the width of \<open>int\<close>, because \<open>sendfile\<close> gets the
  address of an \<open>int\<close>. The kernel is an argument; what is done to descriptors is a list of actions.
\<close>

section \<open>Connections\<close>

definition HANDLE_INFO :: int where "HANDLE_INFO = 1"
definition HANDLE_SEND :: int where "HANDLE_SEND = 2"
definition HANDLE_DEL :: int where "HANDLE_DEL = 3"
definition HANDLE_CLOSE :: int where "HANDLE_CLOSE = 4"
definition MAX_REQLEN :: nat where "MAX_REQLEN = 1024"
definition MAX_PROCESS_CONN :: int where "MAX_PROCESS_CONN = 3"
definition DEFAULT_PORT :: "32 word" where "DEFAULT_PORT = 8080"
definition DEFAULT_MAX_FDS :: int where "DEFAULT_MAX_FDS = 1024"

lemmas http_numbers = HANDLE_INFO_def HANDLE_SEND_def HANDLE_DEL_def HANDLE_CLOSE_def MAX_REQLEN_def
  MAX_PROCESS_CONN_def

datatype event_hook = ReadHook | WriteHook

record event_handle =
  socket_fd :: int
  file_fd :: int
  file_pos :: int
  epoll_fd :: int
  request :: "char list"
  request_len :: int
  read_handle :: event_hook
  write_handle :: event_hook
  handle_method :: int

datatype http_act = ActClose int | ActSend int string | ActModify int int | ActAdd int int

text \<open>The descriptor of the file is not set.\<close>

definition init_evhandle :: "event_handle \<Rightarrow> int \<Rightarrow> int \<Rightarrow> event_hook \<Rightarrow> event_hook \<Rightarrow> event_handle" where
  "init_evhandle ev sfd efd r w =
     ev\<lparr>epoll_fd := efd, socket_fd := sfd, read_handle := r, write_handle := w, file_pos := 0,
        request_len := 0, handle_method := 0, request := replicate MAX_REQLEN (CHR 0x00)\<rparr>"

definition clean_request :: "event_handle \<Rightarrow> event_handle" where
  "clean_request ev = ev\<lparr>request := replicate MAX_REQLEN (CHR 0x00), request_len := 0\<rparr>"

definition finish_request :: "event_handle \<Rightarrow> event_handle \<times> http_act list" where
  "finish_request ev =
     (clean_request (ev\<lparr>handle_method := - 1\<rparr>), [ActClose (socket_fd ev), ActClose (file_fd ev)])"

section \<open>Requests\<close>

text \<open>
  \<open>junk\<close> is what the local \<open>temp\<close> holds before it is written: the number is read from the text copied
  into it and whatever follows, which must hold a NUL somewhere. The event mask is always that of
  writing.
\<close>

definition parse_request :: "char list \<Rightarrow> event_handle \<Rightarrow> (event_handle \<times> http_act list) option" where
  "parse_request junk ev =
     (let n = request_len ev - 1
      in if n < 1 \<or> int MAX_REQLEN < n then None
         else
           (let req = (request ev)[nat (n - 1) := CHR 0x00];
                act = [ActModify (epoll_fd ev) (socket_fd ev)]
            in case index_of (CHR '':'') (take (nat n) req) of
                 None \<Rightarrow> Some (ev\<lparr>request_len := n, request := req\<rparr>, act)
               | Some i \<Rightarrow>
                   (let len = nat n - i - 1; temp = overwrite junk 0 (take i req)
                    in if CHR 0x00 \<notin> set temp then None
                       else Some (ev\<lparr>request_len := int len, handle_method := c_atoi (cstr temp),
                                    request := overwrite req 0 (take len (drop (i + 1) req))\<rparr>, act))))"

text \<open>
  \<open>rcv\<close> is the result of \<open>recv\<close> and the octets. After an error their number, - 1, is used as a size,
  which has no result.
\<close>

definition read_hook :: "char list \<Rightarrow> int \<times> string \<Rightarrow> event_handle \<Rightarrow> (int \<times> event_handle \<times> http_act list) option" where
  "read_hook junk rcv ev =
     (let recv_num = fst rcv
      in if recv_num = 0 then Some (- 1, ev, [ActClose (socket_fd ev)])
         else if recv_num < 0 then None
         else
           (let over = request_len ev > int MAX_REQLEN - recv_num;
                act = (if over then [ActClose (socket_fd ev)] else []);
                ev = (if over then clean_request ev else ev);
                ev = ev\<lparr>request := overwrite (request ev) (nat (request_len ev)) (snd rcv),
                        request_len := request_len ev + recv_num\<rparr>
            in if recv_num = 2 \<and> snd rcv = [CHR 0x0D, CHR 0x0A] then
                 map_option (\<lambda>(ev, a). (recv_num, ev, act @ a)) (parse_request junk ev)
               else Some (recv_num, ev, act)))"

section \<open>Answers\<close>

text \<open>A file system gives a descriptor and the contents of a file.\<close>

type_synonym http_files = "string \<Rightarrow> (int \<times> string) option"

definition open_failed :: string where "open_failed = ''open file failed'' @ [CHR 0x0A]"

text \<open>\<open>taken\<close> is the number of octets that the socket takes from \<open>sendfile\<close>.\<close>

definition handle_request :: "http_files \<Rightarrow> nat \<Rightarrow> event_handle \<Rightarrow> int \<times> event_handle \<times> http_act list" where
  "handle_request fs taken ev =
     (let done = (\<lambda>ev act. (0, fst (finish_request ev), act @ snd (finish_request ev)));
          fail = (- 1, ev\<lparr>file_fd := - 1\<rparr>, [ActSend (socket_fd ev) open_failed])
      in if handle_method ev = HANDLE_INFO then
           (case fs (cstr (request ev)) of
              None \<Rightarrow> fail
            | Some (fd, content) \<Rightarrow>
                done (ev\<lparr>file_fd := fd\<rparr>)
                  [ActSend (socket_fd ev) (''file len:'' @ nat_dec (length content) @ [CHR 0x0A])])
         else if handle_method ev = HANDLE_SEND then
           (case fs (cstr (request ev)) of
              None \<Rightarrow> fail
            | Some (fd, content) \<Rightarrow> done (ev\<lparr>file_fd := fd\<rparr>) [ActSend (socket_fd ev) (take taken content)])
         else done ev [])"

text \<open>
  What the socket does when \<open>sendfile\<close> is called: it takes some octets, would block, or fails. A call
  moves the offset it is given by the number of octets sent, and the loop adds that number again; it
  also adds the - 1 of an error. A negative offset is an error.
\<close>

datatype socket_state = Takes nat | Blocks | Fails

partial_function (option) write_loop ::
  "('w \<Rightarrow> socket_state \<times> 'w) \<Rightarrow> string \<Rightarrow> int \<Rightarrow> string \<Rightarrow> 'w \<Rightarrow> (int \<times> string \<times> 'w) option" where
  "write_loop k content pos sent w =
     (if pos < 0 then write_loop k content (pos - 1) sent w
      else case k w of
             (Takes n, w) \<Rightarrow>
               (let out = take (min n 10240) (drop (nat pos) content); m = int (length out)
                in if m = 0 then Some (pos, sent, w) else write_loop k content (pos + m + m) (sent @ out) w)
           | (Blocks, w) \<Rightarrow> Some (pos - 1, sent, w)
           | (Fails, w) \<Rightarrow> write_loop k content (pos - 1) sent w)"

text \<open>The octets sent are one action, as one stream is all the client sees of them.\<close>

definition write_hook ::
  "('w \<Rightarrow> socket_state \<times> 'w) \<Rightarrow> http_files \<Rightarrow> event_handle \<Rightarrow> 'w \<Rightarrow> (int \<times> event_handle \<times> http_act list \<times> 'w) option" where
  "write_hook k fs ev w =
     (case fs (cstr (request ev)) of
        None \<Rightarrow> Some (- 1, ev\<lparr>file_fd := - 1\<rparr>, [ActSend (socket_fd ev) open_failed], w)
      | Some (fd, content) \<Rightarrow>
          (case write_loop k content (file_pos ev) [] w of
             None \<Rightarrow> None
           | Some (pos, sent, w) \<Rightarrow>
               Some (0, ev\<lparr>file_fd := fd, file_pos := pos\<rparr>, [ActSend (socket_fd ev) sent], w)))"

section \<open>Accepting\<close>

text \<open>
  The status flags of the open descriptors; \<open>fcntl\<close> gives -1 for any other. What \<open>accept\<close> answers is not
  looked at.
\<close>

type_synonym fd_flags = "int \<Rightarrow> 32 word option"

definition O_NONBLOCK :: "32 word" where "O_NONBLOCK = 0x800"

definition fcntl_getfl :: "fd_flags \<Rightarrow> int \<Rightarrow> 32 word" where
  "fcntl_getfl fl fd = (case fl fd of None \<Rightarrow> - 1 | Some w \<Rightarrow> w)"

definition fcntl_setfl :: "fd_flags \<Rightarrow> int \<Rightarrow> 32 word \<Rightarrow> fd_flags" where
  "fcntl_setfl fl fd w = (if fl fd = None then fl else fl(fd := Some w))"

definition create_accept_fd ::
  "(int \<Rightarrow> (int \<times> octet list) option) \<Rightarrow> spd_sockaddr \<Rightarrow> int \<Rightarrow> fd_flags \<Rightarrow> int \<times> fd_flags" where
  "create_accept_fd accept remote_addr listen_fd fl =
     (let (accept_fd, remote_addr) = spd_accept accept listen_fd remote_addr;
          flags = fcntl_getfl fl accept_fd
      in (accept_fd, fcntl_setfl fl accept_fd (flags OR O_NONBLOCK)))"

lemma accept_fd_nonblocking:
  assumes "accept listen_fd = Some (s, src)" "fl s = Some w"
  shows "fst (create_accept_fd accept remote_addr listen_fd fl) = s"
    and "snd (create_accept_fd accept remote_addr listen_fd fl) = fl(s \<mapsto> w OR O_NONBLOCK)"
    and "(w OR O_NONBLOCK) AND O_NONBLOCK = O_NONBLOCK"
  using assms by (simp_all add: create_accept_fd_def spd_accept_def fcntl_getfl_def fcntl_setfl_def Let_def bit.conj_disj_distrib2)

lemma accept_fd_failed:
  "accept listen_fd = None \<Longrightarrow> fl (- 1) = None \<Longrightarrow> create_accept_fd accept remote_addr listen_fd fl = (- 1, fl)"
  by (simp add: create_accept_fd_def spd_accept_def fcntl_setfl_def Let_def)

section \<open>The event loop\<close>

text \<open>
  The table of connections, whose entries are not initialised, and the number of connections in use.
  An event names the entry it is for; \<open>Connected fd\<close> is an event of the listening socket and the
  descriptor that \<open>accept\<close> gives. A use of an entry outside the table has no result.
\<close>

record http_server =
  accept_handles :: int
  ev_handles :: "event_handle list"
  server_epfd :: int

datatype http_event = Connected int | Readable nat "int \<times> string" | Writable nat

definition http_accept :: "int \<Rightarrow> http_server \<Rightarrow> (http_server \<times> http_act list) option" where
  "http_accept fd sv =
     (if accept_handles sv < MAX_PROCESS_CONN then
        (let n = accept_handles sv + 1
         in if n < 0 \<or> int (length (ev_handles sv)) \<le> n then None
            else Some (sv\<lparr>accept_handles := n, ev_handles := (ev_handles sv)
                         [nat n := init_evhandle (ev_handles sv ! nat n) fd (server_epfd sv) ReadHook WriteHook]\<rparr>,
                       [ActAdd (server_epfd sv) fd]))
      else Some (sv, []))"

definition http_step ::
  "('w \<Rightarrow> socket_state \<times> 'w) \<Rightarrow> http_files \<Rightarrow> char list \<Rightarrow> http_event \<Rightarrow> http_server \<Rightarrow> 'w \<Rightarrow>
   (http_server \<times> http_act list \<times> 'w) option" where
  "http_step k fs junk e sv w =
     (case e of
        Connected fd \<Rightarrow> map_option (\<lambda>(sv, a). (sv, a, w)) (http_accept fd sv)
      | Readable i rcv \<Rightarrow>
          map_option (\<lambda>(r, ev, a). (sv\<lparr>ev_handles := (ev_handles sv)[i := ev]\<rparr>, a, w))
            (if i < length (ev_handles sv) then read_hook junk rcv (ev_handles sv ! i) else None)
      | Writable i \<Rightarrow>
          map_option (\<lambda>(r, ev, a, w).
              (sv\<lparr>accept_handles := (if r = 0 then accept_handles sv - 1 else accept_handles sv),
                  ev_handles := (ev_handles sv)[i := ev]\<rparr>, a, w))
            (if i < length (ev_handles sv) then write_hook k fs (ev_handles sv ! i) w else None))"

fun http_loop ::
  "('w \<Rightarrow> socket_state \<times> 'w) \<Rightarrow> http_files \<Rightarrow> char list \<Rightarrow> http_event list \<Rightarrow> http_server \<Rightarrow> 'w \<Rightarrow>
   (http_server \<times> http_act list \<times> 'w) option" where
  "http_loop k fs junk [] sv w = Some (sv, [], w)"
| "http_loop k fs junk (e # es) sv w =
     (case http_step k fs junk e sv w of
        None \<Rightarrow> None
      | Some (sv, a, w) \<Rightarrow> map_option (\<lambda>(sv, b, w). (sv, a @ b, w)) (http_loop k fs junk es sv w))"

section \<open>Workers\<close>

text \<open>
  One round of the loop that starts workers: what \<open>fork\<close> or \<open>wait\<close>, whichever is called, results in.
  The loop returns at once when \<open>fork\<close> fails; an unknown error of \<open>wait\<close> is only logged.
\<close>

datatype fork_result = ForkFails | InChild | InParent
datatype fork_end = Returned | Child | StillRunning

record workers =
  max_workers :: int
  children :: int

fun fork_loop :: "(bool \<times> fork_result \<times> bool) list \<Rightarrow> workers \<Rightarrow> fork_end \<times> workers" where
  "fork_loop [] ws = (StillRunning, ws)"
| "fork_loop ((is_shutdown, f, waited) # rs) ws =
     (if is_shutdown then (Returned, ws\<lparr>children := 0\<rparr>)
      else if max_workers ws > 0 then
        (case f of
           ForkFails \<Rightarrow> (Returned, ws)
         | InChild \<Rightarrow> (Child, ws)
         | InParent \<Rightarrow> fork_loop rs (ws\<lparr>max_workers := max_workers ws - 1, children := children ws + 1\<rparr>))
      else if waited then
        fork_loop rs (ws\<lparr>max_workers := max_workers ws + 1, children := children ws - 1\<rparr>)
      else fork_loop rs ws)"

section \<open>Start\<close>

text \<open>What the calls that set up the listening socket return; an address is a pointer.\<close>

definition init_network ::
  "int \<Rightarrow> (int \<Rightarrow> spd_sockaddr \<Rightarrow> int) \<Rightarrow> (int \<Rightarrow> int) \<Rightarrow> spd_sockaddr option \<Rightarrow> int \<times> http_act list" where
  "init_network sock bnd lsn a =
     (if spd_sockaddr_isnull a then (- 1, [])
      else if sock < 0 then (- 1, [])
      else if bnd sock (the a) \<noteq> 0 then (- 1, [ActClose sock])
      else if lsn sock \<noteq> 0 then (- 1, [ActClose sock])
      else (sock, []))"

record http_options =
  ho_bindport :: "32 word"
  ho_server_addr :: "spd_sockaddr option"
  ho_max_workers :: int
  ho_max_fds :: int

fun http_conf_loop :: "getaddrinfo \<Rightarrow> spd_variable list \<Rightarrow> http_options \<Rightarrow> http_options" where
  "http_conf_loop gai [] opt = opt"
| "http_conf_loop gai (v # vs) opt =
     (if strcasecmp (v_name v) ''bindport'' = 0 then
        http_conf_loop gai vs (opt\<lparr>ho_bindport := word_of_int (c_atoi (v_value v))\<rparr>)
      else if strcasecmp (v_name v) ''bindaddr'' = 0 then
        (case spd_sockaddr_resolve gai (Some (v_value v)) 0 0 of
           (_, None) \<Rightarrow> http_conf_loop gai vs opt
         | (_, Some as) \<Rightarrow>
             http_conf_loop gai vs (opt\<lparr>ho_server_addr := Some \<lparr>sa_ss = fst (hd as), sa_len = snd (hd as)\<rparr>\<rparr>))
      else if strcasecmp (v_name v) ''max_worker'' = 0 then
        http_conf_loop gai vs (opt\<lparr>ho_max_workers := c_atoi (v_value v)\<rparr>)
      else if strcasecmp (v_name v) ''max_fd'' = 0 then
        http_conf_loop gai vs (opt\<lparr>ho_max_fds := c_atoi (v_value v)\<rparr>)
      else http_conf_loop gai vs opt)"

text \<open>
  The start up to the workers: the listening descriptor, the options and the actions. Without a
  \<open>bindaddr\<close> a null pointer is followed.
\<close>

definition init_tinyhttp_start ::
  "getaddrinfo \<Rightarrow> int \<Rightarrow> (int \<Rightarrow> spd_sockaddr \<Rightarrow> int) \<Rightarrow> (int \<Rightarrow> int) \<Rightarrow> spd_config option \<Rightarrow>
   (int \<times> http_options option \<times> http_act list) option" where
  "init_tinyhttp_start gai sock bnd lsn cfg =
     (case cfg of
        None \<Rightarrow> Some (- 1, None, [])
      | Some cfg \<Rightarrow>
          (case spd_variable_browse cfg (Some (CP None ''general'')) of
             None \<Rightarrow> None
           | Some vs \<Rightarrow>
               (let opt = http_conf_loop gai vs \<lparr>ho_bindport = DEFAULT_PORT, ho_server_addr = None,
                      ho_max_workers = 0, ho_max_fds = DEFAULT_MAX_FDS\<rparr>
                in case ho_server_addr opt of
                     None \<Rightarrow> None
                   | Some a \<Rightarrow>
                       (let a = (if spd_sockaddr_get_port a = 0
                                 then spd_sockaddr_set_port a (ucast (ho_bindport opt)) else a);
                            r = init_network sock bnd lsn (Some a)
                        in Some (fst r, if fst r < 0 then None else Some (opt\<lparr>ho_server_addr := Some a\<rparr>), snd r)))))"

section \<open>Lemmas\<close>

lemma digit_bytes: "c_isdigit c \<Longrightarrow> 48 \<le> byte c \<and> byte c \<le> 57"
  by (simp add: c_isdigit_def)

lemma digit_not_special:
  "c_isdigit c \<Longrightarrow> \<not> c_isspace c" "\<not> c_isdigit CHR ''-''" "\<not> c_isdigit CHR ''+''" "\<not> c_isdigit CHR '':''" "\<not> c_isdigit NUL"
  by (auto simp: c_isspace_def c_isdigit_def byte_def)

lemma c_atoi_digits:
  assumes "ds \<noteq> []" "list_all c_isdigit ds" "r = [] \<or> \<not> c_isdigit (hd r)"
  shows "c_atoi (ds @ r) = digits_value ds"
proof -
  obtain d ds' where ds: "ds = d # ds'" using assms(1) by (cases ds) auto
  then have d: "\<not> c_isspace d" "d \<noteq> CHR ''-''" "d \<noteq> CHR ''+''"
    using assms(2) digit_not_special by auto
  have "takeWhile c_isdigit (ds @ r) = ds"
    using assms(2, 3) by (induction ds) (cases r, auto)
  then show ?thesis using d assms(1) ds by (simp add: c_atoi_def scan_int_def Let_def)
qed

text \<open>A connection that has received the text \<open>t\<close>.\<close>

definition received :: "string \<Rightarrow> event_handle \<Rightarrow> bool" where
  "received t ev \<longleftrightarrow> request_len ev = int (length t) \<and> length t \<le> MAX_REQLEN \<and>
     request ev = t @ replicate (MAX_REQLEN - length t) NUL"

lemma overwrite_behind: "length t = n \<Longrightarrow> overwrite (t @ u) n s = t @ s @ drop (length s) u"
  by (simp add: overwrite_def)

lemma read_plain:
  assumes "received t ev" "s \<noteq> []" "s \<noteq> [CHR 0x0D, CHR 0x0A]" "length t + length s \<le> MAX_REQLEN"
  shows "\<exists>ev'. read_hook junk (int (length s), s) ev = Some (int (length s), ev', []) \<and> received (t @ s) ev' \<and>
     socket_fd ev' = socket_fd ev \<and> epoll_fd ev' = epoll_fd ev \<and> file_pos ev' = file_pos ev"
  using assms by (auto simp: read_hook_def Let_def received_def overwrite_def)

lemma loop_append:
  "http_loop k fs junk (es @ fs') sv w = (case http_loop k fs junk es sv w of None \<Rightarrow> None
     | Some (sv, a, w) \<Rightarrow> map_option (\<lambda>(sv, b, w). (sv, a @ b, w)) (http_loop k fs junk fs' sv w))"
proof (induction es arbitrary: sv w)
  case Nil
  show ?case by (cases "http_loop k fs junk fs' sv w") auto
next
  case (Cons e es)
  have "map_option (\<lambda>(sv, b, w). (sv, a @ b, w)) (map_option (\<lambda>(sv, b, w). (sv, a' @ b, w)) x) =
      map_option (\<lambda>(sv, b, w). (sv, (a @ a') @ b, w)) x" for a a' and x :: "(http_server \<times> http_act list \<times> 'a) option"
    by (cases x) auto
  then show ?case by (auto simp: Cons.IH split: option.splits)
qed

lemma reads_plain:
  assumes "received t (ev_handles sv ! i)" "i < length (ev_handles sv)"
    and "\<forall>s \<in> set segs. s \<noteq> [] \<and> s \<noteq> [CHR 0x0D, CHR 0x0A]" "length t + length (concat segs) \<le> MAX_REQLEN"
  shows "\<exists>ev'. http_loop k fs junk (map (\<lambda>s. Readable i (int (length s), s)) segs) sv w =
       Some (sv\<lparr>ev_handles := (ev_handles sv)[i := ev']\<rparr>, [], w) \<and> received (t @ concat segs) ev' \<and>
     socket_fd ev' = socket_fd (ev_handles sv ! i) \<and> epoll_fd ev' = epoll_fd (ev_handles sv ! i) \<and>
     file_pos ev' = file_pos (ev_handles sv ! i)"
  using assms
proof (induction segs arbitrary: t sv)
  case (Cons s segs)
  obtain ev' where ev': "read_hook junk (int (length s), s) (ev_handles sv ! i) = Some (int (length s), ev', [])"
      "received (t @ s) ev'" "socket_fd ev' = socket_fd (ev_handles sv ! i)"
      "epoll_fd ev' = epoll_fd (ev_handles sv ! i)" "file_pos ev' = file_pos (ev_handles sv ! i)"
    using read_plain [OF Cons.prems(1), of s] Cons.prems by auto
  let ?sv = "sv\<lparr>ev_handles := (ev_handles sv)[i := ev']\<rparr>"
  have "http_step k fs junk (Readable i (int (length s), s)) sv w = Some (?sv, [], w)"
    using ev'(1) Cons.prems(2) by (simp add: http_step_def)
  moreover obtain ev'' where
      "http_loop k fs junk (map (\<lambda>s. Readable i (int (length s), s)) segs) ?sv w =
         Some (?sv\<lparr>ev_handles := (ev_handles ?sv)[i := ev'']\<rparr>, [], w)" "received ((t @ s) @ concat segs) ev''"
      "socket_fd ev'' = socket_fd ev'" "epoll_fd ev'' = epoll_fd ev'" "file_pos ev'' = file_pos ev'"
    using Cons.IH [of "t @ s" ?sv] ev'(2) Cons.prems by auto
  ultimately show ?case using ev' by (intro exI [of _ ev'']) simp
next
  case Nil
  then show ?case by (intro exI [of _ "ev_handles sv ! i"]) simp
qed

text \<open>The line end after a request.\<close>

lemma parse_received:
  assumes "received (ds @ CHR '':'' # path) ev" "length (ds @ CHR '':'' # path) + 2 \<le> MAX_REQLEN"
    and "ds \<noteq> []" "list_all c_isdigit ds" "is_cstr path"
    and "NUL \<in> set (drop (length ds) junk)" "\<not> c_isdigit (drop (length ds) junk ! 0)"
  shows "\<exists>ev'. read_hook junk (2, [CHR 0x0D, CHR 0x0A]) ev = Some (2, ev', [ActModify (epoll_fd ev) (socket_fd ev)]) \<and>
     cstr (request ev') = path \<and> handle_method ev' = digits_value ds \<and>
     socket_fd ev' = socket_fd ev \<and> file_pos ev' = file_pos ev"
proof -
  let ?t = "ds @ CHR '':'' # path" and ?z = "replicate (MAX_REQLEN - Suc (Suc (Suc (length ds + length path)))) NUL"
  let ?req = "?t @ NUL # CHR 0x0A # ?z"
  let ?ev = "ev\<lparr>request := ?t @ CHR 0x0D # CHR 0x0A # ?z, request_len := int (length ?t) + 2\<rparr>"
  have n: "MAX_REQLEN - (length ds + Suc (length path)) = Suc (Suc (MAX_REQLEN - Suc (Suc (Suc (length ds + length path)))))"
    using assms(2) by simp
  have r: "read_hook junk (2, [CHR 0x0D, CHR 0x0A]) ev = map_option (\<lambda>(ev, a). (2, ev, a)) (parse_request junk ?ev)"
    using assms(1, 2) by (simp add: read_hook_def Let_def received_def overwrite_behind [of "ds @ CHR '':'' # path", simplified] n nat_add_distrib)
  have "CHR '':'' \<notin> set ds" using assms(4) digit_not_special(4) by (auto simp: list_all_iff)
  then have i: "index_of CHR '':'' (ds @ CHR '':'' # q) = Some (length ds)" for q by (rule index_of_split)
  have temp: "overwrite junk 0 ds = ds @ drop (length ds) junk" by (simp add: overwrite_def)
  have "is_cstr ds" using assms(4) digit_not_special(5) by (auto simp: is_cstr_def list_all_iff)
  then have "cstr (ds @ drop (length ds) junk) = ds @ cstr (drop (length ds) junk)"
    by (auto simp: cstr_def is_cstr_def takeWhile_append)
  moreover have "cstr (drop (length ds) junk) = [] \<or> \<not> c_isdigit (hd (cstr (drop (length ds) junk)))"
    using assms(7) by (cases "drop (length ds) junk") (auto simp: cstr_def)
  ultimately have m: "c_atoi (cstr (ds @ drop (length ds) junk)) = digits_value ds"
    using c_atoi_digits [OF assms(3, 4)] by simp
  have upd: "(?t @ CHR 0x0D # CHR 0x0A # ?z)[length ?t := NUL] = ?req"
    using list_update_length [of ?t "CHR 0x0D" "CHR 0x0A # ?z" NUL] by simp
  have "parse_request junk ?ev = Some (?ev\<lparr>request_len := int (length path + 1), handle_method := digits_value ds,
      request := path @ NUL # drop (length path + 1) ?req\<rparr>, [ActModify (epoll_fd ev) (socket_fd ev)])"
    using assms(2, 6) upd m temp i by (simp add: parse_request_def Let_def nat_add_distrib overwrite_def)
  then show ?thesis using r assms(5) by (simp add: cstr_append_NUL)
qed

text \<open>
  What is sent when the socket takes everything: a call sends 10240 octets from a position that has
  moved by twice that number since the last call.
\<close>

function every_other :: "string \<Rightarrow> string" where
  "every_other s = (if s = [] then [] else take 10240 s @ every_other (drop 20480 s))"
  by auto
termination by (relation "measure length") auto

declare every_other.simps [simp del]

lemma every_other_short: "length s \<le> 10240 \<Longrightarrow> every_other s = s"
  by (simp add: every_other.simps [of s] every_other.simps [of "[]"])

lemma write_all:
  assumes "0 \<le> pos"
  shows "\<exists>pos'. write_loop (\<lambda>w. (Takes 10240, w)) content pos sent w =
     Some (pos', sent @ every_other (drop (nat pos) content), w) \<and> 0 \<le> pos'"
  using assms
proof (induction "length content - nat pos" arbitrary: pos sent rule: less_induct)
  case less
  let ?k = "\<lambda>w. (Takes 10240, w)" and ?s = "drop (nat pos) content"
  show ?case
  proof (cases "?s = []")
    case True
    then show ?thesis using less.prems by (subst write_loop.simps) (simp add: every_other.simps Let_def)
  next
    case False
    let ?out = "take 10240 ?s"
    let ?m = "int (length ?out)"
    have s: "write_loop ?k content pos sent w = write_loop ?k content (pos + ?m + ?m) (sent @ ?out) w"
      using False less.prems by (subst write_loop.simps) (simp add: Let_def)
    have d: "every_other (drop (nat (pos + ?m + ?m)) content) = every_other (drop 20480 ?s)"
    proof (cases "length ?s \<ge> 10240")
      case True
      then have "nat (pos + ?m + ?m) = 20480 + nat pos" using less.prems by simp
      then show ?thesis by (simp only: drop_drop)
    next
      case False
      then have "length content \<le> nat (pos + ?m + ?m)" using less.prems by auto
      then show ?thesis using False by simp
    qed
    have "length content - nat (pos + ?m + ?m) < length content - nat pos" using False less.prems by auto
    from less.hyps [OF this, of "sent @ ?out"] obtain pos' where
      "write_loop ?k content (pos + ?m + ?m) (sent @ ?out) w =
         Some (pos', (sent @ ?out) @ every_other (drop (nat (pos + ?m + ?m)) content), w)" "0 \<le> pos'"
      using less.prems by auto
    then show ?thesis using s d False by (simp add: every_other.simps [of ?s])
  qed
qed

text \<open>From a negative position the loop has no result.\<close>

lemma write_hangs: "pos < 0 \<Longrightarrow> write_loop k content pos sent w = None" for k :: "'w \<Rightarrow> socket_state \<times> 'w"
proof (rule ccontr)
  let ?P = "\<lambda>(k :: 'w \<Rightarrow> socket_state \<times> 'w) (content :: string) (pos :: int) (sent :: string) (w :: 'w) r. 0 \<le> pos"
  assume "pos < 0" "write_loop k content pos sent w \<noteq> None"
  then obtain r where r: "write_loop k content pos sent w = Some r" by auto
  have "0 \<le> pos"
  proof (rule write_loop.raw_induct [of ?P, OF _ r])
    fix f :: "('w \<Rightarrow> socket_state \<times> 'w) \<Rightarrow> string \<Rightarrow> int \<Rightarrow> string \<Rightarrow> 'w \<Rightarrow> (int \<times> string \<times> 'w) option"
      and k :: "'w \<Rightarrow> socket_state \<times> 'w" and content sent :: string and pos :: int and w r
    assume ih: "\<And>k content pos sent w r. f k content pos sent w = Some r \<Longrightarrow> 0 \<le> pos"
    assume body: "(if pos < 0 then f k content (pos - 1) sent w
      else case k w of
             (Takes n, w) \<Rightarrow>
               (let out = take (min n 10240) (drop (nat pos) content); m = int (length out)
                in if m = 0 then Some (pos, sent, w) else f k content (pos + m + m) (sent @ out) w)
           | (Blocks, w) \<Rightarrow> Some (pos - 1, sent, w)
           | (Fails, w) \<Rightarrow> f k content (pos - 1) sent w) = Some r"
    show "0 \<le> pos"
    proof (rule ccontr)
      assume n: "\<not> 0 \<le> pos"
      then have "f k content (pos - 1) sent w = Some r" using body by simp
      from ih [OF this] n show False by simp
    qed
  qed
  with \<open>pos < 0\<close> show False by simp
qed

text \<open>The number of workers wanted stays the same until the server is shut down.\<close>

lemma fork_loop_total:
  assumes "fork_loop rs ws = (r, ws')" "\<forall>(is_shutdown, _, _) \<in> set rs. \<not> is_shutdown"
  shows "max_workers ws' + children ws' = max_workers ws + children ws"
  using assms by (induction rs ws rule: fork_loop.induct) (auto split: if_splits fork_result.splits)

text \<open>An entry of the table before it is used.\<close>

definition unused_handle :: event_handle where
  "unused_handle = \<lparr>socket_fd = 0, file_fd = 0, file_pos = 0, epoll_fd = 0, request = [], request_len = 0,
     read_handle = ReadHook, write_handle = WriteHook, handle_method = 0\<rparr>"

section \<open>Properties\<close>





text \<open>
  with three connections a fourth is not accepted; once one of them has been
  answered the next connection is given the third entry, whoever uses it: a third client that is still
  being served loses its state, and with it its descriptor.
\<close>

lemma http_third_lost:
  assumes "accept_handles sv = 3" "3 < length (ev_handles sv)" "i < 3"
    and "write_hook k files (ev_handles sv ! i) w = Some (0, ev', act, w')"
  shows "http_step k files junk (Connected fd) sv w = Some (sv, [], w) \<and>
     (\<exists>sv'. http_loop k files junk [Writable i, Connected fd] sv w = Some (sv', act @ [ActAdd (server_epfd sv) fd], w') \<and>
       accept_handles sv' = 3 \<and>
       ev_handles sv' ! 3 = init_evhandle (ev_handles sv ! 3) fd (server_epfd sv) ReadHook WriteHook)"
  using assms by (auto simp: http_step_def http_accept_def MAX_PROCESS_CONN_def)

theorem http_third_lost_witness:
  "\<exists>sv'. http_loop (\<lambda>w. (Blocks, w)) (\<lambda>_. Some (9, ''hello'')) [] [Writable 1, Connected 9]
       \<lparr>accept_handles = 3, ev_handles = replicate 4 (init_evhandle unused_handle 7 5 ReadHook WriteHook), server_epfd = 5\<rparr> (0 :: nat) =
       Some (sv', [ActSend 7 [], ActAdd 5 9], 0) \<and> accept_handles sv' = 3"
proof -
  let ?sv = "\<lparr>accept_handles = 3, ev_handles = replicate 4 (init_evhandle unused_handle 7 5 ReadHook WriteHook), server_epfd = 5\<rparr>"
  have "write_loop (\<lambda>w. (Blocks, w)) ''hello'' 0 [] (0 :: nat) = Some (- 1, [], 0)" by (subst write_loop.simps) simp
  then have "write_hook (\<lambda>w. (Blocks, w)) (\<lambda>_. Some (9, ''hello'')) (ev_handles ?sv ! 1) (0 :: nat) =
      Some (0, (init_evhandle unused_handle 7 5 ReadHook WriteHook)\<lparr>file_fd := 9, file_pos := - 1\<rparr>, [ActSend 7 []], 0)"
    by (simp add: write_hook_def init_evhandle_def)
  from http_third_lost [OF _ _ _ this, of "[]" 9] show ?thesis by (auto simp del: http_loop.simps)
qed

end
