(* ===== verification/Spd_Fdevent.thy ===== *)
theory Spd_Fdevent
  imports Spd_Prelude "HOL-Library.Word"
begin

unbundle bit_operations_syntax

text \<open>
  The table of descriptors over \<open>epoll\<close>: \<open>fdevent.c\<close>, \<open>fdevent.h\<close>. The last function of the file does
  not compile (\<open>sock\<close> is not declared, a conditional is not closed) and is not modelled. The kernel's
  list of watched descriptors is an argument, with its documented behaviour as a predicate. Functions
  and contexts are numbers. A null entry that is followed, or an index outside the table, has no result.
\<close>

section \<open>The kernel\<close>

type_synonym emask = "32 word"

datatype epoll_op = EPOLL_CTL_ADD | EPOLL_CTL_MOD | EPOLL_CTL_DEL

type_synonym 'k epoll_ctl = "epoll_op \<Rightarrow> nat \<Rightarrow> emask \<Rightarrow> 'k \<Rightarrow> int \<times> 'k"

definition EPOLLIN :: emask where "EPOLLIN = 1"
definition EPOLLOUT :: emask where "EPOLLOUT = 4"
definition EPOLLERR :: emask where "EPOLLERR = 8"
definition EPOLLHUP :: emask where "EPOLLHUP = 16"

text \<open>
  A call fails and changes nothing, or succeeds: adding needs a descriptor that is not watched, the
  others one that is.
\<close>

definition epoll_like :: "'k epoll_ctl \<Rightarrow> ('k \<Rightarrow> nat \<Rightarrow> emask option) \<Rightarrow> bool" where
  "epoll_like ctl watched \<longleftrightarrow>
     (\<forall>op fd e k. case ctl op fd e k of (r, k') \<Rightarrow>
        if r \<noteq> 0 then watched k' = watched k
        else (watched k fd = None \<longleftrightarrow> op = EPOLL_CTL_ADD) \<and>
          watched k' = (watched k)(fd := (if op = EPOLL_CTL_DEL then None else Some e)))"

section \<open>Nodes and table\<close>

definition FDEVENT_IN :: emask where "FDEVENT_IN = push_bit 0 1"
definition FDEVENT_PRI :: emask where "FDEVENT_PRI = push_bit 1 1"
definition FDEVENT_OUT :: emask where "FDEVENT_OUT = push_bit 2 1"
definition FDEVENT_ERR :: emask where "FDEVENT_ERR = push_bit 3 1"
definition FDEVENT_HUP :: emask where "FDEVENT_HUP = push_bit 4 1"
definition FDEVENT_NVAL :: emask where "FDEVENT_NVAL = push_bit 5 1"

record fdnode =
  fn_handler :: nat
  fn_fd :: int
  fn_ctx :: nat
  fn_status :: int

record fdevents =
  fdarray :: "fdnode option list"
  epoll_fd :: int

definition fdnode_init :: fdnode where
  "fdnode_init = \<lparr>fn_handler = 0, fn_fd = - 1, fn_ctx = 0, fn_status = - 1\<rparr>"

text \<open>\<open>efd\<close> is the result of \<open>epoll_create\<close>.\<close>

definition fdevent_init :: "nat \<Rightarrow> int \<Rightarrow> fdevents option" where
  "fdevent_init maxfds efd =
     (if efd = - 1 then None else Some \<lparr>fdarray = replicate maxfds None, epoll_fd = efd\<rparr>)"

text \<open>What is closed and which nodes are freed.\<close>

definition fdevent_free :: "fdevents option \<Rightarrow> (int \<times> fdnode list) option" where
  "fdevent_free ev = map_option (\<lambda>ev. (epoll_fd ev, List.map_filter id (fdarray ev))) ev"

definition fdevent_register :: "fdevents \<Rightarrow> nat \<Rightarrow> nat \<Rightarrow> nat \<Rightarrow> (int \<times> fdevents) option" where
  "fdevent_register ev fd handler ctx =
     (if fd < length (fdarray ev) then
        Some (0, ev\<lparr>fdarray := (fdarray ev)[fd := Some (fdnode_init\<lparr>fn_handler := handler, fn_fd := int fd, fn_ctx := ctx\<rparr>)]\<rparr>)
      else None)"

definition fdevent_unregister :: "fdevents option \<Rightarrow> nat \<Rightarrow> (int \<times> fdevents option) option" where
  "fdevent_unregister ev fd =
     (case ev of
        None \<Rightarrow> Some (0, None)
      | Some ev \<Rightarrow> if fd < length (fdarray ev) then Some (0, Some (ev\<lparr>fdarray := (fdarray ev)[fd := None]\<rparr>)) else None)"

definition fd_node :: "fdevents \<Rightarrow> nat \<Rightarrow> fdnode option" where
  "fd_node ev fd = (if fd < length (fdarray ev) then fdarray ev ! fd else None)"

definition epoll_mask :: "emask \<Rightarrow> emask" where
  "epoll_mask events =
     (if events AND FDEVENT_IN \<noteq> 0 then EPOLLIN else 0) OR (if events AND FDEVENT_OUT \<noteq> 0 then EPOLLOUT else 0) OR
     (EPOLLERR OR EPOLLHUP)"

definition fdevent_event_add ::
  "'k epoll_ctl \<Rightarrow> fdevents \<Rightarrow> nat \<Rightarrow> emask \<Rightarrow> 'k \<Rightarrow> (int \<times> fdevents \<times> 'k) option" where
  "fdevent_event_add ctl ev fd events k =
     (case fd_node ev fd of
        None \<Rightarrow> None
      | Some fdn \<Rightarrow>
          (let add = fn_status fdn = - 1;
               (r, k) = ctl (if add then EPOLL_CTL_ADD else EPOLL_CTL_MOD) fd (epoll_mask events) k
           in if r \<noteq> 0 then Some (- 1, ev, k)
              else Some (0, if add then ev\<lparr>fdarray := (fdarray ev)[fd := Some (fdn\<lparr>fn_status := 1\<rparr>)]\<rparr> else ev, k)))"

definition fdevent_event_del :: "'k epoll_ctl \<Rightarrow> fdevents \<Rightarrow> nat \<Rightarrow> 'k \<Rightarrow> (int \<times> fdevents \<times> 'k) option" where
  "fdevent_event_del ctl ev fd k =
     (case fd_node ev fd of
        None \<Rightarrow> None
      | Some fdn \<Rightarrow>
          if fn_status fdn = - 1 then Some (0, ev, k)
          else (case ctl EPOLL_CTL_DEL fd 0 k of
                  (r, k) \<Rightarrow>
                    if r \<noteq> 0 then Some (- 1, ev, k)
                    else Some (0, ev\<lparr>fdarray := (fdarray ev)[fd := Some (fdn\<lparr>fn_status := - 1\<rparr>)]\<rparr>, k)))"

text \<open>
  One batch of events: a handler may change the table, the kernel and the world. The loop repeats such
  batches for ever.
\<close>

type_synonym ('k, 'w) fdevent_handler =
  "nat \<Rightarrow> nat \<Rightarrow> nat \<Rightarrow> emask \<Rightarrow> fdevents \<times> 'k \<times> 'w \<Rightarrow> (fdevents \<times> 'k \<times> 'w) option"

definition fdevent_bits :: "emask \<Rightarrow> emask" where
  "fdevent_bits e = (if e AND EPOLLIN \<noteq> 0 then FDEVENT_IN else 0) OR (if e AND EPOLLOUT \<noteq> 0 then FDEVENT_OUT else 0)"

fun fdevent_batch ::
  "('k, 'w) fdevent_handler \<Rightarrow> (nat \<times> emask) list \<Rightarrow> fdevents \<times> 'k \<times> 'w \<Rightarrow> (fdevents \<times> 'k \<times> 'w) option" where
  "fdevent_batch call [] s = Some s"
| "fdevent_batch call ((fd, e) # es) s =
     (case fd_node (fst s) fd of
        None \<Rightarrow> None
      | Some fdn \<Rightarrow>
          (case call (fn_handler fdn) fd (fn_ctx fdn) (fdevent_bits e) s of
             None \<Rightarrow> None
           | Some s \<Rightarrow> fdevent_batch call es s))"

text \<open>The rounds of the loop, as far as \<open>epoll_wait\<close> has returned.\<close>

fun fdevent_loop ::
  "('k, 'w) fdevent_handler \<Rightarrow> (nat \<times> emask) list list \<Rightarrow> fdevents \<times> 'k \<times> 'w \<Rightarrow> (fdevents \<times> 'k \<times> 'w) option" where
  "fdevent_loop call [] s = Some s"
| "fdevent_loop call (es # rounds) s =
     (case fdevent_batch call es s of None \<Rightarrow> None | Some s \<Rightarrow> fdevent_loop call rounds s)"

section \<open>Invariant\<close>

text \<open>A descriptor is watched exactly if it has a node whose status says so.\<close>

fun node_ok :: "fdnode option \<Rightarrow> emask option \<Rightarrow> bool" where
  "node_ok None m \<longleftrightarrow> m = None"
| "node_ok (Some n) m \<longleftrightarrow> (fn_status n = 1 \<and> m \<noteq> None) \<or> (fn_status n = - 1 \<and> m = None)"

definition fd_ok :: "('k \<Rightarrow> nat \<Rightarrow> emask option) \<Rightarrow> fdevents \<Rightarrow> 'k \<Rightarrow> bool" where
  "fd_ok watched ev k \<longleftrightarrow> (\<forall>fd. node_ok (fd_node ev fd) (watched k fd))"

lemma fd_node_update:
  "fd < length (fdarray ev) \<Longrightarrow> fd_node (ev\<lparr>fdarray := (fdarray ev)[fd := x]\<rparr>) fd' = (if fd' = fd then x else fd_node ev fd')"
  by (simp add: fd_node_def)

lemma fd_node_bound: "fd_node ev fd = Some n \<Longrightarrow> fd < length (fdarray ev)"
  by (simp add: fd_node_def split: if_splits)

lemma fd_okD: "fd_ok watched ev k \<Longrightarrow> fd_node ev fd = x \<Longrightarrow> node_ok x (watched k fd)"
  by (auto simp: fd_ok_def)

lemma fd_ok_cong: "fd_ok watched ev k \<Longrightarrow> watched k' = watched k \<Longrightarrow> fd_ok watched ev k'"
  by (simp add: fd_ok_def)

lemma epoll_likeD:
  assumes "epoll_like ctl watched" "ctl op fd e k = (r, k')"
  shows "r \<noteq> 0 \<Longrightarrow> watched k' = watched k"
    and "r = 0 \<Longrightarrow> watched k' = (watched k)(fd := (if op = EPOLL_CTL_DEL then None else Some e))"
    and "r = 0 \<Longrightarrow> watched k fd = None \<longleftrightarrow> op = EPOLL_CTL_ADD"
  using assms(1) [unfolded epoll_like_def, THEN spec, of op, THEN spec, of fd, THEN spec, of e, THEN spec, of k] assms(2) by simp_all

lemma fd_ok_init: "\<forall>fd. watched k fd = None \<Longrightarrow> fdevent_init n efd = Some ev \<Longrightarrow> fd_ok watched ev k"
  by (auto simp: fd_ok_def fd_node_def fdevent_init_def split: if_splits option.splits)

lemma fd_ok_upd:
  assumes "fd_ok watched ev k" "fd < length (fdarray ev)" "watched k' = (watched k)(fd := m)" "node_ok x m"
  shows "fd_ok watched (ev\<lparr>fdarray := (fdarray ev)[fd := x]\<rparr>) k'"
  using assms by (simp add: fd_ok_def fd_node_update)

lemma event_add_ok:
  assumes "epoll_like ctl watched" "fd_ok watched ev k" "fdevent_event_add ctl ev fd events k = Some (r, ev', k')"
  shows "fd_ok watched ev' k'" "r = 0 \<Longrightarrow> watched k' fd = Some (epoll_mask events)"
proof -
  obtain n where n: "fd_node ev fd = Some n" using assms(3) by (auto simp: fdevent_event_add_def split: option.splits)
  obtain c k1 where c: "ctl (if fn_status n = - 1 then EPOLL_CTL_ADD else EPOLL_CTL_MOD) fd (epoll_mask events) k = (c, k1)"
    by fastforce
  note d = epoll_likeD [OF assms(1) c]
  have k': "k' = k1" "r = (if c = 0 then 0 else - 1)"
      "ev' = (if c = 0 \<and> fn_status n = - 1 then ev\<lparr>fdarray := (fdarray ev)[fd := Some (n\<lparr>fn_status := 1\<rparr>)]\<rparr> else ev)"
    using assms(3) n c by (auto simp: fdevent_event_add_def Let_def split: if_splits)
  show "r = 0 \<Longrightarrow> watched k' fd = Some (epoll_mask events)" using k' d(2) by (auto split: if_splits)
  consider "c \<noteq> 0" | "c = 0" "fn_status n = - 1" | "c = 0" "fn_status n \<noteq> - 1" by blast
  then show "fd_ok watched ev' k'"
  proof cases
    case 1
    then show ?thesis using k' d(1) fd_ok_cong [OF assms(2)] by simp
  next
    case 2
    then show ?thesis using k' d(2) fd_node_bound [OF n] by (auto intro!: fd_ok_upd [OF assms(2)])
  next
    case 3
    then have "ev' = ev" "watched k' = (watched k)(fd \<mapsto> epoll_mask events)" using k' d(2) by auto
    then show ?thesis using 3 assms(2) n fd_okD [OF assms(2) n] by (auto simp: fd_ok_def)
  qed
qed

lemma event_del_ok:
  assumes "epoll_like ctl watched" "fd_ok watched ev k" "fdevent_event_del ctl ev fd k = Some (r, ev', k')"
  shows "fd_ok watched ev' k'" "r = 0 \<Longrightarrow> watched k' fd = None"
proof -
  obtain n where n: "fd_node ev fd = Some n" using assms(3) by (auto simp: fdevent_event_del_def split: option.splits)
  obtain c k1 where c: "ctl EPOLL_CTL_DEL fd 0 k = (c, k1)" by fastforce
  note d = epoll_likeD [OF assms(1) c] and m = fd_okD [OF assms(2) n]
  have "(fn_status n = - 1 \<and> r = 0 \<and> ev' = ev \<and> k' = k) \<or> (c \<noteq> 0 \<and> r = - 1 \<and> ev' = ev \<and> k' = k1) \<or>
     (c = 0 \<and> r = 0 \<and> ev' = ev\<lparr>fdarray := (fdarray ev)[fd := Some (n\<lparr>fn_status := - 1\<rparr>)]\<rparr> \<and> k' = k1)"
    using assms(3) n c by (auto simp: fdevent_event_del_def split: if_splits)
  then show "fd_ok watched ev' k'" "r = 0 \<Longrightarrow> watched k' fd = None"
    using d(1, 2) m fd_ok_cong [OF assms(2)] fd_ok_upd [OF assms(2) fd_node_bound [OF n], of k1 None "Some (n\<lparr>fn_status := - 1\<rparr>)"] assms(2)
    by auto
qed

lemma register_ok:
  assumes "fd_ok watched ev k" "watched k fd = None" "fdevent_register ev fd h c = Some (r, ev')"
  shows "fd_ok watched ev' k"
  using assms fd_ok_upd [OF assms(1), of fd k None] fun_upd_idem [of "watched k" fd None]
  by (auto simp: fdevent_register_def fdnode_init_def split: if_splits)

lemma unregister_ok:
  assumes "fd_ok watched ev k" "watched k fd = None" "fdevent_unregister (Some ev) fd = Some (r, Some ev')"
  shows "fd_ok watched ev' k"
  using assms fd_ok_upd [OF assms(1), of fd k None None] fun_upd_idem [of "watched k" fd None]
  by (auto simp: fdevent_unregister_def split: if_splits)

section \<open>Properties\<close>

datatype fd_op = Register nat nat nat | Unregister nat | Add nat emask | Del nat

text \<open>One call; a table that has been freed is not used again.\<close>

fun fd_call :: "'k epoll_ctl \<Rightarrow> fd_op \<Rightarrow> fdevents \<times> 'k \<Rightarrow> (fdevents \<times> 'k) option" where
  "fd_call ctl (Register fd h c) (ev, k) = map_option (\<lambda>(r, ev). (ev, k)) (fdevent_register ev fd h c)"
| "fd_call ctl (Unregister fd) (ev, k) =
     (case fdevent_unregister (Some ev) fd of Some (r, Some ev) \<Rightarrow> Some (ev, k) | _ \<Rightarrow> None)"
| "fd_call ctl (Add fd e) (ev, k) = map_option snd (fdevent_event_add ctl ev fd e k)"
| "fd_call ctl (Del fd) (ev, k) = map_option snd (fdevent_event_del ctl ev fd k)"

fun fd_calls :: "'k epoll_ctl \<Rightarrow> fd_op list \<Rightarrow> fdevents \<times> 'k \<Rightarrow> (fdevents \<times> 'k) list option" where
  "fd_calls ctl [] s = Some [s]"
| "fd_calls ctl (x # xs) s = (case fd_call ctl x s of None \<Rightarrow> None | Some s' \<Rightarrow> map_option (\<lambda>l. s # l) (fd_calls ctl xs s'))"

text \<open>A descriptor is registered and unregistered only while it is not watched.\<close>

fun fd_careful :: "('k \<Rightarrow> nat \<Rightarrow> emask option) \<Rightarrow> fd_op \<Rightarrow> 'k \<Rightarrow> bool" where
  "fd_careful watched (Register fd h c) k \<longleftrightarrow> watched k fd = None"
| "fd_careful watched (Unregister fd) k \<longleftrightarrow> watched k fd = None"
| "fd_careful watched _ k \<longleftrightarrow> True"

lemma fd_call_ok:
  assumes "epoll_like ctl watched" "fd_ok watched (fst s) (snd s)" "fd_careful watched x (snd s)" "fd_call ctl x s = Some s'"
  shows "fd_ok watched (fst s') (snd s')"
proof (cases x)
  case (Register fd h c)
  then show ?thesis using assms register_ok [of watched "fst s" "snd s" fd h c] by (cases s) auto
next
  case (Unregister fd)
  then show ?thesis using assms unregister_ok [of watched "fst s" "snd s" fd]
    by (cases s) (auto split: option.splits)
next
  case (Add fd e)
  then show ?thesis using assms event_add_ok(1) [OF assms(1, 2), of fd e] by (cases s) auto
next
  case (Del fd)
  then show ?thesis using assms event_del_ok(1) [OF assms(1, 2), of fd] by (cases s) auto
qed

lemma fd_calls_ok:
  assumes "epoll_like ctl watched" "fd_calls ctl xs s = Some ss" "fd_ok watched (fst s) (snd s)"
    and "\<forall>i < length xs. fd_careful watched (xs ! i) (snd (ss ! i))"
  shows "\<forall>s \<in> set ss. fd_ok watched (fst s) (snd s)"
  using assms(2-)
proof (induction xs arbitrary: s ss)
  case (Cons x xs)
  then obtain s' l where c: "fd_call ctl x s = Some s'" "fd_calls ctl xs s' = Some l" "ss = s # l"
    by (auto split: option.splits)
  have "fd_careful watched x (snd s)" using Cons.prems(3) c(3) by (metis length_Cons nth_Cons_0 zero_less_Suc)
  then have "fd_ok watched (fst s') (snd s')" using fd_call_ok [OF assms(1)] Cons.prems(2) c(1) by blast
  moreover have "\<forall>i < length xs. fd_careful watched (xs ! i) (snd (l ! i))"
    using Cons.prems(3) c(3) by (metis Suc_less_eq length_Cons nth_Cons_Suc)
  ultimately show ?case using Cons.IH [OF c(2)] Cons.prems(2) c(3) by simp
qed auto


text \<open>A kernel that never fails, whose state is its list of watched descriptors.\<close>

definition map_epoll :: "(nat \<Rightarrow> emask option) epoll_ctl" where
  "map_epoll op fd e k =
     (if (k fd = None) \<noteq> (op = EPOLL_CTL_ADD) then (- 1, k)
      else (0, k(fd := (if op = EPOLL_CTL_DEL then None else Some e))))"


end
