(* ===== verification/Spd_Io.thy ===== *)
theory Spd_Io
  imports Spd_Fdevent Spd_Times
begin

text \<open>
  The event loops of \<open>io.c\<close> and \<open>io.h\<close>, for \<open>poll\<close> and for \<open>epoll\<close>, and the waits of \<open>poll.c\<close>. An entry of
  the \<open>poll\<close> variant is known by the address of a number, which is the index of the entry and moves with
  it; callbacks and data are numbers. Access outside an array, and to a number that is not allocated,
  has no result.
\<close>

section \<open>Contexts\<close>

record pollfd =
  pf_fd :: int
  pf_events :: emask
  pf_revents :: emask

record io_rec =
  io_callback :: "nat option"
  io_data :: nat
  io_id :: "nat option"

record io_context =
  fds :: "pollfd list"
  ior :: "io_rec list"
  fdcnt :: nat
  maxfdcnt :: nat
  current_ioc :: int
  needshrink :: bool
  ids :: "nat \<Rightarrow> nat option"

definition GROW_SHRINK_SIZE :: nat where "GROW_SHRINK_SIZE = 512"

text \<open>A semicolon ends the test for memory, and the function, in both cases.\<close>

definition spd_io_context_create :: "bool \<Rightarrow> io_context option" where
  "spd_io_context_create mem = None"

text \<open>
  What \<open>realloc\<close> does. The new address of \<open>fds\<close> is not stored: when the array has moved, the old one is
  freed memory, here an array without elements. New records hold what \<open>junk\<close> gives.
\<close>

datatype realloc = NoMemory | InPlace | Moved

definition io_grow :: "realloc \<Rightarrow> realloc \<Rightarrow> io_rec list \<Rightarrow> pollfd list \<Rightarrow> io_context \<Rightarrow> int \<times> io_context" where
  "io_grow r1 r2 junk1 junk2 ioc =
     (let m = maxfdcnt ioc + GROW_SHRINK_SIZE
      in if r1 = NoMemory then (- 1, ioc)
         else
           (let ioc' = ioc\<lparr>ior := take (m + 1) (ior ioc @ junk1)\<rparr>
            in if r2 = NoMemory then (- 1, ioc')
               else (0, ioc'\<lparr>maxfdcnt := m, fds := (if r2 = Moved then [] else take (m + 1) (fds ioc @ junk2))\<rparr>)))"

text \<open>
  The size of the number is read through its own address, and the counter is not increased. \<open>a\<close> is the
  address of new memory.
\<close>

definition spd_io_context_add ::
  "(io_context \<Rightarrow> int \<times> io_context) \<Rightarrow> nat \<Rightarrow> io_context \<Rightarrow> int \<Rightarrow> nat option \<Rightarrow> nat \<Rightarrow> emask \<Rightarrow>
   (nat option \<times> io_context) option" where
  "spd_io_context_add grow a ioc fd iocb dat events =
     (case (if fdcnt ioc > maxfdcnt ioc then grow ioc else (0, ioc)) of
        (r, ioc) \<Rightarrow>
          if r \<noteq> 0 then Some (None, ioc)
          else if fdcnt ioc \<ge> length (fds ioc) \<or> fdcnt ioc \<ge> length (ior ioc) then None
          else
            (let i = fdcnt ioc
             in case io_id (ior ioc ! i) of
                  None \<Rightarrow> None
                | Some b \<Rightarrow>
                    (case ids ioc b of
                       None \<Rightarrow> None
                     | Some n \<Rightarrow>
                         if n < 4 then None
                         else Some (Some a, ioc\<lparr>fds := (fds ioc)[i := \<lparr>pf_fd = fd, pf_events = events, pf_revents = 0\<rparr>],
                                ior := (ior ioc)[i := \<lparr>io_callback = iocb, io_data = dat, io_id = Some a\<rparr>],
                                ids := (ids ioc)(a \<mapsto> i)\<rparr>))))"

definition spd_io_context_change ::
  "io_context \<Rightarrow> nat \<Rightarrow> int \<Rightarrow> nat option \<Rightarrow> nat \<Rightarrow> emask \<Rightarrow> (nat option \<times> io_context) option" where
  "spd_io_context_change ioc a fd iocb dat events =
     (case ids ioc a of
        None \<Rightarrow> None
      | Some i \<Rightarrow>
          if i > fdcnt ioc then Some (None, ioc)
          else if i \<ge> length (fds ioc) \<or> i \<ge> length (ior ioc) then None
          else
            (let p = fds ioc ! i; r = ior ioc ! i;
                 p = (if fd > - 1 then p\<lparr>pf_fd := fd\<rparr> else p);
                 r = (if iocb \<noteq> None then r\<lparr>io_callback := iocb\<rparr> else r);
                 p = (if events \<noteq> 0 then p\<lparr>pf_events := events\<rparr> else p);
                 r = (if dat \<noteq> 0 then r\<lparr>io_data := dat\<rparr> else r)
             in Some (Some a, ioc\<lparr>fds := (fds ioc)[i := p], ior := (ior ioc)[i := r]\<rparr>)))"

fun shrink_loop ::
  "nat list \<Rightarrow> nat \<Rightarrow> pollfd list \<times> io_rec list \<times> (nat \<Rightarrow> nat option) \<Rightarrow>
   (nat \<times> pollfd list \<times> io_rec list \<times> (nat \<Rightarrow> nat option)) option" where
  "shrink_loop [] putto s = Some (putto, s)"
| "shrink_loop (getfrom # gs) putto (ps, rs, m) =
     (case io_id (rs ! getfrom) of
        None \<Rightarrow> shrink_loop gs putto (ps, rs, m)
      | Some a \<Rightarrow>
          if getfrom \<noteq> putto then
            (if m a = None then None
             else shrink_loop gs (putto + 1) (ps[putto := ps ! getfrom], rs[putto := rs ! getfrom], m(a \<mapsto> putto)))
          else shrink_loop gs (putto + 1) (ps, rs, m))"

definition io_shrink :: "io_context \<Rightarrow> io_context option" where
  "io_shrink ioc =
     (if fdcnt ioc > length (fds ioc) \<or> fdcnt ioc > length (ior ioc) then None
      else case shrink_loop [0 ..< fdcnt ioc] 0 (fds ioc, ior ioc, ids ioc) of
             None \<Rightarrow> None
           | Some (putto, ps, rs, m) \<Rightarrow>
               Some (ioc\<lparr>fds := ps, ior := rs, ids := m, fdcnt := putto, needshrink := False\<rparr>))"

definition spd_io_context_remove :: "io_context \<Rightarrow> nat option \<Rightarrow> (int \<times> io_context) option" where
  "spd_io_context_remove ioc a =
     (case a of
        None \<Rightarrow> Some (- 1, ioc)
      | Some b \<Rightarrow>
          if fdcnt ioc > length (fds ioc) \<or> fdcnt ioc > length (ior ioc) then None
          else case find (\<lambda>x. io_id (ior ioc ! x) = Some b) [0 ..< fdcnt ioc] of
                 None \<Rightarrow> Some (- 1, ioc)
               | Some x \<Rightarrow>
                   (let ioc = ioc\<lparr>ids := (ids ioc)(b := None), ior := (ior ioc)[x := (ior ioc ! x)\<lparr>io_id := None\<rparr>],
                          fds := (fds ioc)[x := (fds ioc ! x)\<lparr>pf_events := 0, pf_revents := 0\<rparr>], needshrink := True\<rparr>
                    in map_option (Pair 0) (if current_ioc ioc = - 1 then io_shrink ioc else Some ioc)))"

section \<open>Waiting\<close>

text \<open>A callback gets the address, the descriptor, the events and the data, and may change the context.\<close>

type_synonym 'w io_call =
  "nat \<Rightarrow> nat \<Rightarrow> int \<Rightarrow> emask \<Rightarrow> nat \<Rightarrow> io_context \<times> 'w \<Rightarrow> (int \<times> io_context \<times> 'w) option"

fun serve_loop :: "'w io_call \<Rightarrow> nat list \<Rightarrow> io_context \<times> 'w \<Rightarrow> (io_context \<times> 'w) option" where
  "serve_loop call [] s = Some s"
| "serve_loop call (x # xs) (ioc, w) =
     (if x \<ge> length (fds ioc) \<or> x \<ge> length (ior ioc) then None
      else if pf_revents (fds ioc ! x) = 0 then serve_loop call xs (ioc, w)
      else case io_id (ior ioc ! x) of
        None \<Rightarrow> serve_loop call xs (ioc, w)
      | Some a \<Rightarrow>
          (case ids ioc a of
             None \<Rightarrow> None
           | Some n \<Rightarrow>
               (let ioc = ioc\<lparr>current_ioc := int n\<rparr>
                in case io_callback (ior ioc ! x) of
                     None \<Rightarrow> serve_loop call xs (ioc, w)
                   | Some c \<Rightarrow>
                       (case call c a (pf_fd (fds ioc ! x)) (pf_revents (fds ioc ! x)) (io_data (ior ioc ! x)) (ioc, w) of
                          None \<Rightarrow> None
                        | Some (r, ioc, w) \<Rightarrow>
                            (case (if r = 0 then map_option snd (spd_io_context_remove ioc (io_id (ior ioc ! x))) else Some ioc) of
                               None \<Rightarrow> None
                             | Some ioc \<Rightarrow> serve_loop call xs (ioc\<lparr>current_ioc := - 1\<rparr>, w))))))"

text \<open>\<open>poll\<close> gives its result and the events that have occurred on each of the descriptors it is handed.\<close>

definition spd_io_context_wait ::
  "(pollfd list \<Rightarrow> int \<times> emask list) \<Rightarrow> 'w io_call \<Rightarrow> io_context \<times> 'w \<Rightarrow> (int \<times> io_context \<times> 'w) option" where
  "spd_io_context_wait poll call s =
     (let ioc = fst s; (res, rs) = poll (take (fdcnt ioc) (fds ioc));
          ioc = ioc\<lparr>fds := map2 (\<lambda>p r. p\<lparr>pf_revents := r\<rparr>) (take (fdcnt ioc) (fds ioc)) rs @ drop (fdcnt ioc) (fds ioc)\<rparr>
      in if res \<le> 0 then Some (res, ioc, snd s)
         else case serve_loop call [0 ..< fdcnt ioc] (ioc, snd s) of
                None \<Rightarrow> None
              | Some (ioc, w) \<Rightarrow>
                  map_option (\<lambda>ioc. (res, ioc, w)) (if needshrink ioc then io_shrink ioc else Some ioc))"

section \<open>The variant for epoll\<close>

record spd_io_rec =
  ir_callback :: "nat option"
  ir_data :: nat
  ir_fd :: int

definition spd_io_init :: "spd_io_rec \<Rightarrow> nat option \<Rightarrow> nat \<Rightarrow> spd_io_rec" where
  "spd_io_init r callback dat = r\<lparr>ir_callback := callback, ir_data := dat, ir_fd := - 1\<rparr>"

definition spd_ioactive :: "spd_io_rec \<Rightarrow> bool" where
  "spd_ioactive r \<longleftrightarrow> ir_fd r \<noteq> - 1"

text \<open>Records are kept under their addresses, which are also the data of the kernel's events.\<close>

definition spd_io_add ::
  "'k epoll_ctl \<Rightarrow> (nat \<Rightarrow> spd_io_rec) \<Rightarrow> nat \<Rightarrow> nat \<Rightarrow> emask \<Rightarrow> 'k \<Rightarrow> int \<times> (nat \<Rightarrow> spd_io_rec) \<times> 'k" where
  "spd_io_add ctl recs a fd events k =
     (case ctl EPOLL_CTL_ADD fd events k of
        (r, k) \<Rightarrow> (r, if r = 0 then recs(a := (recs a)\<lparr>ir_fd := int fd\<rparr>) else recs, k))"

definition spd_io_remove ::
  "'k epoll_ctl \<Rightarrow> (nat \<Rightarrow> spd_io_rec) \<Rightarrow> nat \<Rightarrow> 'k \<Rightarrow> int \<times> (nat \<Rightarrow> spd_io_rec) \<times> 'k" where
  "spd_io_remove ctl recs a k =
     (if ir_fd (recs a) < 0 then (- 1, recs, k)
      else case ctl EPOLL_CTL_DEL (nat (ir_fd (recs a))) 0 k of
             (r, k) \<Rightarrow> (r, if r = 0 then recs(a := (recs a)\<lparr>ir_fd := - 1\<rparr>) else recs, k))"

text \<open>\<open>epoll_wait\<close> gave these events, at most 16, or an error as a negative number.\<close>

fun spd_io_wait ::
  "'k epoll_ctl \<Rightarrow> (nat \<Rightarrow> nat \<Rightarrow> int \<Rightarrow> emask \<Rightarrow> nat \<Rightarrow> (nat \<Rightarrow> spd_io_rec) \<times> 'k \<times> 'w \<Rightarrow> int \<times> (nat \<Rightarrow> spd_io_rec) \<times> 'k \<times> 'w) \<Rightarrow>
   (nat \<times> emask) list \<Rightarrow> (nat \<Rightarrow> spd_io_rec) \<times> 'k \<times> 'w \<Rightarrow> (nat \<Rightarrow> spd_io_rec) \<times> 'k \<times> 'w" where
  "spd_io_wait ctl call [] s = s"
| "spd_io_wait ctl call ((a, e) # es) s =
     (case ir_callback (fst s a) of
        None \<Rightarrow> spd_io_wait ctl call es s
      | Some c \<Rightarrow>
          (case call c a (ir_fd (fst s a)) e (ir_data (fst s a)) s of
             (r, recs, k, w) \<Rightarrow>
               if r = 0 then (case spd_io_remove ctl recs a k of (_, recs, k) \<Rightarrow> spd_io_wait ctl call es (recs, k, w))
               else spd_io_wait ctl call es (recs, k, w)))"

section \<open>Waiting for one descriptor\<close>

definition POLLIN :: emask where "POLLIN = 1"
definition POLLPRI :: emask where "POLLPRI = 2"
definition POLLOUT :: emask where "POLLOUT = 4"

text \<open>The events are combined by a logical or, which gives 1.\<close>

definition spd_waitfor_pollin :: "(pollfd list \<Rightarrow> int \<Rightarrow> int) \<Rightarrow> int \<Rightarrow> int \<Rightarrow> int" where
  "spd_waitfor_pollin poll fd ms =
     poll [\<lparr>pf_fd = fd, pf_events = (if POLLIN \<noteq> 0 \<or> POLLPRI \<noteq> 0 then 1 else 0), pf_revents = 0\<rparr>] ms"

text \<open>What \<open>poll\<close> returns, whether its error is one to try again after, and the time afterwards.\<close>

partial_function (option) pollout_loop ::
  "(pollfd list \<Rightarrow> int \<Rightarrow> 'w \<Rightarrow> int \<times> bool \<times> timeval \<times> 'w) \<Rightarrow> pollfd list \<Rightarrow> int \<Rightarrow> timeval \<Rightarrow> int \<Rightarrow> 'w \<Rightarrow> (int \<times> 'w) option" where
  "pollout_loop poll pfds ms start escap w =
     (case poll pfds (ms - escap) w of
        (ret, retry, now, w) \<Rightarrow>
          if ret > 0 then Some (0, w)
          else if ret = 0 then Some (- 1, w)
          else if ret = - 1 then
            (if retry then
               (if spd_tvdiff_ms now start > ms then Some (- 1, w)
                else pollout_loop poll pfds ms start (spd_tvdiff_ms now start) w)
             else Some (- 1, w))
          else if spd_tvdiff_ms now start \<ge> ms then Some (- 1, w)
          else pollout_loop poll pfds ms start (spd_tvdiff_ms now start) w)"

definition spd_waitfor_pollout ::
  "(pollfd list \<Rightarrow> int \<Rightarrow> 'w \<Rightarrow> int \<times> bool \<times> timeval \<times> 'w) \<Rightarrow> timeval \<Rightarrow> int \<Rightarrow> int \<Rightarrow> 'w \<Rightarrow> (int \<times> 'w) option" where
  "spd_waitfor_pollout poll start fd ms w =
     pollout_loop poll [\<lparr>pf_fd = fd, pf_events = POLLOUT, pf_revents = 0\<rparr>] ms start 0 w"

section \<open>Lemmas\<close>

type_synonym io_cell = "pollfd \<times> io_rec"

definition io_cells :: "io_context \<Rightarrow> io_cell list" where
  "io_cells ioc = zip (take (fdcnt ioc) (fds ioc)) (take (fdcnt ioc) (ior ioc))"

definition used :: "io_cell \<Rightarrow> bool" where
  "used c \<longleftrightarrow> io_id (snd c) \<noteq> None"

text \<open>The arrays are large enough, and the number of an entry in use is its index.\<close>

definition io_linked :: "io_context \<Rightarrow> bool" where
  "io_linked ioc \<longleftrightarrow> fdcnt ioc \<le> length (fds ioc) \<and> fdcnt ioc \<le> length (ior ioc) \<and>
     (\<forall>x < fdcnt ioc. \<forall>a. io_id (ior ioc ! x) = Some a \<longrightarrow> ids ioc a = Some x)"

definition io_ok :: "io_context \<Rightarrow> bool" where
  "io_ok ioc \<longleftrightarrow> io_linked ioc \<and> current_ioc ioc = - 1 \<and> \<not> needshrink ioc \<and> (\<forall>c \<in> set (io_cells ioc). used c)"

lemma cell_split:
  "g < n \<Longrightarrow> n \<le> length ps \<Longrightarrow> n \<le> length rs \<Longrightarrow>
   zip (drop g (take n ps)) (drop g (take n rs)) = (ps ! g, rs ! g) # zip (drop (Suc g) (take n ps)) (drop (Suc g) (take n rs))"
  by (simp add: Cons_nth_drop_Suc [symmetric])

lemma take_put:
  "p < length ps \<Longrightarrow> p < length rs \<Longrightarrow>
   zip (take (Suc p) (ps[p := v])) (take (Suc p) (rs[p := w])) = zip (take p ps) (take p rs) @ [(v, w)]"
  by (simp add: take_Suc_conv_app_nth)

lemma shrink_loop_cells:
  assumes "p \<le> g" "g \<le> n" "n \<le> length ps" "n \<le> length rs"
    and "\<forall>i < p. \<exists>a. io_id (rs ! i) = Some a \<and> m a = Some i"
    and "\<forall>x. g \<le> x \<and> x < n \<longrightarrow> (\<forall>a. io_id (rs ! x) = Some a \<longrightarrow> m a = Some x)"
  shows "\<exists>p' ps' rs' m'. shrink_loop [g ..< n] p (ps, rs, m) = Some (p', ps', rs', m') \<and> p' \<le> n \<and>
     length ps' = length ps \<and> length rs' = length rs \<and>
     zip (take p' ps') (take p' rs') = zip (take p ps) (take p rs) @ filter used (zip (drop g (take n ps)) (drop g (take n rs))) \<and>
     (\<forall>i < p'. \<exists>a. io_id (rs' ! i) = Some a \<and> m' a = Some i)"
  using assms
proof (induction "n - g" arbitrary: g p ps rs m)
  case 0
  then show ?case by simp
next
  case (Suc k)
  then have g: "g < n" and up: "[g ..< n] = g # [Suc g ..< n]" and k: "k = n - Suc g" by (simp_all add: upt_conv_Cons)
  note split = cell_split [OF g Suc.prems(3, 4)]
  show ?case
  proof (cases "io_id (rs ! g)")
    case None
    then show ?thesis using Suc.hyps(1) [OF k, of p ps rs m] Suc.prems g up split by (simp add: used_def)
  next
    case (Some a)
    have ma: "m a = Some g" using Suc.prems(6) g Some by simp
    show ?thesis
    proof (cases "g = p")
      case True
      have "\<forall>i < Suc p. \<exists>a. io_id (rs ! i) = Some a \<and> m a = Some i"
        using Suc.prems(5) Some ma True by (auto simp: less_Suc_eq)
      then show ?thesis using Suc.hyps(1) [OF k, of "Suc p" ps rs m] Suc.prems g up split Some True
        by (simp add: used_def take_Suc_conv_app_nth)
    next
      case False
      let ?ps = "ps[p := ps ! g]" and ?rs = "rs[p := rs ! g]" and ?m = "m(a \<mapsto> p)"
      have "\<forall>i < Suc p. \<exists>a. io_id (?rs ! i) = Some a \<and> ?m a = Some i"
        using Suc.prems(1-5) Some ma False g by (fastforce simp: less_Suc_eq nth_list_update)
      moreover have "\<forall>x. Suc g \<le> x \<and> x < n \<longrightarrow> (\<forall>b. io_id (?rs ! x) = Some b \<longrightarrow> ?m b = Some x)"
      proof (intro allI impI)
        fix x b assume x: "Suc g \<le> x \<and> x < n" "io_id (?rs ! x) = Some b"
        then have "m b = Some x" using Suc.prems(1, 6) by auto
        then show "?m b = Some x" using ma x(1) by auto
      qed
      moreover have "zip (take (Suc p) ?ps) (take (Suc p) ?rs) = zip (take p ps) (take p rs) @ [(ps ! g, rs ! g)]"
        using Suc.prems g False by (intro take_put) auto
      moreover have "drop (Suc g) (take n ?ps) = drop (Suc g) (take n ps)" "drop (Suc g) (take n ?rs) = drop (Suc g) (take n rs)"
        using Suc.prems(1) by (simp_all add: drop_take drop_update_cancel)
      ultimately show ?thesis using Suc.hyps(1) [OF k, of "Suc p" ?ps ?rs ?m] Suc.prems(1-4) g up split Some False ma
        by (simp add: used_def)
    qed
  qed
qed

lemma io_shrink_cells:
  assumes "io_linked ioc"
  shows "\<exists>ioc'. io_shrink ioc = Some ioc' \<and> io_cells ioc' = filter used (io_cells ioc) \<and> io_linked ioc' \<and>
     \<not> needshrink ioc' \<and> current_ioc ioc' = current_ioc ioc \<and> (\<forall>c \<in> set (io_cells ioc'). used c)"
proof -
  let ?n = "fdcnt ioc"
  have n: "?n \<le> length (fds ioc)" "?n \<le> length (ior ioc)" using assms by (simp_all add: io_linked_def)
  have "\<forall>x. 0 \<le> x \<and> x < ?n \<longrightarrow> (\<forall>a. io_id (ior ioc ! x) = Some a \<longrightarrow> ids ioc a = Some x)"
    using assms by (simp add: io_linked_def)
  from shrink_loop_cells [OF le0 le0 n _ this] obtain p' ps' rs' m' where s:
    "shrink_loop [0 ..< ?n] 0 (fds ioc, ior ioc, ids ioc) = Some (p', ps', rs', m')" "p' \<le> ?n"
    "length ps' = length (fds ioc)" "length rs' = length (ior ioc)"
    "zip (take p' ps') (take p' rs') = filter used (io_cells ioc)"
    "\<forall>i < p'. \<exists>a. io_id (rs' ! i) = Some a \<and> m' a = Some i"
    by (auto simp: io_cells_def)
  let ?ioc = "ioc\<lparr>fds := ps', ior := rs', ids := m', fdcnt := p', needshrink := False\<rparr>"
  have "io_shrink ioc = Some ?ioc" using s(1) n by (simp add: io_shrink_def)
  moreover have "io_cells ?ioc = filter used (io_cells ioc)" using s(5) by (simp add: io_cells_def)
  moreover have "io_linked ?ioc" using s n by (fastforce simp: io_linked_def)
  ultimately show ?thesis by auto
qed

text \<open>Callbacks that leave the context alone: what each returns, and a list of the calls.\<close>

type_synonym io_ret = "nat \<Rightarrow> int \<Rightarrow> emask \<Rightarrow> nat \<Rightarrow> int"

definition plain_call :: "io_ret \<Rightarrow> (nat \<times> int \<times> emask \<times> nat) list io_call" where
  "plain_call ret c a fd e d s = (case s of (ioc, w) \<Rightarrow> Some (ret c fd e d, ioc, w @ [(c, fd, e, d)]))"

definition called :: "io_cell \<Rightarrow> (nat \<times> int \<times> emask \<times> nat) list" where
  "called cell = (case cell of (p, r) \<Rightarrow>
     if pf_revents p \<noteq> 0 \<and> io_id r \<noteq> None then [(the (io_callback r), pf_fd p, pf_revents p, io_data r)] else [])"

definition gone :: "io_ret \<Rightarrow> io_cell \<Rightarrow> bool" where
  "gone ret cell = (case called cell of [(c, fd, e, d)] \<Rightarrow> ret c fd e d = 0 | _ \<Rightarrow> False)"

definition clear :: "io_ret \<Rightarrow> io_cell \<Rightarrow> io_cell" where
  "clear ret cell = (if gone ret cell
     then ((fst cell)\<lparr>pf_events := 0, pf_revents := 0\<rparr>, (snd cell)\<lparr>io_id := None\<rparr>) else cell)"

lemma remove_found:
  assumes "io_linked ioc" "x < fdcnt ioc" "io_id (ior ioc ! x) = Some a" "current_ioc ioc \<noteq> - 1"
  shows "spd_io_context_remove ioc (Some a) =
     Some (0, ioc\<lparr>ids := (ids ioc)(a := None), ior := (ior ioc)[x := (ior ioc ! x)\<lparr>io_id := None\<rparr>],
       fds := (fds ioc)[x := (fds ioc ! x)\<lparr>pf_events := 0, pf_revents := 0\<rparr>], needshrink := True\<rparr>)"
proof -
  have u: "io_id (ior ioc ! y) = Some a \<longleftrightarrow> y = x" if "y < fdcnt ioc" for y
    using assms(1-3) that unfolding io_linked_def by (metis option.inject)
  have "find (\<lambda>y. io_id (ior ioc ! y) = Some a) [0 ..< fdcnt ioc] = find (\<lambda>y. y = x) [0 ..< fdcnt ioc]"
    using u by (intro find_cong) auto
  also have "\<dots> = Some x" using assms(2) by (simp add: find_Some_iff) (rule exI [of _ x], simp)
  finally show ?thesis using assms by (simp add: spd_io_context_remove_def io_linked_def Let_def)
qed

lemma linked_clear:
  assumes "io_linked ioc" "g < fdcnt ioc" "io_id (ior ioc ! g) = Some a"
  shows "io_linked (ioc\<lparr>ids := (ids ioc)(a := None), ior := (ior ioc)[g := (ior ioc ! g)\<lparr>io_id := None\<rparr>],
     fds := (fds ioc)[g := p]\<rparr>)"
proof -
  have "ids ioc b = Some x \<and> b \<noteq> a" if "x < fdcnt ioc" "x \<noteq> g" "io_id (ior ioc ! x) = Some b" for x b
    using assms that unfolding io_linked_def by (metis option.inject)
  then show ?thesis using assms by (auto simp: io_linked_def nth_list_update)
qed

text \<open>One entry: the step of the loop, on the cells.\<close>

lemma serve_step:
  assumes "io_linked ioc" "current_ioc ioc = - 1" "g < fdcnt ioc" "io_callback (ior ioc ! g) \<noteq> None"
  shows "\<exists>ioc'. serve_loop (plain_call ret) (g # xs) (ioc, w) = serve_loop (plain_call ret) xs (ioc', w @ called (io_cells ioc ! g)) \<and>
     io_linked ioc' \<and> current_ioc ioc' = - 1 \<and> fdcnt ioc' = fdcnt ioc \<and>
     io_cells ioc' = (io_cells ioc)[g := clear ret (io_cells ioc ! g)] \<and>
     (needshrink ioc' \<longleftrightarrow> needshrink ioc \<or> gone ret (io_cells ioc ! g))"
proof -
  let ?p = "fds ioc ! g" and ?r = "ior ioc ! g"
  have n: "g < length (fds ioc)" "g < length (ior ioc)" "fdcnt ioc \<le> length (fds ioc)" "fdcnt ioc \<le> length (ior ioc)"
    using assms by (auto simp: io_linked_def)
  then have c: "io_cells ioc ! g = (?p, ?r)" using assms(3) by (simp add: io_cells_def)
  have l: "g < length (io_cells ioc)" using assms(3) n by (simp add: io_cells_def)
  show ?thesis
  proof (cases "pf_revents ?p = 0 \<or> io_id ?r = None")
    case True
    then have "called (io_cells ioc ! g) = []" "clear ret (io_cells ioc ! g) = io_cells ioc ! g" "\<not> gone ret (io_cells ioc ! g)"
      using c by (auto simp: called_def clear_def gone_def)
    then show ?thesis using True assms n by (intro exI [of _ ioc]) (auto split: option.splits)
  next
    case False
    then obtain a where a: "io_id ?r = Some a" by auto
    have ia: "ids ioc a = Some g" using assms(1, 3) a by (auto simp: io_linked_def)
    obtain f where f: "io_callback ?r = Some f" using assms(4) by auto
    have called: "called (io_cells ioc ! g) = [(f, pf_fd ?p, pf_revents ?p, io_data ?r)]"
      using c f a False by (simp add: called_def)
    let ?ret = "ret f (pf_fd ?p) (pf_revents ?p) (io_data ?r)" and ?cur = "ioc\<lparr>current_ioc := int g\<rparr>"
    have gone: "gone ret (io_cells ioc ! g) \<longleftrightarrow> ?ret = 0" using called by (simp add: gone_def)
    show ?thesis
    proof (cases "?ret = 0")
      case False
      then have "serve_loop (plain_call ret) (g # xs) (ioc, w) =
          serve_loop (plain_call ret) xs (ioc\<lparr>current_ioc := - 1\<rparr>, w @ called (io_cells ioc ! g))"
        using called n a ia f \<open>\<not> (_ \<or> _)\<close> by (simp add: plain_call_def Let_def)
      moreover have "io_cells (ioc\<lparr>current_ioc := - 1\<rparr>) = io_cells ioc" "io_linked (ioc\<lparr>current_ioc := - 1\<rparr>)"
        using assms(1) by (simp_all add: io_cells_def io_linked_def)
      ultimately show ?thesis using False gone assms(2)
        by (intro exI [of _ "ioc\<lparr>current_ioc := - 1\<rparr>"]) (simp add: clear_def del: serve_loop.simps)
    next
      case True
      have cur: "io_linked ?cur" using assms(1) by (simp add: io_linked_def)
      let ?ioc = "ioc\<lparr>ids := (ids ioc)(a := None), ior := (ior ioc)[g := ?r\<lparr>io_id := None\<rparr>],
          fds := (fds ioc)[g := ?p\<lparr>pf_events := 0, pf_revents := 0\<rparr>], needshrink := True, current_ioc := - 1\<rparr>"
      have "spd_io_context_remove ?cur (Some a) = Some (0, ?ioc\<lparr>current_ioc := int g\<rparr>)"
        using remove_found [OF cur, of g a] assms(3) a by simp
      then have "serve_loop (plain_call ret) (g # xs) (ioc, w) =
          serve_loop (plain_call ret) xs (?ioc, w @ called (io_cells ioc ! g))"
        using called n a ia f assms(2) \<open>\<not> (_ \<or> _)\<close> True by (simp add: plain_call_def Let_def)
      moreover have "io_linked ?ioc"
        using linked_clear [OF assms(1, 3) a, of "?p\<lparr>pf_events := 0, pf_revents := 0\<rparr>"] by (simp add: io_linked_def)
      moreover have "io_cells ?ioc = (io_cells ioc)[g := clear ret (io_cells ioc ! g)]"
        using assms(3) c gone True by (simp add: io_cells_def clear_def take_update_swap update_zip)
      ultimately show ?thesis using True gone assms(2) by (intro exI [of _ ?ioc]) simp
    qed
  qed
qed

lemma serve_all:
  assumes "io_linked ioc" "current_ioc ioc = - 1" "g \<le> fdcnt ioc" "\<forall>x < fdcnt ioc. io_callback (snd (io_cells ioc ! x)) \<noteq> None"
  shows "\<exists>ioc'. serve_loop (plain_call ret) [g ..< fdcnt ioc] (ioc, w) =
       Some (ioc', w @ concat (map called (drop g (io_cells ioc)))) \<and>
     io_linked ioc' \<and> current_ioc ioc' = - 1 \<and>
     io_cells ioc' = take g (io_cells ioc) @ map (clear ret) (drop g (io_cells ioc)) \<and>
     (needshrink ioc' \<longleftrightarrow> needshrink ioc \<or> (\<exists>c \<in> set (drop g (io_cells ioc)). gone ret c))"
  using assms
proof (induction "fdcnt ioc - g" arbitrary: g ioc w)
  case 0
  moreover from 0 have "length (io_cells ioc) \<le> g" by (simp add: io_cells_def)
  ultimately show ?case by (intro exI [of _ ioc]) simp
next
  case (Suc k)
  then have g: "g < fdcnt ioc" and up: "[g ..< fdcnt ioc] = g # [Suc g ..< fdcnt ioc]" by (simp_all add: upt_conv_Cons)
  have l: "length (io_cells ioc) = fdcnt ioc" using Suc.prems(1) by (simp add: io_cells_def io_linked_def)
  then have d: "drop g (io_cells ioc) = io_cells ioc ! g # drop (Suc g) (io_cells ioc)" using g by (simp add: Cons_nth_drop_Suc)
  have "io_callback (ior ioc ! g) \<noteq> None"
    using Suc.prems(1, 4) g by (auto simp: io_cells_def io_linked_def dest: spec [of _ g])
  from serve_step [OF Suc.prems(1, 2) g this, where ret = ret and xs = "[Suc g ..< fdcnt ioc]" and w = w] obtain ioc1 where s:
    "serve_loop (plain_call ret) (g # [Suc g ..< fdcnt ioc]) (ioc, w) =
       serve_loop (plain_call ret) [Suc g ..< fdcnt ioc] (ioc1, w @ called (io_cells ioc ! g))"
    "io_linked ioc1" "current_ioc ioc1 = - 1" "fdcnt ioc1 = fdcnt ioc"
    "io_cells ioc1 = (io_cells ioc)[g := clear ret (io_cells ioc ! g)]"
    "needshrink ioc1 \<longleftrightarrow> needshrink ioc \<or> gone ret (io_cells ioc ! g)" by blast
  have clr: "io_callback (snd (clear ret c)) = io_callback (snd c)" for c by (simp add: clear_def)
  have cb: "\<forall>x < fdcnt ioc1. io_callback (snd (io_cells ioc1 ! x)) \<noteq> None"
  proof (intro allI impI)
    fix x assume "x < fdcnt ioc1"
    then show "io_callback (snd (io_cells ioc1 ! x)) \<noteq> None"
      using Suc.prems(4) s(4, 5) l clr by (cases "x = g") simp_all
  qed
  have dr: "drop (Suc g) (io_cells ioc1) = drop (Suc g) (io_cells ioc)" using s(5) by simp
  have tk: "take (Suc g) (io_cells ioc1) = take g (io_cells ioc) @ [clear ret (io_cells ioc ! g)]"
    using s(5) g l by (simp add: take_Suc_conv_app_nth)
  have "k = fdcnt ioc1 - Suc g" "Suc g \<le> fdcnt ioc1" using Suc.hyps(2) s(4) g by auto
  from Suc.hyps(1) [OF this(1) s(2, 3) this(2) cb, of "w @ called (io_cells ioc ! g)"]
  show ?case unfolding up s(1) d dr tk s(4) using s(6) by auto
qed

section \<open>Properties\<close>



end
