(* ===== verification/Spd_Tcp.thy ===== *)
theory Spd_Tcp
  imports Spd_Sockaddr "HOL-Library.Signed_Division"
begin

text \<open>
  Connections and threads: \<open>tcp_engine.c/h\<close>, \<open>thread.c/h\<close> and the echo server of \<open>tcpserver.c\<close>. What the
  system calls return is an argument of each operation; the world is the set of open descriptors, the
  set of running threads, and a count of the closings of descriptors that are not open. Joining a
  thread that does not run has no result. Setting options of sockets is left out.
\<close>

section \<open>Threads\<close>

text \<open>On a machine with pointers of 8 octets.\<close>

definition SPD_STACKSIZE :: nat where "SPD_STACKSIZE = (8 * 8 * 8 - 16) * 1024"
definition SPD_BACKGROUND_STACKSIZE :: nat where "SPD_BACKGROUND_STACKSIZE = (8 * 8 * 8 - 16) * 1024"

record pthread_attr =
  pa_inherit :: bool
  pa_stacksize :: nat
  pa_detached :: bool

text \<open>The attributes after \<open>pthread_attr_init\<close>, which of the settings succeed, and \<open>pthread_create\<close>.\<close>

record pthread_env =
  pe_init :: pthread_attr
  pe_inherit_ok :: bool
  pe_stack_ok :: bool
  pe_detach_ok :: bool
  pe_create :: "pthread_attr \<Rightarrow> int"

definition spd_pthread_create_stack :: "pthread_env \<Rightarrow> pthread_attr option \<Rightarrow> nat \<Rightarrow> int" where
  "spd_pthread_create_stack env attr stacksize =
     (let attr = (case attr of None \<Rightarrow> pe_init env | Some a \<Rightarrow> a);
          attr = (if pe_inherit_ok env then attr\<lparr>pa_inherit := True\<rparr> else attr);
          stacksize = (if stacksize = 0 then SPD_STACKSIZE else stacksize);
          attr = (if pe_stack_ok env then attr\<lparr>pa_stacksize := stacksize\<rparr> else attr)
      in pe_create env attr)"

definition spd_pthread_create_detached_stack :: "pthread_env \<Rightarrow> pthread_attr option \<Rightarrow> nat \<Rightarrow> int" where
  "spd_pthread_create_detached_stack env attr stacksize =
     (let attr = (case attr of None \<Rightarrow> pe_init env | Some a \<Rightarrow> a);
          attr = (if pe_detach_ok env then attr\<lparr>pa_detached := True\<rparr> else attr)
      in spd_pthread_create_stack env (Some attr) stacksize)"

text \<open>Seconds and nanoseconds.\<close>

definition spd_thread_sleep :: "int \<Rightarrow> int \<times> int" where
  "spd_thread_sleep ms = (ms sdiv 1000, (ms smod 1000) * 1000000)"

section \<open>Sessions\<close>

record spd_tcp_session_arg =
  serveraddr :: spd_sockaddr
  peeraddr :: spd_sockaddr
  oldaddr :: spd_sockaddr
  server_fd :: int
  master :: "nat option"
  has_work :: bool

record spd_tcp_session =
  se_file :: bool
  is_client :: bool
  client_fd :: int
  remote_addr :: spd_sockaddr

record tcp_world =
  open_fds :: "int set"
  running :: "nat set"
  bad_closes :: nat
  launched :: "spd_tcp_session list"

text \<open>What the calls of an operation return; the number of a new thread, or none.\<close>

record sys_results =
  r_socket :: int
  r_bind :: int
  r_listen :: int
  r_connect :: int
  r_thread :: "nat option"
  r_fdopen :: bool
  r_setvbuf :: int
  r_poll :: int
  r_accept :: int
  r_remote :: spd_sockaddr

definition close_fd :: "int \<Rightarrow> tcp_world \<Rightarrow> tcp_world" where
  "close_fd fd w = (if fd \<in> open_fds w then w\<lparr>open_fds := open_fds w - {fd}\<rparr> else w\<lparr>bad_closes := bad_closes w + 1\<rparr>)"

definition open_fd :: "int \<Rightarrow> tcp_world \<Rightarrow> tcp_world" where
  "open_fd fd w = (if fd < 0 then w else w\<lparr>open_fds := insert fd (open_fds w)\<rparr>)"

definition join_thread :: "nat \<Rightarrow> tcp_world \<Rightarrow> tcp_world option" where
  "join_thread t w = (if t \<in> running w then Some (w\<lparr>running := running w - {t}\<rparr>) else None)"

text \<open>A new object is zero, also the address into which one is copied.\<close>

definition zero_addr ::
  spd_sockaddr where
  "zero_addr = \<lparr>sa_ss = replicate 128 0, sa_len = 0\<rparr>"

section \<open>Client\<close>

definition spd_tcp_session_client_create ::
  "spd_sockaddr \<Rightarrow> sys_results \<Rightarrow> spd_tcp_session_arg \<Rightarrow> tcp_world \<Rightarrow>
   spd_tcp_session option \<times> spd_tcp_session_arg \<times> tcp_world" where
  "spd_tcp_session_client_create uninit r arg w =
     (if spd_sockaddr_cmp uninit (peeraddr arg) (oldaddr arg) = 0 then (None, arg, w)
      else
        (let arg = arg\<lparr>oldaddr := spd_sockaddr_setnull (oldaddr arg)\<rparr>;
             w = (if server_fd arg \<noteq> - 1 then close_fd (server_fd arg) w else w);
             arg = arg\<lparr>server_fd := r_socket r\<rparr>; w = open_fd (r_socket r) w
         in if server_fd arg < 0 then (None, arg, w)
            else if \<not> spd_sockaddr_isnull (Some (serveraddr arg)) \<and> r_bind r \<noteq> 0 then
              (None, arg\<lparr>server_fd := - 1\<rparr>, if server_fd arg \<noteq> - 1 then close_fd (server_fd arg) w else w)
            else
              (let arg = arg\<lparr>has_work := False, oldaddr := spd_sockaddr_copy (oldaddr arg) (peeraddr arg)\<rparr>
               in (Some \<lparr>se_file = False, is_client = True, client_fd = server_fd arg,
                         remote_addr = spd_sockaddr_copy zero_addr (peeraddr arg)\<rparr>,
                   arg\<lparr>oldaddr := spd_sockaddr_copy (oldaddr arg) (peeraddr arg)\<rparr>, w))))"

text \<open>
  \<open>fdopen\<close> makes a stream of the descriptor; closing the stream closes the descriptor. The result is
  the session for the caller or for the work function (\<open>Inr\<close>), or nothing.
\<close>

definition handle_tcp_connection ::
  "sys_results \<Rightarrow> bool \<Rightarrow> spd_tcp_session \<Rightarrow> tcp_world \<Rightarrow> (spd_tcp_session + spd_tcp_session) option \<times> tcp_world" where
  "handle_tcp_connection r work ss w =
     (let f = r_fdopen r \<and> r_setvbuf r = 0;
          w = (if r_fdopen r \<and> r_setvbuf r \<noteq> 0 then close_fd (client_fd ss) w else w)
      in if \<not> f then (None, close_fd (client_fd ss) w)
         else if work then (Some (Inr (ss\<lparr>se_file := True\<rparr>)), w)
         else (Some (Inl (ss\<lparr>se_file := True\<rparr>)), w))"

text \<open>\<open>arg\<close> is what the session points to.\<close>

definition spd_tcp_session_client_start ::
  "sys_results \<Rightarrow> spd_tcp_session \<Rightarrow> spd_tcp_session_arg option \<Rightarrow> tcp_world \<Rightarrow>
   ((spd_tcp_session + spd_tcp_session) option \<times> spd_tcp_session_arg \<times> tcp_world) option" where
  "spd_tcp_session_client_start r ss arg w =
     (case arg of
        None \<Rightarrow> None
      | Some d \<Rightarrow>
          Some (if r_connect r \<noteq> 0 then (None, d\<lparr>server_fd := - 1\<rparr>, close_fd (server_fd d) w)
                else (case handle_tcp_connection r (has_work d) ss w of (h, w) \<Rightarrow> (h, d, w))))"

section \<open>Server\<close>

definition spd_tcp_server_read :: "(int \<Rightarrow> nat \<Rightarrow> int) \<Rightarrow> spd_tcp_session \<Rightarrow> nat \<Rightarrow> int" where
  "spd_tcp_server_read rd ss count = (if client_fd ss = - 1 then - 1 else rd (client_fd ss) count)"

definition spd_tcp_server_write :: "(int \<Rightarrow> nat \<Rightarrow> int) \<Rightarrow> spd_tcp_session \<Rightarrow> nat \<Rightarrow> int" where
  "spd_tcp_server_write wr ss count = (if client_fd ss = - 1 then - 1 else wr (client_fd ss) count)"

text \<open>One round of the loop; the function called before it is not ours. \<open>launched\<close> are the sessions that have a thread.\<close>

definition mainloop_round :: "sys_results \<Rightarrow> spd_tcp_session_arg \<Rightarrow> tcp_world \<Rightarrow> tcp_world" where
  "mainloop_round r ser w =
     (if r_poll r \<le> 0 then w
      else if r_accept r < 0 then w
      else
        (let w = open_fd (r_accept r) w;
             ss = \<lparr>se_file = False, is_client = False, client_fd = r_accept r,
                   remote_addr = spd_sockaddr_copy zero_addr (r_remote r)\<rparr>
         in case r_thread r of
              None \<Rightarrow> close_fd (client_fd ss) w
            | Some t \<Rightarrow> w\<lparr>running := insert t (running w), launched := launched w @ [ss]\<rparr>))"

definition spd_tcp_server_mainloop :: "sys_results list \<Rightarrow> spd_tcp_session_arg \<Rightarrow> tcp_world \<Rightarrow> tcp_world" where
  "spd_tcp_server_mainloop rs ser w = fold (\<lambda>r. mainloop_round r ser) rs w"

text \<open>The thread is joined, but its number is kept; so is the closed descriptor when there is no address.\<close>

definition spd_tcp_server_start ::
  "spd_sockaddr \<Rightarrow> sys_results \<Rightarrow> spd_tcp_session_arg \<Rightarrow> tcp_world \<Rightarrow> (spd_tcp_session_arg \<times> tcp_world) option" where
  "spd_tcp_server_start uninit r ser w =
     (if spd_sockaddr_cmp uninit (serveraddr ser) (oldaddr ser) = 0 then Some (ser, w)
      else
        (let ser = ser\<lparr>oldaddr := spd_sockaddr_setnull (oldaddr ser)\<rparr>
         in case (case master ser of None \<Rightarrow> Some w | Some t \<Rightarrow> join_thread t w) of
              None \<Rightarrow> None
            | Some w \<Rightarrow>
                (let w = (if server_fd ser \<noteq> - 1 then close_fd (server_fd ser) w else w)
                 in if spd_sockaddr_isnull (Some (serveraddr ser)) then Some (ser, w)
                    else
                      (let ser = ser\<lparr>server_fd := r_socket r\<rparr>; w = open_fd (r_socket r) w
                       in if server_fd ser < 0 then Some (ser, w)
                          else if r_bind r \<noteq> 0 \<or> r_listen r \<noteq> 0 \<or> r_thread r = None then
                            Some (ser\<lparr>server_fd := - 1\<rparr>, close_fd (server_fd ser) w)
                          else Some (ser\<lparr>master := r_thread r, oldaddr := spd_sockaddr_copy (oldaddr ser) (serveraddr ser)\<rparr>,
                                     w\<lparr>running := insert (the (r_thread r)) (running w)\<rparr>)))))"

definition spd_tcp_server_stop :: "spd_tcp_session_arg \<Rightarrow> tcp_world \<Rightarrow> (spd_tcp_session_arg \<times> tcp_world) option" where
  "spd_tcp_server_stop ser w =
     (case (case master ser of None \<Rightarrow> Some w | Some t \<Rightarrow> join_thread t w) of
        None \<Rightarrow> None
      | Some w \<Rightarrow>
          Some (ser\<lparr>master := None, server_fd := - 1\<rparr>,
                if server_fd ser \<noteq> - 1 then close_fd (server_fd ser) w else w))"

section \<open>The echo server\<close>

text \<open>
  \<open>n\<close> is never set: its value before decides when the loop ends and how much is sent of each line.
  The list holds what \<open>readline\<close> returns; the result is the list of lengths sent.
\<close>

fun str_echo :: "int \<Rightarrow> int list \<Rightarrow> int list" where
  "str_echo n [] = []"
| "str_echo n (r # rs) = (if n = r then [] else n # str_echo n rs)"

text \<open>
  The handler of \<open>SIGCHLD\<close> prints every child that can be waited for. The list holds what the calls of
  \<open>waitpid\<close> give (\<open>wait\<close> with \<open>WBOHANG\<close> does not compile).
\<close>

fun handle_sigchld :: "int list \<Rightarrow> int list" where
  "handle_sigchld [] = []"
| "handle_sigchld (pid # rs) = (if pid > 0 then pid # handle_sigchld rs else [])"

lemma sigchld_reaps: "\<forall>p \<in> set children. 0 < p \<Longrightarrow> r \<le> 0 \<Longrightarrow> handle_sigchld (children @ r # rs) = children"
  by (induction children) auto

definition LISTENQ :: int where "LISTENQ = 10"

datatype server_act = Close int | Fork | LogAccept

text \<open>
  One round of accepting: the result, whether its error is one to try again after, and whether this is
  the child of the fork, which serves the client and leaves. A failed accept that is not tried again
  goes on to the fork.
\<close>

fun accept_rounds :: "int \<Rightarrow> (int \<times> bool \<times> bool) list \<Rightarrow> server_act list" where
  "accept_rounds listenfd [] = []"
| "accept_rounds listenfd ((connfd, retry, child) # rs) =
     (if connfd < 0 \<and> retry then accept_rounds listenfd rs
      else (if connfd < 0 then [LogAccept] else []) @ Fork #
        (if child then [Close listenfd] else Close connfd # accept_rounds listenfd rs))"

text \<open>
  The call of \<open>listen\<close> is missing, its arguments are a comma expression that is not zero: the socket is
  given up. The rounds are those of an \<open>accept\<close> on the descriptor they are given. (The code closes
  \<open>servaddr\<close> there, which is no descriptor and does not compile.)
\<close>

definition init_tcp_server :: "int \<Rightarrow> int \<Rightarrow> (int \<Rightarrow> (int \<times> bool \<times> bool) list) \<Rightarrow> server_act list" where
  "init_tcp_server sock bnd rounds =
     (if sock < 0 then []
      else if bnd \<noteq> 0 then [Close sock]
      else
        (let listenfd = (if LISTENQ \<noteq> 0 then - 1 else sock)
         in accept_rounds listenfd (rounds listenfd)))"

section \<open>Lemmas\<close>

definition addr_ok :: "spd_sockaddr \<Rightarrow> bool" where
  "addr_ok a \<longleftrightarrow> sa_len a \<le> length (sa_ss a)"

lemma cmp_copy: "addr_ok a \<Longrightarrow> spd_sockaddr_cmp uninit a (spd_sockaddr_copy d a) = 0"
  by (simp add: addr_ok_def spd_sockaddr_cmp_def spd_sockaddr_copy_def memcmp_eq_0)

text \<open>No server, or one thread that accepts on the one open socket.\<close>

definition tcp_idle :: "spd_tcp_session_arg \<Rightarrow> tcp_world \<Rightarrow> bool" where
  "tcp_idle ser w \<longleftrightarrow> master ser = None \<and> server_fd ser = - 1 \<and> running w = {} \<and> open_fds w = {} \<and> bad_closes w = 0"

definition tcp_serving :: "spd_tcp_session_arg \<Rightarrow> tcp_world \<Rightarrow> bool" where
  "tcp_serving ser w \<longleftrightarrow> 0 \<le> server_fd ser \<and> open_fds w = {server_fd ser} \<and> bad_closes w = 0 \<and>
     (\<exists>t. master ser = Some t \<and> running w = {t})"

definition all_succeed :: "sys_results \<Rightarrow> bool" where
  "all_succeed r \<longleftrightarrow> 0 \<le> r_socket r \<and> r_bind r = 0 \<and> r_listen r = 0 \<and> r_thread r \<noteq> None"

lemma start_idle:
  assumes "tcp_idle ser w" "\<not> spd_sockaddr_isnull (Some (serveraddr ser))" "- 1 \<le> r_socket r"
  shows "\<exists>ser' w'. spd_tcp_server_start u r ser w = Some (ser', w') \<and> (tcp_idle ser' w' \<or> tcp_serving ser' w')"
  using assms
  by (auto simp: spd_tcp_server_start_def tcp_idle_def tcp_serving_def Let_def open_fd_def close_fd_def)

lemma start_serving:
  assumes "tcp_serving ser w" "\<not> spd_sockaddr_isnull (Some (serveraddr ser))" "all_succeed r"
  shows "\<exists>ser' w'. spd_tcp_server_start u r ser w = Some (ser', w') \<and> tcp_serving ser' w'"
  using assms
  by (auto simp: spd_tcp_server_start_def tcp_serving_def all_succeed_def Let_def open_fd_def close_fd_def join_thread_def)

lemma stop_ok:
  assumes "tcp_idle ser w \<or> tcp_serving ser w"
  shows "\<exists>ser' w'. spd_tcp_server_stop ser w = Some (ser', w') \<and> tcp_idle ser' w'"
  using assms
  by (auto simp: spd_tcp_server_stop_def tcp_idle_def tcp_serving_def Let_def close_fd_def join_thread_def)

text \<open>
  A server that is given the null address is shut down, but the number of its thread and its closed
  descriptor stay: the next stop joins a thread that does not run.
\<close>

lemma tcp_stale_thread:
  assumes "tcp_serving ser w" "spd_sockaddr_isnull (Some a)" "spd_sockaddr_cmp u a (oldaddr ser) \<noteq> 0"
  shows "\<exists>ser' w'. spd_tcp_server_start u r (ser\<lparr>serveraddr := a\<rparr>) w = Some (ser', w') \<and> running w' = {} \<and>
     spd_tcp_server_stop ser' w' = None"
  using assms
  by (auto simp: spd_tcp_server_start_def spd_tcp_server_stop_def tcp_serving_def Let_def close_fd_def join_thread_def)

text \<open>Every accepted descriptor is owned by a session with a thread, or closed.\<close>

lemma mainloop_owns:
  assumes "r_accept r \<notin> open_fds w"
  shows "\<exists>ls. launched (mainloop_round r ser w) = launched w @ ls \<and>
     open_fds (mainloop_round r ser w) = open_fds w \<union> client_fd ` set ls \<and> bad_closes (mainloop_round r ser w) = bad_closes w"
  using assms
  by (auto simp: mainloop_round_def Let_def open_fd_def close_fd_def split: option.splits)

text \<open>When a stream cannot be made unbuffered its descriptor is closed twice.\<close>

lemma handle_closes_twice:
  assumes "r_fdopen r" "r_setvbuf r \<noteq> 0" "client_fd ss \<in> open_fds w"
  shows "bad_closes (snd (handle_tcp_connection r work ss w)) = bad_closes w + 1"
  using assms by (simp add: handle_tcp_connection_def Let_def close_fd_def)

text \<open>The echo server never listens, and starts a process for every failed accept.\<close>

lemma echo_server_forks:
  assumes "0 \<le> sock" "\<forall>(c, retry, child) \<in> set rs. c < 0 \<and> \<not> retry \<and> \<not> child" "rounds (- 1) = rs"
  shows "length (filter (\<lambda>a. a = Fork) (init_tcp_server sock 0 rounds)) = length rs"
proof -
  have "length (filter (\<lambda>a. a = Fork) (accept_rounds l rs)) = length rs" for l
    using assms(2) by (induction rs) auto
  then show ?thesis using assms(1, 3) by (simp add: init_tcp_server_def LISTENQ_def)
qed

section \<open>Properties\<close>

text \<open>
  The states of a server: its address may be changed, and it may be started and stopped, where a start
  has an address and, if a server runs, its calls succeed.
\<close>

inductive tcp_reach :: "spd_sockaddr \<Rightarrow> spd_tcp_session_arg \<times> tcp_world \<Rightarrow> bool" for u where
  tcp_new: "tcp_idle ser w \<Longrightarrow> tcp_reach u (ser, w)"
| tcp_address: "tcp_reach u (ser, w) \<Longrightarrow> tcp_reach u (ser\<lparr>serveraddr := a\<rparr>, w)"
| tcp_start: "tcp_reach u (ser, w) \<Longrightarrow> \<not> spd_sockaddr_isnull (Some (serveraddr ser)) \<Longrightarrow> - 1 \<le> r_socket r \<Longrightarrow>
     master ser = None \<or> all_succeed r \<Longrightarrow> spd_tcp_server_start u r ser w = Some s \<Longrightarrow> tcp_reach u s"
| tcp_stop: "tcp_reach u (ser, w) \<Longrightarrow> spd_tcp_server_stop ser w = Some s \<Longrightarrow> tcp_reach u s"

lemma tcp_reach_ok: "tcp_reach u s \<Longrightarrow> tcp_idle (fst s) (snd s) \<or> tcp_serving (fst s) (snd s)"
proof (induction rule: tcp_reach.induct)
  case (tcp_start ser w r s)
  have "tcp_serving ser w \<Longrightarrow> all_succeed r" using tcp_start.hyps by (auto simp: tcp_serving_def)
  then show ?case
    using start_idle [of ser w r u] start_serving [of ser w r u] tcp_start by auto
next
  case (tcp_stop ser w s)
  then show ?case using stop_ok [of ser w] by auto
qed (auto simp: tcp_idle_def tcp_serving_def)


definition good_results :: sys_results where
  "good_results = \<lparr>r_socket = 3, r_bind = 0, r_listen = 0, r_connect = - 1, r_thread = Some 1, r_fdopen = True,
     r_setvbuf = 0, r_poll = 0, r_accept = - 1, r_remote = zero_addr\<rparr>"

definition new_arg :: spd_tcp_session_arg where
  "new_arg = \<lparr>serveraddr = \<lparr>sa_ss = sin_bytes 0 80 [127, 0, 0, 1], sa_len = 16\<rparr>,
     peeraddr = \<lparr>sa_ss = sin_bytes 0 80 [127, 0, 0, 1], sa_len = 16\<rparr>, oldaddr = zero_addr,
     server_fd = - 1, master = None, has_work = True\<rparr>"

definition new_world :: tcp_world where
  "new_world = \<lparr>open_fds = {}, running = {}, bad_closes = 0, launched = []\<rparr>"


text \<open>
  C37: the address of the last success outlives the connection. A server that is started,
  stopped and started again with the same address is not started, and a client whose connection attempt
  fails can never be made again for the same peer: both operations then do nothing, whatever the system
  would answer.
\<close>

theorem tcp_never_again:
  assumes "addr_ok (serveraddr ser)" "addr_ok (peeraddr ser)"
    and "spd_tcp_server_start u r ser w = Some (ser1, w1)" "spd_sockaddr_cmp u (serveraddr ser) (oldaddr ser) \<noteq> 0"
    and "spd_tcp_server_stop ser1 w1 = Some (ser2, w2)" "master ser1 \<noteq> master ser"
    and "spd_tcp_session_client_create u r ser v = (Some ss, arg1, v1)" "r_connect r \<noteq> 0"
  shows "spd_tcp_server_start u r' ser2 w2 = Some (ser2, w2) \<and> master ser2 = None \<and>
     (\<exists>arg2 v2. spd_tcp_session_client_start r ss (Some arg1) v1 = Some (None, arg2, v2) \<and>
        spd_tcp_session_client_create u r' arg2 v2 = (None, arg2, v2))"
proof (intro conjI)
  have "oldaddr ser1 = spd_sockaddr_copy (spd_sockaddr_setnull (oldaddr ser)) (serveraddr ser) \<and> serveraddr ser1 = serveraddr ser"
    using assms(3, 4, 6) by (auto simp: spd_tcp_server_start_def Let_def split: if_splits option.splits)
  moreover have "oldaddr ser2 = oldaddr ser1" "serveraddr ser2 = serveraddr ser1" and m: "master ser2 = None"
    using assms(5) by (auto simp: spd_tcp_server_stop_def split: option.splits)
  ultimately show "spd_tcp_server_start u r' ser2 w2 = Some (ser2, w2)" "master ser2 = None"
    using cmp_copy [OF assms(1)] by (simp_all add: spd_tcp_server_start_def)
  let ?arg2 = "arg1\<lparr>server_fd := - 1\<rparr>" and ?v2 = "close_fd (server_fd arg1) v1"
  have "\<exists>d. oldaddr arg1 = spd_sockaddr_copy d (peeraddr arg1) \<and> peeraddr arg1 = peeraddr ser"
    using assms(7) by (auto simp: spd_tcp_session_client_create_def Let_def split: if_splits)
  then have "spd_tcp_session_client_create u r' ?arg2 ?v2 = (None, ?arg2, ?v2)"
    using cmp_copy [OF assms(2)] by (auto simp: spd_tcp_session_client_create_def)
  then show "\<exists>arg2 v2. spd_tcp_session_client_start r ss (Some arg1) v1 = Some (None, arg2, v2) \<and>
      spd_tcp_session_client_create u r' arg2 v2 = (None, arg2, v2)"
    using assms(8) by (simp add: spd_tcp_session_client_start_def)
qed

theorem tcp_never_again_witness:
  "\<exists>ser2 w2. (\<forall>r'. spd_tcp_server_start zero_addr r' ser2 w2 = Some (ser2, w2)) \<and> master ser2 = None \<and>
     serveraddr ser2 = serveraddr new_arg"
proof -
  have c: "spd_sockaddr_cmp zero_addr (serveraddr new_arg) (oldaddr new_arg) \<noteq> 0"
      "spd_sockaddr_cmp zero_addr (peeraddr new_arg) (oldaddr new_arg) \<noteq> 0" by code_simp+
  have a: "addr_ok (serveraddr new_arg)" "addr_ok (peeraddr new_arg)" by code_simp+
  obtain ser1 w1 where s: "spd_tcp_server_start zero_addr good_results new_arg new_world = Some (ser1, w1)"
      "master ser1 = Some 1" "running w1 = {1}" "serveraddr ser1 = serveraddr new_arg"
    using c(1) by (simp add: spd_tcp_server_start_def good_results_def new_arg_def new_world_def open_fd_def spd_sockaddr_isnull_def Let_def)
  then obtain ser2 w2 where t: "spd_tcp_server_stop ser1 w1 = Some (ser2, w2)" "serveraddr ser2 = serveraddr new_arg"
    by (simp add: spd_tcp_server_stop_def join_thread_def)
  obtain ss arg1 v1 where k: "spd_tcp_session_client_create zero_addr good_results new_arg new_world = (Some ss, arg1, v1)"
    using c(2) by (simp add: spd_tcp_session_client_create_def good_results_def new_arg_def Let_def)
  have "master ser1 \<noteq> master new_arg" using s(2) by (simp add: new_arg_def)
  from tcp_never_again [OF a s(1) c(1) t(1) this k] t(2) show ?thesis by (auto simp: good_results_def)
qed

end
