(* ===== verification/Spd_Lock.thy ===== *)
theory Spd_Lock
  imports Spd_Interfaces "HOL-Library.Word"
begin

text \<open>
  Locks: \<open>lock.h\<close> without \<open>DEBUG_THREADS\<close>, whose other half does not compile. The functions are the
  POSIX ones under other names, so what is modelled is the behaviour that POSIX gives them for the kind
  of mutex that the header chooses: the one of \<open>spd_mutex_init\<close> is recursive, a statically defined one
  is not. Threads are numbers.
\<close>

section \<open>Mutexes\<close>

datatype mutex_kind = Normal | Recursive

record spd_mutex =
  mx_kind :: mutex_kind
  mx_owner :: "nat option"
  mx_depth :: nat

definition SPD_MUTEX_KIND :: mutex_kind where "SPD_MUTEX_KIND = Recursive"

definition spd_mutex_init ::
  spd_mutex where
  "spd_mutex_init = \<lparr>mx_kind = SPD_MUTEX_KIND, mx_owner = None, mx_depth = 0\<rparr>"

definition SPD_MUTEX_INIT_VALUE ::
  spd_mutex where
  "SPD_MUTEX_INIT_VALUE = \<lparr>mx_kind = Normal, mx_owner = None, mx_depth = 0\<rparr>"

text \<open>
  A call ends with a code, or the thread waits (for ever, when it waits for itself), or POSIX gives it
  no meaning.
\<close>

datatype 'm call = Done int 'm | Waits | Undefined

definition EPERM :: int where "EPERM = 1"
definition EBUSY :: int where "EBUSY = 16"
definition ETIMEDOUT :: int where "ETIMEDOUT = 110"

definition spd_mutex_lock :: "nat \<Rightarrow> spd_mutex \<Rightarrow> spd_mutex call" where
  "spd_mutex_lock t m =
     (case mx_owner m of
        None \<Rightarrow> Done 0 (m\<lparr>mx_owner := Some t, mx_depth := 1\<rparr>)
      | Some u \<Rightarrow>
          if u = t \<and> mx_kind m = Recursive then Done 0 (m\<lparr>mx_depth := mx_depth m + 1\<rparr>) else Waits)"

definition spd_mutex_trylock :: "nat \<Rightarrow> spd_mutex \<Rightarrow> spd_mutex call" where
  "spd_mutex_trylock t m = (case spd_mutex_lock t m of Waits \<Rightarrow> Done EBUSY m | r \<Rightarrow> r)"

text \<open>A recursive mutex reports an unlock by another thread, for a normal one it has no meaning.\<close>

definition spd_mutex_unlock :: "nat \<Rightarrow> spd_mutex \<Rightarrow> spd_mutex call" where
  "spd_mutex_unlock t m =
     (if mx_owner m = Some t then
        Done 0 (if mx_depth m \<le> 1 then m\<lparr>mx_owner := None, mx_depth := 0\<rparr> else m\<lparr>mx_depth := mx_depth m - 1\<rparr>)
      else if mx_kind m = Recursive then Done EPERM m
      else Undefined)"

definition spd_mutex_destroy :: "spd_mutex \<Rightarrow> spd_mutex call" where
  "spd_mutex_destroy m = (if mx_owner m = None then Done 0 m else Undefined)"

text \<open>
  \<open>DEADLOCK_AVOIDANCE\<close> unlocks, lets other threads run and locks again if the unlock worked. \<open>others\<close> is
  what the other threads make of the mutex meanwhile.
\<close>

definition DEADLOCK_AVOIDANCE :: "nat \<Rightarrow> (spd_mutex \<Rightarrow> spd_mutex) \<Rightarrow> spd_mutex \<Rightarrow> spd_mutex call" where
  "DEADLOCK_AVOIDANCE t others m =
     (case spd_mutex_unlock t m of
        Done r m \<Rightarrow> if r = 0 then spd_mutex_lock t (others m) else Done r m
      | Waits \<Rightarrow> Waits
      | Undefined \<Rightarrow> Undefined)"

text \<open>The mutex of an object; without an object the result is - 1.\<close>

definition obj_mutex_call :: "(spd_mutex \<Rightarrow> spd_mutex call) \<Rightarrow> spd_mutex option \<Rightarrow> spd_mutex option call" where
  "obj_mutex_call f p =
     (case p of
        None \<Rightarrow> Done (- 1) None
      | Some m \<Rightarrow> (case f m of Done r m \<Rightarrow> Done r (Some m) | Waits \<Rightarrow> Waits | Undefined \<Rightarrow> Undefined))"

definition obj_lock :: "nat \<Rightarrow> spd_mutex option \<Rightarrow> spd_mutex option call" where
  "obj_lock t = obj_mutex_call (spd_mutex_lock t)"

definition obj_unlock :: "nat \<Rightarrow> spd_mutex option \<Rightarrow> spd_mutex option call" where
  "obj_unlock t = obj_mutex_call (spd_mutex_unlock t)"

definition obj_trylock :: "nat \<Rightarrow> spd_mutex option \<Rightarrow> spd_mutex option call" where
  "obj_trylock t = obj_mutex_call (spd_mutex_trylock t)"

section \<open>Read-write locks\<close>

record spd_rwlock =
  rw_writer :: "nat option"
  rw_readers :: "nat list"

definition spd_rwlock_init ::
  spd_rwlock where
  "spd_rwlock_init = \<lparr>rw_writer = None, rw_readers = []\<rparr>"

definition spd_rwlock_rdlock :: "nat \<Rightarrow> spd_rwlock \<Rightarrow> spd_rwlock call" where
  "spd_rwlock_rdlock t m = (if rw_writer m = None then Done 0 (m\<lparr>rw_readers := t # rw_readers m\<rparr>) else Waits)"

definition spd_rwlock_wrlock :: "nat \<Rightarrow> spd_rwlock \<Rightarrow> spd_rwlock call" where
  "spd_rwlock_wrlock t m =
     (if rw_writer m = None \<and> rw_readers m = [] then Done 0 (m\<lparr>rw_writer := Some t\<rparr>) else Waits)"

definition spd_rwlock_tryrdlock :: "nat \<Rightarrow> spd_rwlock \<Rightarrow> spd_rwlock call" where
  "spd_rwlock_tryrdlock t m = (case spd_rwlock_rdlock t m of Waits \<Rightarrow> Done EBUSY m | r \<Rightarrow> r)"

definition spd_rwlock_trywrlock :: "nat \<Rightarrow> spd_rwlock \<Rightarrow> spd_rwlock call" where
  "spd_rwlock_trywrlock t m = (case spd_rwlock_wrlock t m of Waits \<Rightarrow> Done EBUSY m | r \<Rightarrow> r)"

text \<open>\<open>expired\<close> tells whether the time passes before the lock can be had.\<close>

definition spd_rwlock_timedrdlock :: "nat \<Rightarrow> bool \<Rightarrow> spd_rwlock \<Rightarrow> spd_rwlock call" where
  "spd_rwlock_timedrdlock t expired m =
     (case spd_rwlock_rdlock t m of Waits \<Rightarrow> (if expired then Done ETIMEDOUT m else Waits) | r \<Rightarrow> r)"

definition spd_rwlock_timedwrlock :: "nat \<Rightarrow> bool \<Rightarrow> spd_rwlock \<Rightarrow> spd_rwlock call" where
  "spd_rwlock_timedwrlock t expired m =
     (case spd_rwlock_wrlock t m of Waits \<Rightarrow> (if expired then Done ETIMEDOUT m else Waits) | r \<Rightarrow> r)"

definition spd_rwlock_unlock :: "nat \<Rightarrow> spd_rwlock \<Rightarrow> spd_rwlock call" where
  "spd_rwlock_unlock t m =
     (if rw_writer m = Some t then Done 0 (m\<lparr>rw_writer := None\<rparr>)
      else if t \<in> set (rw_readers m) then Done 0 (m\<lparr>rw_readers := remove1 t (rw_readers m)\<rparr>)
      else Undefined)"

definition spd_rwlock_destroy :: "spd_rwlock \<Rightarrow> spd_rwlock call" where
  "spd_rwlock_destroy m = (if rw_writer m = None \<and> rw_readers m = [] then Done 0 m else Undefined)"

section \<open>Conditions\<close>

text \<open>The threads that wait. A wait unlocks the mutex once, and locks it again when it has been woken.\<close>

record spd_cond =
  cond_waiting :: "nat list"

definition spd_cond_init ::
  spd_cond where
  "spd_cond_init = \<lparr>cond_waiting = []\<rparr>"

definition spd_cond_wait :: "nat \<Rightarrow> spd_cond \<times> spd_mutex \<Rightarrow> (spd_cond \<times> spd_mutex) call" where
  "spd_cond_wait t s =
     (case spd_mutex_unlock t (snd s) of
        Done r m \<Rightarrow> if r = 0 then Done 0 ((fst s)\<lparr>cond_waiting := cond_waiting (fst s) @ [t]\<rparr>, m) else Done r s
      | Waits \<Rightarrow> Waits
      | Undefined \<Rightarrow> Undefined)"

definition cond_wake :: "nat \<Rightarrow> spd_cond \<times> spd_mutex \<Rightarrow> (spd_cond \<times> spd_mutex) call" where
  "cond_wake t s =
     (if t \<in> set (cond_waiting (fst s)) then Waits
      else case spd_mutex_lock t (snd s) of
             Done r m \<Rightarrow> Done r (fst s, m) | Waits \<Rightarrow> Waits | Undefined \<Rightarrow> Undefined)"

definition cond_signal :: "spd_cond \<Rightarrow> spd_cond" where
  "cond_signal c = c\<lparr>cond_waiting := tl (cond_waiting c)\<rparr>"

definition cond_broadcast :: "spd_cond \<Rightarrow> spd_cond" where
  "cond_broadcast c = c\<lparr>cond_waiting := []\<rparr>"

section \<open>Counters\<close>

text \<open>The old value, and the new one in memory.\<close>

definition spd_atomic_fetchadd_int :: "32 word \<Rightarrow> 32 word \<Rightarrow> 32 word \<times> 32 word" where
  "spd_atomic_fetchadd_int p v = (p, p + v)"

lemma fetchadd_order:
  "snd (spd_atomic_fetchadd_int (snd (spd_atomic_fetchadd_int p v)) u) =
   snd (spd_atomic_fetchadd_int (snd (spd_atomic_fetchadd_int p u)) v)"
  by (simp add: spd_atomic_fetchadd_int_def add.commute add.left_commute)

section \<open>The interface\<close>

fun at_once :: "'m call \<Rightarrow> 'm option" where
  "at_once (Done r m) = (if r = 0 then Some m else None)"
| "at_once _ = None"

definition mutex_holds :: "spd_mutex \<Rightarrow> nat \<Rightarrow> nat" where
  "mutex_holds m t = (if mx_owner m = Some t then mx_depth m else 0)"

definition rwlock_writes :: "spd_rwlock \<Rightarrow> nat \<Rightarrow> nat" where
  "rwlock_writes m t = (if rw_writer m = Some t then 1 else 0)"

definition try_result :: "'m \<Rightarrow> 'm call \<Rightarrow> bool \<times> 'm" where
  "try_result m c = (case c of Done r m' \<Rightarrow> (r = 0, m') | _ \<Rightarrow> (False, m))"

interpretation mx: spd_try_lock
  "\<lambda>t m. at_once (spd_mutex_lock t m)" "\<lambda>t m. at_once (spd_mutex_unlock t m)" mutex_holds
  "\<lambda>t m. try_result m (spd_mutex_trylock t m)"
  by unfold_locales
    (auto simp: spd_mutex_lock_def spd_mutex_unlock_def spd_mutex_trylock_def try_result_def mutex_holds_def
      fun_eq_iff EPERM_def EBUSY_def split: option.splits if_splits)

interpretation rw: spd_try_lock
  "\<lambda>t m. at_once (spd_rwlock_wrlock t m)" "\<lambda>t m. at_once (spd_rwlock_unlock t m)" rwlock_writes
  "\<lambda>t m. try_result m (spd_rwlock_trywrlock t m)"
  by unfold_locales
    (auto simp: spd_rwlock_wrlock_def spd_rwlock_unlock_def spd_rwlock_trywrlock_def try_result_def rwlock_writes_def
      fun_eq_iff EBUSY_def split: option.splits if_splits)

section \<open>Properties\<close>



text \<open>
  A thread that locks a statically defined mutex twice waits for itself for ever, one that
  locks an initialised mutex twice goes on; but then the avoidance of deadlocks does not work: between
  its two halves every other thread still waits, whereas it can have a mutex that was locked once.
\<close>

lemma lock_twice:
  assumes "u \<noteq> t"
  shows "(\<exists>m. spd_mutex_lock t SPD_MUTEX_INIT_VALUE = Done 0 m \<and> spd_mutex_lock t m = Waits) \<and>
     (\<exists>m m2 m1. spd_mutex_lock t spd_mutex_init = Done 0 m \<and> spd_mutex_lock t m = Done 0 m2 \<and>
        spd_mutex_unlock t m2 = Done 0 m1 \<and> spd_mutex_lock u m1 = Waits \<and> DEADLOCK_AVOIDANCE t (\<lambda>m. m) m2 = Done 0 m2 \<and>
        (\<exists>m0 m'. spd_mutex_unlock t m = Done 0 m0 \<and> spd_mutex_lock u m0 = Done 0 m' \<and> DEADLOCK_AVOIDANCE t (\<lambda>_. m') m = Waits))"
  using assms
  by (simp add: spd_mutex_lock_def spd_mutex_unlock_def DEADLOCK_AVOIDANCE_def spd_mutex_init_def
      SPD_MUTEX_INIT_VALUE_def SPD_MUTEX_KIND_def)

lemma lock_twice_witness:
  "\<exists>m. spd_mutex_lock 1 SPD_MUTEX_INIT_VALUE = Done 0 m \<and> spd_mutex_lock 1 m = Waits"
  using lock_twice [of 2 1] by auto

end
