(* ===== verification/Spd_DbSync.thy ===== *)
theory Spd_DbSync
  imports Spd_Db Spd_Lock "HOL-Library.Sublist"
begin

text \<open>
  The thread that writes the database to disk, the start and the end of the database:
  the rest of \<open>internal_db.c\<close> but its test. The database is what the current connection sees and what is on disk;
  an operation is a function on it. A section under \<open>dblock\<close> is one step of one thread, which the lock
  justifies (\<open>mutex_excludes\<close> in \<open>Spd_Lock\<close>); the wait for \<open>dbcond\<close> ends a section, as it gives the lock
  back.
\<close>

section \<open>Transactions\<close>

text \<open>The operations since the last commit are in \<open>db_now\<close> only while a transaction is open.\<close>

record 'd sync_db =
  db_now :: 'd
  db_disk :: 'd
  db_txn :: bool

text \<open>\<open>sqlite3_exec\<close>: whether the statement works is an argument.\<close>

datatype db_sql = BEGIN_TRANSACTION | COMMIT | ROLLBACK

definition db_do_transaction :: "db_sql \<Rightarrow> bool \<Rightarrow> 'd sync_db \<Rightarrow> int \<times> 'd sync_db" where
  "db_do_transaction sql ok d =
     (if \<not> ok then (- 1, d)
      else case sql of
             BEGIN_TRANSACTION \<Rightarrow> if db_txn d then (- 1, d) else (0, d\<lparr>db_txn := True\<rparr>)
           | COMMIT \<Rightarrow> if db_txn d then (0, d\<lparr>db_disk := db_now d, db_txn := False\<rparr>) else (- 1, d)
           | ROLLBACK \<Rightarrow> if db_txn d then (0, d\<lparr>db_now := db_disk d, db_txn := False\<rparr>) else (- 1, d))"

definition spd_db_begin_transaction :: "bool \<Rightarrow> 'd sync_db \<Rightarrow> int \<times> 'd sync_db" where
  "spd_db_begin_transaction = db_do_transaction BEGIN_TRANSACTION"

definition spd_db_commite_trancaction :: "bool \<Rightarrow> 'd sync_db \<Rightarrow> int \<times> 'd sync_db" where
  "spd_db_commite_trancaction = db_do_transaction COMMIT"

definition spd_db_rollback_transaction :: "bool \<Rightarrow> 'd sync_db \<Rightarrow> int \<times> 'd sync_db" where
  "spd_db_rollback_transaction = db_do_transaction ROLLBACK"

text \<open>A statement outside of a transaction is committed at once.\<close>

definition db_execute :: "('d \<Rightarrow> 'd) \<Rightarrow> 'd sync_db \<Rightarrow> 'd sync_db" where
  "db_execute f d = d\<lparr>db_now := f (db_now d), db_disk := (if db_txn d then db_disk d else f (db_now d))\<rparr>"

section \<open>The thread\<close>

datatype sync_pc = Starting | WaitCond | Woken | Sleeping | Ended

record 'd dbsync =
  sy_db :: "'d sync_db"
  sy_pc :: sync_pc
  sy_doexit :: bool

definition do_dbsync :: "'d dbsync \<Rightarrow> 'd dbsync" where
  "do_dbsync s = (if sy_pc s = WaitCond then s\<lparr>sy_pc := Woken\<rparr> else s)"

text \<open>
  One section of \<open>dbsync_thread_loop\<close>: from the start to the wait, from the end of the wait to the
  sleep, and from the end of the sleep to the wait again. \<open>c\<close>, \<open>r\<close> and \<open>b\<close> say whether the commit, the
  rollback and the begin work.
\<close>

definition sync_section :: "bool \<Rightarrow> bool \<Rightarrow> bool \<Rightarrow> 'd dbsync \<Rightarrow> 'd dbsync" where
  "sync_section c r b s =
     (case sy_pc s of
        Starting \<Rightarrow> s\<lparr>sy_db := snd (spd_db_begin_transaction b (sy_db s)), sy_pc := WaitCond\<rparr>
      | WaitCond \<Rightarrow> s
      | Woken \<Rightarrow>
          (let (res, d) = spd_db_commite_trancaction c (sy_db s);
               d = (if res \<noteq> 0 then snd (spd_db_rollback_transaction r d) else d)
           in if sy_doexit s then s\<lparr>sy_db := d, sy_pc := Ended\<rparr>
              else s\<lparr>sy_db := snd (spd_db_begin_transaction b d), sy_pc := Sleeping\<rparr>)
      | Sleeping \<Rightarrow> if sy_doexit s then s\<lparr>sy_pc := Ended\<rparr> else s\<lparr>sy_pc := WaitCond\<rparr>
      | Ended \<Rightarrow> s)"

text \<open>An operation of a client: it changes the database and signals.\<close>

definition client_section :: "('d \<Rightarrow> 'd) \<Rightarrow> 'd dbsync \<Rightarrow> 'd dbsync" where
  "client_section f s = do_dbsync (s\<lparr>sy_db := db_execute f (sy_db s)\<rparr>)"

text \<open>
  The end: the flag is set without the lock, then the thread is signalled under it. Once the thread has
  ended the connection is closed, which gives up an open transaction.
\<close>

definition uninit_flag :: "'d dbsync \<Rightarrow> 'd dbsync" where
  "uninit_flag s = s\<lparr>sy_doexit := True\<rparr>"

definition uninit_signal :: "'d dbsync \<Rightarrow> 'd dbsync" where
  "uninit_signal s = do_dbsync s"

definition uninit_close :: "'d dbsync \<Rightarrow> 'd option" where
  "uninit_close s = (if sy_pc s = Ended then Some (db_disk (sy_db s)) else None)"

text \<open>The steps of all threads; a wait may also end without a signal.\<close>

datatype 'd db_event = Section bool bool bool | Client "'d \<Rightarrow> 'd" | Spurious | Flag | Signal

fun db_step :: "'d db_event \<Rightarrow> 'd dbsync \<Rightarrow> 'd dbsync" where
  "db_step (Section c r b) s = sync_section c r b s"
| "db_step (Client f) s = client_section f s"
| "db_step Spurious s = do_dbsync s"
| "db_step Flag s = uninit_flag s"
| "db_step Signal s = uninit_signal s"

definition db_new :: "'d \<Rightarrow> 'd dbsync" where
  "db_new d = \<lparr>sy_db = \<lparr>db_now = d, db_disk = d, db_txn = False\<rparr>, sy_pc = Starting, sy_doexit = False\<rparr>"

definition db_steps :: "'d db_event list \<Rightarrow> 'd \<Rightarrow> 'd dbsync" where
  "db_steps xs d = fold db_step xs (db_new d)"

section \<open>Opening\<close>

text \<open>
  After a success \<open>db_open\<close> returns no value; \<open>garbage\<close> is what its caller finds. The statements are
  prepared once; without a statement a step fails.
\<close>

definition db_open :: "int \<Rightarrow> bool \<Rightarrow> int" where
  "db_open garbage ok = (if ok then garbage else - 1)"

definition init_stmt :: "bool \<Rightarrow> int" where
  "init_stmt ok = (if ok then 0 else - 1)"

text \<open>The result of preparing the statement that creates the table is not looked at.\<close>

definition db_create :: "bool \<Rightarrow> bool \<Rightarrow> bool \<Rightarrow> int" where
  "db_create prepared prep_ok step_ok =
     (let stmt = prepared \<or> init_stmt prep_ok = 0 in if stmt \<and> step_ok then 0 else - 1)"

text \<open>The statements up to the first that cannot be prepared; the result is a truth value.\<close>

fun db_init_statements :: "bool list \<Rightarrow> int" where
  "db_init_statements [] = 0"
| "db_init_statements (ok # oks) = (if init_stmt ok \<noteq> 0 then 1 else db_init_statements oks)"

definition db_init :: "bool \<Rightarrow> int \<Rightarrow> bool \<Rightarrow> bool \<Rightarrow> bool \<Rightarrow> bool list \<Rightarrow> int" where
  "db_init opened garbage open_ok prep_ok step_ok oks =
     (if opened then 0
      else if db_open garbage open_ok \<noteq> 0 \<or> db_create False prep_ok step_ok \<noteq> 0 \<or> db_init_statements oks \<noteq> 0 then - 1
      else 0)"

definition spddb_init :: "int \<Rightarrow> int \<Rightarrow> int" where
  "spddb_init init thread = (if init \<noteq> 0 then - 1 else if thread \<noteq> 0 then - 1 else 0)"

section \<open>What is on disk\<close>

fun clients :: "'d db_event list \<Rightarrow> ('d \<Rightarrow> 'd) list" where
  "clients [] = []"
| "clients (Client f # xs) = f # clients xs"
| "clients (_ # xs) = clients xs"

lemma clients_append: "clients (xs @ ys) = clients xs @ clients ys"
  by (induction xs rule: clients.induct) auto

text \<open>
  \<open>gs\<close> are the operations whose effect the connection sees; the disk holds the result of the first of
  them, and of all of them outside a transaction.
\<close>

definition sync_inv :: "'d \<Rightarrow> ('d \<Rightarrow> 'd) list \<Rightarrow> 'd dbsync \<Rightarrow> bool" where
  "sync_inv d gs s \<longleftrightarrow>
     db_now (sy_db s) = fold (\<lambda>f. f) gs d \<and>
     (\<exists>n \<le> length gs. db_disk (sy_db s) = fold (\<lambda>f. f) (take n gs) d \<and> (\<not> db_txn (sy_db s) \<longrightarrow> n = length gs))"

lemma dbsync_simps [simp]:
  "sy_db (do_dbsync s) = sy_db s" "sy_doexit (do_dbsync s) = sy_doexit s"
  "sy_pc (do_dbsync s) = (if sy_pc s = WaitCond then Woken else sy_pc s)"
  by (simp_all add: do_dbsync_def)

lemma inv_db: "sync_inv d gs s \<Longrightarrow> sy_db s' = sy_db s \<Longrightarrow> sync_inv d gs s'"
  by (simp add: sync_inv_def)

lemma inv_begin: "sync_inv d gs s \<Longrightarrow> sync_inv d gs (s\<lparr>sy_db := snd (spd_db_begin_transaction b (sy_db s)), sy_pc := p\<rparr>)"
  by (auto simp: sync_inv_def spd_db_begin_transaction_def db_do_transaction_def)

text \<open>The end of a transaction loses operations only where the commit fails and the rollback works.\<close>

definition end_txn :: "bool \<Rightarrow> bool \<Rightarrow> 'd sync_db \<Rightarrow> 'd sync_db" where
  "end_txn c r d = (case spd_db_commite_trancaction c d of
     (res, d) \<Rightarrow> if res \<noteq> 0 then snd (spd_db_rollback_transaction r d) else d)"

lemma section_woken:
  "sy_pc s = Woken \<Longrightarrow> sync_section c r b s =
     (if sy_doexit s then s\<lparr>sy_db := end_txn c r (sy_db s), sy_pc := Ended\<rparr>
      else s\<lparr>sy_db := snd (spd_db_begin_transaction b (end_txn c r (sy_db s))), sy_pc := Sleeping\<rparr>)"
  by (simp add: sync_section_def end_txn_def split: prod.splits)

lemma inv_end:
  assumes "sync_inv d gs s"
  shows "\<exists>n \<le> length gs. (c \<longrightarrow> n = length gs) \<and> sync_inv d (take n gs) (s\<lparr>sy_db := end_txn c r (sy_db s)\<rparr>)"
proof -
  obtain n where n: "n \<le> length gs" "db_disk (sy_db s) = fold (\<lambda>f. f) (take n gs) d" "\<not> db_txn (sy_db s) \<longrightarrow> n = length gs"
    using assms by (auto simp: sync_inv_def)
  note defs = sync_inv_def end_txn_def spd_db_commite_trancaction_def spd_db_rollback_transaction_def db_do_transaction_def
  show ?thesis
  proof (cases "db_txn (sy_db s) \<and> \<not> c \<and> r")
    case True
    then show ?thesis using n by (intro exI [of _ n]) (auto simp: defs intro!: exI [of _ n])
  next
    case False
    then show ?thesis using assms n by (intro exI [of _ "length gs"]) (auto simp: defs)
  qed
qed

lemma inv_section:
  assumes "sync_inv d gs s"
  shows "\<exists>n \<le> length gs. (c \<longrightarrow> n = length gs) \<and> sync_inv d (take n gs) (sync_section c r b s)"
proof (cases "sy_pc s = Woken")
  case True
  obtain n where n: "n \<le> length gs" "c \<longrightarrow> n = length gs" "sync_inv d (take n gs) (s\<lparr>sy_db := end_txn c r (sy_db s)\<rparr>)"
    using inv_end [OF assms] by blast
  have "sync_inv d (take n gs) (sync_section c r b s)"
    using inv_begin [OF n(3), where b = b and p = Sleeping] inv_db [OF n(3)] by (simp add: section_woken [OF True])
  then show ?thesis using n by blast
next
  case False
  have "sync_inv d gs (sync_section c r b s)"
    using False inv_begin [OF assms, where b = b and p = WaitCond] inv_db [OF assms]
    by (cases "sy_pc s") (simp_all add: sync_section_def assms)
  then show ?thesis by (intro exI [of _ "length gs"]) simp
qed

lemma inv_client:
  assumes "sync_inv d fs s"
  shows "sync_inv d (fs @ [f]) (client_section f s)"
proof -
  obtain n where n: "n \<le> length fs" "db_disk (sy_db s) = fold (\<lambda>f. f) (take n fs) d"
    using assms by (auto simp: sync_inv_def)
  show ?thesis
  proof (cases "db_txn (sy_db s)")
    case True
    then show ?thesis using assms n by (auto simp: sync_inv_def client_section_def db_execute_def intro!: exI [of _ n])
  next
    case False
    then show ?thesis using assms
      by (auto simp: sync_inv_def client_section_def db_execute_def intro!: exI [of _ "Suc (length fs)"])
  qed
qed

fun commit_ok :: "'d db_event \<Rightarrow> bool" where
  "commit_ok (Section c r b) = c"
| "commit_ok _ = True"

lemma inv_step:
  assumes "sync_inv d gs s"
  shows "\<exists>gs'. subseq gs' (gs @ clients [x]) \<and> (commit_ok x \<longrightarrow> gs' = gs @ clients [x]) \<and> sync_inv d gs' (db_step x s)"
proof (cases x)
  case (Section c r b)
  obtain n where "n \<le> length gs" "c \<longrightarrow> n = length gs" "sync_inv d (take n gs) (sync_section c r b s)"
    using inv_section [OF assms] by blast
  moreover have "subseq (take n gs) gs" by (metis append_take_drop_id list_emb_append2 subseq_order.refl subseq_rev_drop_many)
  ultimately show ?thesis using Section by (intro exI [of _ "take n gs"]) auto
next
  case (Client f)
  then show ?thesis using inv_client [OF assms] by (intro exI [of _ "gs @ [f]"]) simp
qed (intro exI [of _ gs], simp add: uninit_flag_def uninit_signal_def inv_db [OF assms])+

lemma inv_steps:
  "\<exists>gs. subseq gs (clients xs) \<and> (list_all commit_ok xs \<longrightarrow> gs = clients xs) \<and> sync_inv d gs (db_steps xs d)"
proof (induction xs rule: rev_induct)
  case Nil
  show ?case by (simp add: sync_inv_def db_steps_def db_new_def)
next
  case (snoc x xs)
  obtain gs where gs: "subseq gs (clients xs)" "list_all commit_ok xs \<longrightarrow> gs = clients xs" "sync_inv d gs (db_steps xs d)"
    using snoc.IH by blast
  obtain gs' where gs': "subseq gs' (gs @ clients [x])" "commit_ok x \<longrightarrow> gs' = gs @ clients [x]" "sync_inv d gs' (db_step x (db_steps xs d))"
    using inv_step [OF gs(3)] by blast
  have "subseq gs' (clients (xs @ [x]))"
    using gs'(1) gs(1) unfolding clients_append by (meson list_emb_append_mono subseq_order.order_trans subseq_order.refl)
  then show ?case using gs gs' by (intro exI [of _ gs']) (auto simp: clients_append db_steps_def)
qed



section \<open>The store\<close>

text \<open>
  Keys are a table without slash and a key that together fit the buffer of \<open>spd_db_get\<close>; values fit a
  buffer of 256 characters. The state is the SQLite, what its rows are, and the database.
\<close>

definition db_key_ok :: "string \<times> string \<Rightarrow> bool" where
  "db_key_ok k \<longleftrightarrow> CHR ''/'' \<notin> set (fst k) \<and> length (fst k) + length (snd k) + 2 \<le> 255"

definition db_val_ok :: "string \<Rightarrow> bool" where
  "db_val_ok v \<longleftrightarrow> is_cstr v \<and> length v < 256"

definition row_key :: "string \<times> string \<Rightarrow> string" where
  "row_key k = ''/'' @ fst k @ ''/'' @ snd k"

type_synonym 's db_state = "'s sqlite \<times> ('s \<Rightarrow> string \<Rightarrow> string option) \<times> 's spd_db"

definition db_rep :: "'s db_state \<Rightarrow> (string \<times> string \<Rightarrow> string option) \<Rightarrow> bool" where
  "db_rep s m \<longleftrightarrow> (case s of (q, rows, db) \<Rightarrow> sqlite_ok q rows \<and>
     (\<forall>k. db_key_ok k \<longrightarrow> rows (db_sq db) (row_key k) = m k \<and> (\<forall>v. m k = Some v \<longrightarrow> db_val_ok v)))"

definition st_get :: "'s db_state \<Rightarrow> string \<times> string \<Rightarrow> string option" where
  "st_get s k = (case s of (q, rows, db) \<Rightarrow>
     (case spd_db_get q (fst k) (snd k) (replicate 256 NUL) 256 db of
        Some (r, b) \<Rightarrow> if r = 0 then Some (cstr b) else None
      | None \<Rightarrow> None))"

definition st_put :: "'s db_state \<Rightarrow> string \<times> string \<Rightarrow> string \<Rightarrow> 's db_state option" where
  "st_put s k v = (case s of (q, rows, db) \<Rightarrow>
     (case spd_db_put q (fst k) (snd k) v db of Some (r, db) \<Rightarrow> if r = 0 then Some (q, rows, db) else None | None \<Rightarrow> None))"

definition st_del :: "'s db_state \<Rightarrow> string \<times> string \<Rightarrow> 's db_state option" where
  "st_del s k = (case s of (q, rows, db) \<Rightarrow>
     (case spd_db_del q (fst k) (snd k) db of Some (r, db) \<Rightarrow> if r = 0 then Some (q, rows, db) else None | None \<Rightarrow> None))"

lemma db_repD:
  assumes "db_rep (q, rows, db) m"
  shows "sqlite_ok q rows"
    and "db_key_ok k \<Longrightarrow> rows (db_sq db) (row_key k) = m k"
    and "db_key_ok k \<Longrightarrow> m k = Some v \<Longrightarrow> db_val_ok v"
  using assms by (cases k; simp add: db_rep_def)+

lemma row_key_inj: "db_key_ok k \<Longrightarrow> db_key_ok k' \<Longrightarrow> row_key k = row_key k' \<longleftrightarrow> k = k'"
  using takeWhile_component [of "CHR ''/''" "fst k" "snd k"] takeWhile_component [of "CHR ''/''" "fst k'" "snd k'"]
  by (cases k; cases k') (auto simp: db_key_ok_def row_key_def)

lemma row_key_full: "db_key_ok k \<Longrightarrow> full_key (fst k) (snd k) = Some (row_key k)"
  by (simp add: db_key_ok_def row_key_def full_key_short)

lemma cstr_strncpy:
  assumes "is_cstr v" "length v < n"
  shows "cstr (strncpy buf v n) = v"
proof -
  have "n - length v = Suc (n - length v - 1)" using assms(2) by simp
  then have "strncpy buf v n = v @ NUL # replicate (n - length v - 1) NUL @ drop n buf"
    unfolding strncpy_def using assms(2) by (metis append_Cons append_assoc nless_le replicate_Suc take_all)
  then show ?thesis using assms(1) by (simp add: cstr_append_NUL)
qed

lemma get_row:
  assumes "db_rep (q, rows, db) m" "db_key_ok k"
  shows "spd_db_get q (fst k) (snd k) buf len db =
     Some (case m k of None \<Rightarrow> (- 1, buf) | Some v \<Rightarrow> (0, strncpy buf v len))"
proof -
  have "length (fst k) + length (snd k) + 2 \<le> 255" using assms(2) by (simp add: db_key_ok_def)
  then show ?thesis
    using sqlite_laws(1) [OF db_repD(1) [OF assms(1)], of "row_key k" "db_sq db"] db_repD(2) [OF assms] row_key_full [OF assms(2)]
    by (auto simp: spd_db_get_def split: option.splits)
qed

lemma put_row:
  assumes "db_rep (q, rows, db) m" "db_key_ok k" "db_val_ok v" "spd_db_put q (fst k) (snd k) v db = Some (0, db')"
  shows "db_rep (q, rows, db') (m(k \<mapsto> v))"
proof -
  have "rows (db_sq db') = (rows (db_sq db))(row_key k := Some v)"
    using assms(1, 2, 4) row_key_full [OF assms(2)] sqlite_laws(2) [of q rows "row_key k" v "db_sq db"]
    by (auto simp: db_rep_def spd_db_put_def split: if_splits prod.splits)
  then show ?thesis using assms(1-3) row_key_inj [OF _ assms(2)] by (auto simp: db_rep_def)
qed

lemma del_row:
  assumes "db_rep (q, rows, db) m" "db_key_ok k" "spd_db_del q (fst k) (snd k) db = Some (0, db')"
  shows "db_rep (q, rows, db') (m(k := None))"
proof -
  have "rows (db_sq db') = (rows (db_sq db))(row_key k := None)"
    using assms row_key_full [OF assms(2)] sqlite_laws(3) [of q rows "row_key k" "db_sq db"]
    by (auto simp: db_rep_def spd_db_del_def split: if_splits prod.splits)
  then show ?thesis using assms(1, 2) row_key_inj [OF _ assms(2)] by (auto simp: db_rep_def)
qed

interpretation db: spd_store st_get st_put st_del db_rep db_key_ok db_val_ok
proof
  fix s :: "'s db_state" and m k
  assume r: "db_rep s m" and k: "db_key_ok k"
  obtain q rows db where s: "s = (q, rows, db)" by (cases s)
  have v: "\<And>v. m k = Some v \<Longrightarrow> cstr (strncpy (replicate 256 NUL) v 256) = v"
    using db_repD(3) [OF r [unfolded s] k] by (intro cstr_strncpy) (auto simp: db_val_ok_def)
  then show "st_get s k = m k" using get_row [OF r [unfolded s] k] s by (auto simp: st_get_def split: option.splits)
next
  fix s s' :: "'s db_state" and m k v
  assume a: "db_rep s m" "db_key_ok k" "db_val_ok v" "st_put s k v = Some s'"
  obtain q rows db db' where s: "s = (q, rows, db)" "spd_db_put q (fst k) (snd k) v db = Some (0, db')" "s' = (q, rows, db')"
    using a(4) by (auto simp: st_put_def split: prod.splits option.splits if_splits)
  show "db_rep s' (m(k \<mapsto> v))" unfolding s(3) by (rule put_row [OF a(1) [unfolded s(1)] a(2,3) s(2)])
next
  fix s s' :: "'s db_state" and m k
  assume a: "db_rep s m" "db_key_ok k" "st_del s k = Some s'"
  obtain q rows db db' where s: "s = (q, rows, db)" "spd_db_del q (fst k) (snd k) db = Some (0, db')" "s' = (q, rows, db')"
    using a(3) by (auto simp: st_del_def split: prod.splits option.splits if_splits)
  show "db_rep s' (m(k := None))" unfolding s(3) by (rule del_row [OF a(1) [unfolded s(1)] a(2) s(2)])
qed

text \<open>
  C17: seen through \<open>spd_db_put\<close>, \<open>spd_db_get\<close> and \<open>spd_db_del\<close> the database is a map from table and
  key to value: a sequence of calls that all return a value answers every read as the map does.
\<close>

theorem db_refines_map:
  assumes "db_rep s m" "list_all (op_ok db_key_ok db_val_ok) ops" "store_run st_get st_put st_del ops s = Some (out, s')"
  shows "out = fst (map_run ops m) \<and> db_rep s' (snd (map_run ops m))"
  by (rule db.run_refines [OF assms])

theorem db_refines_map_witness:
  "\<exists>out s'. store_run st_get st_put st_del
       [Put (''cfg'', ''a'') ''1'', Put (''cfg'', ''b'') ''2'', Del (''cfg'', ''a''), Get (''cfg'', ''b''), Get (''cfg'', ''a'')]
       (demo_sqlite, map_of, \<lparr>db_sq = [], db_bound = None\<rparr>) = Some (out, s') \<and> out = [Some ''2'', None]"
proof -
  let ?s = "(demo_sqlite, map_of, \<lparr>db_sq = [], db_bound = None\<rparr>) :: (string \<times> string) list db_state"
  let ?ops = "[Put (''cfg'', ''a'') ''1'', Put (''cfg'', ''b'') ''2'', Del (''cfg'', ''a''), Get (''cfg'', ''b''), Get (''cfg'', ''a'')]"
  have rep: "db_rep ?s (\<lambda>_. None)" using demo_sqlite_ok by (simp add: db_rep_def)
  have ok: "list_all (op_ok db_key_ok db_val_ok) ?ops" by (simp add: db_key_ok_def db_val_ok_def is_cstr_def)
  have "store_run st_get st_put st_del ?ops ?s \<noteq> None"
    by (simp add: st_put_def st_del_def spd_db_put_def spd_db_del_def full_key_short demo_sqlite_def)
  then obtain out s' where r: "store_run st_get st_put st_del ?ops ?s = Some (out, s')" by (metis option.exhaust surj_pair)
  have "out = fst (map_run ?ops (\<lambda>_. None))" using db_refines_map [OF rep ok r] by blast
  then have "out = [Some ''2'', None]" by simp
  then show ?thesis using r by blast
qed

section \<open>A change without a signal\<close>

lemma sections_idle:
  "sy_pc s = Sleeping \<Longrightarrow> \<not> sy_doexit s \<Longrightarrow> (sync_section c r b ^^ n) s = (if n = 0 then s else s\<lparr>sy_pc := WaitCond\<rparr>)"
  by (induction n) (simp_all add: sync_section_def)

text \<open>
  C10: a change made while the thread waits for \<open>dbcond\<close> is on disk after the thread's next
  section. The signal of a change made in the second after a commit reaches nobody: with no further
  signal the thread may run any number of sections and never writes it, and when the program ends
  within that second the connection is closed without it.
\<close>

theorem db_sync_signal:
  assumes "db_txn (sy_db s)" "\<not> sy_doexit s"
  shows "(sy_pc s = WaitCond \<longrightarrow> db_disk (sy_db (sync_section True r b (client_section f s))) = f (db_now (sy_db s))) \<and>
    (sy_pc s = Sleeping \<longrightarrow>
       (\<forall>n. db_disk (sy_db ((sync_section c r b ^^ n) (client_section f s))) = db_disk (sy_db s)) \<and>
       uninit_close (sync_section c r b (uninit_signal (uninit_flag (client_section f s)))) = Some (db_disk (sy_db s)))"
proof (intro conjI impI allI)
  assume pc: "sy_pc s = WaitCond"
  then have w: "sy_pc (client_section f s) = Woken" by (simp add: client_section_def)
  show "db_disk (sy_db (sync_section True r b (client_section f s))) = f (db_now (sy_db s))"
    using assms by (simp add: section_woken [OF w])
      (simp add: client_section_def db_execute_def end_txn_def spd_db_commite_trancaction_def
        spd_db_begin_transaction_def db_do_transaction_def)
next
  fix n
  assume pc: "sy_pc s = Sleeping"
  have "sy_pc (client_section f s) = Sleeping" "\<not> sy_doexit (client_section f s)"
    using pc assms by (simp_all add: client_section_def)
  then show "db_disk (sy_db ((sync_section c r b ^^ n) (client_section f s))) = db_disk (sy_db s)"
    using assms by (simp add: sections_idle client_section_def db_execute_def)
next
  assume "sy_pc s = Sleeping"
  then show "uninit_close (sync_section c r b (uninit_signal (uninit_flag (client_section f s)))) = Some (db_disk (sy_db s))"
    using assms by (simp add: uninit_close_def uninit_signal_def uninit_flag_def client_section_def db_execute_def sync_section_def)
qed

text \<open>From the start to the sleep after a first change: the second change is the one that is lost.\<close>

theorem db_sync_signal_witness:
  "uninit_close (sync_section True True True (uninit_signal (uninit_flag (client_section (Cons (2::nat))
     (db_steps [Section True True True, Client (Cons 1), Section True True True] []))))) = Some [1]"
proof -
  let ?s = "db_steps [Section True True True, Client (Cons (1::nat)), Section True True True] []"
  note defs = db_steps_def db_new_def sync_section_def client_section_def db_execute_def do_dbsync_def
    spd_db_commite_trancaction_def spd_db_begin_transaction_def db_do_transaction_def
  have s: "db_txn (sy_db ?s)" "\<not> sy_doexit ?s" "sy_pc ?s = Sleeping" "db_disk (sy_db ?s) = [1]" by (simp_all add: defs)
  show ?thesis using db_sync_signal [OF s(1,2), of True True "Cons 2" True] s(3,4) by simp
qed

end
