(* ===== verification/Spd_DbTree.thy ===== *)
theory Spd_DbTree
  imports Spd_Db "HOL-Library.Monad_Syntax"
begin

text \<open>
  The list that \<open>spd_db_gettree\<close> of \<open>internal_db.c\<close> builds in memory, and \<open>spd_db_freetree\<close>. The heap
  maps the address of an allocated entry to its contents; the allocator is an argument, which gives an
  address that is not in use or fails. A row has two columns, null where SQLite gives none. \<open>Spd_Db\<close>
  says which rows there are.
\<close>

section \<open>Entries\<close>

text \<open>The key is a pointer into the bytes of the entry: here the distance from their start.\<close>

record spd_db_entry =
  de_next :: "nat option"
  de_key :: nat
  de_data :: "char list"

type_synonym db_heap = "nat \<rightharpoonup> spd_db_entry"

definition new_entry :: "string \<Rightarrow> string \<Rightarrow> spd_db_entry" where
  "new_entry key_s value_s =
     \<lparr>de_next = None, de_key = length value_s + 1, de_data = value_s @ NUL # key_s @ [NUL]\<rparr>"

text \<open>\<open>None\<close>: the last entry has been freed.\<close>

definition set_next :: "nat \<Rightarrow> nat \<Rightarrow> db_heap \<Rightarrow> db_heap option" where
  "set_next l a h = map_option (\<lambda>e. h(l \<mapsto> e\<lparr>de_next := Some a\<rparr>)) (h l)"

fun gettree_loop ::
  "(db_heap \<Rightarrow> nat option) \<Rightarrow> (string option \<times> string option) list \<Rightarrow> nat option \<Rightarrow> nat option \<Rightarrow> db_heap \<Rightarrow>
   (nat option \<times> db_heap) option" where
  "gettree_loop alloc [] prev ret h = Some (ret, h)"
| "gettree_loop alloc ((k, v) # rs) prev ret h =
     (case (k, v) of
        (Some key_s, Some value_s) \<Rightarrow>
          (case alloc h of
             None \<Rightarrow> Some (ret, h)
           | Some cur \<Rightarrow>
               (let h = h(cur \<mapsto> new_entry key_s value_s)
                in case prev of
                     Some l \<Rightarrow>
                       (case set_next l cur h of
                          None \<Rightarrow> None
                        | Some h \<Rightarrow> gettree_loop alloc rs (Some cur) ret h)
                   | None \<Rightarrow> gettree_loop alloc rs (Some cur) (Some cur) h))
      | _ \<Rightarrow> Some (ret, h))"

definition gettree_list ::
  "(db_heap \<Rightarrow> nat option) \<Rightarrow> (string option \<times> string option) list \<Rightarrow> db_heap \<Rightarrow> (nat option \<times> db_heap) option" where
  "gettree_list alloc rs h = gettree_loop alloc rs None None h"

text \<open>\<open>None\<close>: an entry is read after it was freed, or the list has no end.\<close>

partial_function (option) spd_db_freetree :: "nat option \<Rightarrow> db_heap \<Rightarrow> db_heap option" where
  "spd_db_freetree p h =
     (case p of
        None \<Rightarrow> Some h
      | Some a \<Rightarrow>
          (case h a of
             None \<Rightarrow> None
           | Some e \<Rightarrow> spd_db_freetree (de_next e) (h(a := None))))"

text \<open>A caller walks the list and reads keys and values as strings.\<close>

partial_function (option) read_tree :: "db_heap \<Rightarrow> nat option \<Rightarrow> (string \<times> string) list option" where
  "read_tree h p =
     (case p of
        None \<Rightarrow> Some []
      | Some a \<Rightarrow>
          (case h a of
             None \<Rightarrow> None
           | Some e \<Rightarrow> do {
               xs \<leftarrow> read_tree h (de_next e);
               Some ((cstr (drop (de_key e) (de_data e)), cstr (de_data e)) # xs)
             }))"

section \<open>Chains\<close>

text \<open>The entries at \<open>as\<close>, in this order, lead from \<open>p\<close> to the null pointer and hold \<open>rs\<close>.\<close>

fun chain :: "db_heap \<Rightarrow> nat option \<Rightarrow> nat list \<Rightarrow> (string \<times> string) list \<Rightarrow> bool" where
  "chain h p [] [] \<longleftrightarrow> p = None"
| "chain h p (a # as) ((k, v) # rs) \<longleftrightarrow>
     p = Some a \<and> (\<exists>nx. h a = Some (new_entry k v\<lparr>de_next := nx\<rparr>) \<and> chain h nx as rs)"
| "chain h p as rs \<longleftrightarrow> False"

lemma chain_Nil: "chain h p [] rs \<longleftrightarrow> p = None \<and> rs = []"
  by (cases rs) auto

lemma chain_other: "a \<notin> set as \<Longrightarrow> chain (h(a := x)) p as rs = chain h p as rs"
  by (induction h p as rs rule: chain.induct) auto

lemma chain_in_heap: "chain h p as rs \<Longrightarrow> set as \<subseteq> dom h"
  by (induction h p as rs rule: chain.induct) auto

lemma entry_next: "de_next (e\<lparr>de_next := nx\<rparr>) = nx"
  by simp

lemma chain_free:
  "chain h p as rs \<Longrightarrow> distinct as \<Longrightarrow> spd_db_freetree p h = Some (h |` (- set as))"
proof (induction as arbitrary: h p rs)
  case Nil
  then show ?case by (cases rs) (simp_all add: spd_db_freetree.simps restrict_map_def)
next
  case (Cons a as)
  from Cons.prems(1) obtain k v rs' where rs: "rs = (k, v) # rs'" by (cases rs) auto
  obtain nx where nx: "p = Some a" "h a = Some (new_entry k v\<lparr>de_next := nx\<rparr>)" "chain h nx as rs'"
    using Cons.prems(1) rs by auto
  have "chain (h(a := None)) nx as rs'" using nx(3) Cons.prems(2) chain_other by simp
  then have "spd_db_freetree nx (h(a := None)) = Some ((h(a := None)) |` (- set as))"
    by (rule Cons.IH) (use Cons.prems(2) in simp)
  moreover have "(h(a := None)) |` (- set as) = h |` (- set (a # as))" by (auto simp: restrict_map_def fun_eq_iff)
  ultimately have f: "spd_db_freetree nx (h(a := None)) = Some (h |` (- set (a # as)))" by (simp only:)
  show ?case unfolding nx(1) by (subst spd_db_freetree.simps) (simp only: option.case nx(2) entry_next f)
qed

lemma chain_read:
  "chain h p as rs \<Longrightarrow> list_all (\<lambda>(k, v). is_cstr k \<and> is_cstr v) rs \<Longrightarrow> read_tree h p = Some rs"
proof (induction h p as rs rule: chain.induct)
  case (1 h p)
  then show ?case by (simp add: read_tree.simps)
next
  case (2 h p a as k v rs)
  then obtain nx where nx: "p = Some a" "h a = Some (new_entry k v\<lparr>de_next := nx\<rparr>)" "chain h nx as rs" by auto
  moreover have "cstr (v @ NUL # k @ [NUL]) = v" "cstr (k @ [NUL]) = k" using 2(3) by (simp_all add: cstr_append_NUL)
  ultimately show ?case using 2 by (subst read_tree.simps) (simp add: new_entry_def)
qed simp_all

text \<open>Appending: the entry at the end gets a successor.\<close>

lemma chain_snoc:
  assumes "chain h p (as @ [l]) rs" "distinct (as @ [l])" "a \<notin> dom h"
  shows "\<exists>e. h l = Some e \<and>
     chain (h(a \<mapsto> new_entry k v, l \<mapsto> e\<lparr>de_next := Some a\<rparr>)) p (as @ [l, a]) (rs @ [(k, v)])"
  using assms(1,2)
proof (induction as arbitrary: p rs)
  case Nil
  then obtain k' v' where "rs = [(k', v')]" by (cases rs) (auto simp: chain_Nil)
  with Nil assms(3) show ?case by (auto simp: new_entry_def)
next
  case (Cons b as)
  then obtain k' v' rs' where rs: "rs = (k', v') # rs'" by (cases rs) auto
  with Cons.prems obtain nx where nx: "p = Some b" "h b = Some (new_entry k' v'\<lparr>de_next := nx\<rparr>)" "chain h nx (as @ [l]) rs'"
    by auto
  have "b \<noteq> a" "b \<noteq> l" using nx(2) assms(3) Cons.prems(2) by auto
  with Cons.IH [OF nx(3)] Cons.prems(2) nx(1,2) rs show ?case by auto
qed

section \<open>Property\<close>

definition tree_inv :: "db_heap \<Rightarrow> db_heap \<Rightarrow> nat option \<Rightarrow> nat option \<Rightarrow> nat list \<Rightarrow> (string \<times> string) list \<Rightarrow> bool" where
  "tree_inv h0 h prev ret as rs \<longleftrightarrow>
     chain h ret as rs \<and> distinct as \<and> h |` (- set as) = h0 \<and> prev = (if as = [] then None else Some (List.last as))"

lemma tree_inv_step:
  assumes "tree_inv h0 h prev ret as built" "a \<notin> dom h"
  obtains h' ret' where
    "tree_inv h0 h' (Some a) ret' (as @ [a]) (built @ [(k, v)])"
    "\<And>alloc rs. alloc h = Some a \<Longrightarrow>
       gettree_loop alloc ((Some k, Some v) # rs) prev ret h = gettree_loop alloc rs (Some a) ret' h'"
proof (cases as rule: rev_cases)
  case Nil
  let ?h = "h(a \<mapsto> new_entry k v)"
  have d: "built = []" "prev = None" using assms(1) Nil by (cases "built"; auto simp: tree_inv_def)+
  have "h a = None" using assms(2) by auto
  then have "?h |` (- {a}) = h0" using assms(1) Nil by (auto simp: tree_inv_def restrict_map_def fun_eq_iff)
  then have "tree_inv h0 ?h (Some a) (Some a) (as @ [a]) (built @ [(k, v)])"
    by (simp add: tree_inv_def Nil d new_entry_def)
  with that [of ?h "Some a"] show ?thesis by (simp add: d(2))
next
  case (snoc bs l)
  have l: "prev = Some l" "chain h ret (bs @ [l]) built" "distinct (bs @ [l])" using assms(1) snoc by (auto simp: tree_inv_def)
  obtain e where e: "h l = Some e"
      "chain (h(a \<mapsto> new_entry k v, l \<mapsto> e\<lparr>de_next := Some a\<rparr>)) ret (bs @ [l, a]) (built @ [(k, v)])"
    using chain_snoc [OF l(2,3) assms(2)] by blast
  let ?h = "h(a \<mapsto> new_entry k v, l \<mapsto> e\<lparr>de_next := Some a\<rparr>)"
  have n: "a \<noteq> l" "a \<notin> set as" using e(1) assms(2) chain_in_heap [OF l(2)] snoc by auto
  have "h a = None" using assms(2) by auto
  then have "?h |` (- set (as @ [a])) = h |` (- set as)" using snoc by (auto simp: restrict_map_def fun_eq_iff)
  then have "tree_inv h0 ?h (Some a) ret (as @ [a]) (built @ [(k, v)])"
    using assms(1) e(2) n snoc by (simp add: tree_inv_def)
  with that [of ?h ret] show ?thesis using n(1) e(1) by (simp add: l(1) set_next_def)
qed

text \<open>The rows up to the first that has a null column.\<close>

fun row_texts :: "(string option \<times> string option) list \<Rightarrow> (string \<times> string) list" where
  "row_texts ((Some k, Some v) # rs) = (k, v) # row_texts rs"
| "row_texts rs = []"

lemma gettree_builds:
  assumes "\<forall>h a. alloc h = Some a \<longrightarrow> a \<notin> dom h" "tree_inv h0 h prev ret as built"
  shows "\<exists>n p h' as' prev'. gettree_loop alloc rs prev ret h = Some (p, h') \<and>
     tree_inv h0 h' prev' p as' (built @ take n (row_texts rs)) \<and>
     (n = length (row_texts rs) \<or> alloc h' = None)"
  using assms(2)
proof (induction rs arbitrary: h prev ret as built rule: row_texts.induct)
  case (1 k v rs)
  show ?case
  proof (cases "alloc h")
    case None
    then show ?thesis using 1(2) by (intro exI [of _ 0]) auto
  next
    case (Some a)
    then have "a \<notin> dom h" using assms(1) by blast
    then obtain h1 ret1 where st: "tree_inv h0 h1 (Some a) ret1 (as @ [a]) (built @ [(k, v)])"
      "gettree_loop alloc ((Some k, Some v) # rs) prev ret h = gettree_loop alloc rs (Some a) ret1 h1"
      using tree_inv_step [OF 1(2)] Some by metis
    from 1(1) [OF st(1)] obtain n p h' as' prev' where
      "gettree_loop alloc rs (Some a) ret1 h1 = Some (p, h')"
      "tree_inv h0 h' prev' p as' ((built @ [(k, v)]) @ take n (row_texts rs))"
      "n = length (row_texts rs) \<or> alloc h' = None" by blast
    then show ?thesis unfolding st(2) by (intro exI [of _ "Suc n"]) auto
  qed
qed (fastforce split: option.splits)+

text \<open>
  C18: whatever the allocator does, the list that is built in memory holds the rows in
  their order, all of them before the first null column if no allocation fails; a walk over it reads
  keys and values back, nothing else in memory is changed, and freeing it frees exactly what it took:
  no entry is lost, read after it was freed, or freed twice.
\<close>

theorem db_tree_memory:
  assumes "\<forall>h a. alloc h = Some a \<longrightarrow> a \<notin> dom h" "list_all (\<lambda>(k, v). is_cstr k \<and> is_cstr v) (row_texts rs)"
  shows "\<exists>n p h'. gettree_list alloc rs h = Some (p, h') \<and>
     read_tree h' p = Some (take n (row_texts rs)) \<and>
     (n = length (row_texts rs) \<or> alloc h' = None) \<and>
     h \<subseteq>\<^sub>m h' \<and> spd_db_freetree p h' = Some h"
proof -
  have "tree_inv h h None None [] []" by (simp add: tree_inv_def restrict_map_def)
  from gettree_builds [OF assms(1) this, of rs] obtain n p h' as prev where
    l: "gettree_loop alloc rs None None h = Some (p, h')" "tree_inv h h' prev p as (take n (row_texts rs))"
      "n = length (row_texts rs) \<or> alloc h' = None" unfolding append_Nil by blast
  have i: "chain h' p as (take n (row_texts rs))" "distinct as" "h' |` (- set as) = h" using l(2) by (simp_all add: tree_inv_def)
  have "list_all (\<lambda>(k, v). is_cstr k \<and> is_cstr v) (take n (row_texts rs))"
    using assms(2) by (auto simp: list_all_iff dest: in_set_takeD)
  from chain_read [OF i(1) this] chain_free [OF i(1,2)] i(3)
  have "read_tree h' p = Some (take n (row_texts rs))" "spd_db_freetree p h' = Some h" "h \<subseteq>\<^sub>m h'"
    by (auto simp: map_le_def restrict_map_def split: if_splits)
  then show ?thesis using l(1,3) unfolding gettree_list_def by blast
qed

text \<open>Two rows, the second with a null column, and a block of somebody else at 1.\<close>

theorem db_tree_memory_witness:
  "\<exists>h'. gettree_list (\<lambda>h. find (\<lambda>a. h a = None) [1, 2, 3]) [(Some ''/a/b'', Some ''x''), (Some ''/a/c'', None)]
       [1 \<mapsto> new_entry [] []] = Some (Some 2, h') \<and>
     read_tree h' (Some 2) = Some [(''/a/b'', ''x'')] \<and> spd_db_freetree (Some 2) h' = Some [1 \<mapsto> new_entry [] []]"
proof -
  let ?al = "\<lambda>h :: db_heap. find (\<lambda>a. h a = None) [1, 2, 3]"
  let ?rs = "[(Some ''/a/b'', Some ''x''), (Some ''/a/c'', None)]"
  have al: "\<forall>h a. ?al h = Some a \<longrightarrow> a \<notin> dom h" by (auto split: if_splits)
  have g: "gettree_list ?al ?rs [1 \<mapsto> new_entry [] []] =
      Some (Some 2, [1 \<mapsto> new_entry [] [], 2 \<mapsto> new_entry ''/a/b'' ''x''])"
    by (simp add: gettree_list_def)
  have "list_all (\<lambda>(k, v). is_cstr k \<and> is_cstr v) (row_texts ?rs)" by (simp add: is_cstr_def)
  from db_tree_memory [OF al this, of "[1 \<mapsto> new_entry [] []]"] show ?thesis unfolding g by auto
qed

end
