(* ===== verification/Spd_DbTest.thy ===== *)
theory Spd_DbTest
  imports Spd_DbSync Spd_Test "HOL-Library.Monad_Syntax"
begin

text \<open>
  The test that \<open>internal_db.c\<close> has for itself, and \<open>test_spddb\<close>, which hands it to the test engine:
  the place where the database and the engine meet. \<open>src\<close> is the name that the compiler gives the
  source file. The world of the engine's callbacks is the database, or \<open>None\<close> after a call without a
  defined result.
\<close>

section \<open>The test\<close>

definition test_inputs :: "(string \<times> string \<times> string) list" where
  "test_inputs = [(''family'', ''key'', ''value''), (''dbtest'', ''a'', ''b''), (''dbtest'', ''a'', ''a''),
     (''dbtest'', ''b'', ''a''), (''dbtest'', ''b'', ''b'')]"

text \<open>What is said of a call that fails, on the line where that is found out. The log is left out.\<close>

definition put_text :: "string \<Rightarrow> string \<Rightarrow> string \<Rightarrow> string" where
  "put_text fam key val = ''test failed in db put '' @ fam @ '' : '' @ key @ '' : '' @ val @ '' : '' @ lf"

definition match_text :: "string \<Rightarrow> string \<Rightarrow> string" where
  "match_text found val =
     ''test failed in db get , this is not match value,expect '' @ found @ '' but '' @ val @ '' '' @ lf"

definition test_failed ::
  "string \<Rightarrow> int \<Rightarrow> string \<Rightarrow> 'cb spd_test \<Rightarrow> (spd_test_result \<times> 'cb spd_test) option" where
  "test_failed src line out test =
     map_option (\<lambda>(_, test). (TEST_RESULT_FAILED, test)) (spd_test_update_state True src ''test_db'' line out test)"

text \<open>The buffer has the size of \<open>large_name\<close>, 8, and is kept from one input to the next.\<close>

fun test_db_loop ::
  "string \<Rightarrow> 's sqlite \<Rightarrow> (string \<times> string \<times> string) list \<Rightarrow> char list \<Rightarrow> spd_test_result \<Rightarrow> 'cb spd_test \<Rightarrow>
   's spd_db \<Rightarrow> (spd_test_result \<times> 'cb spd_test \<times> 's spd_db) option" where
  "test_db_loop src q [] buf res test db = Some (res, test, db)"
| "test_db_loop src q ((fam, key, val) # ins) buf res test db = do {
     (r, db) \<leftarrow> spd_db_put q fam key val db;
     (res, test) \<leftarrow> (if r \<noteq> 0 then test_failed src 494 (put_text fam key val) test else Some (res, test));
     (r, buf) \<leftarrow> spd_db_get q fam key buf 8 db;
     (res, test) \<leftarrow>
       (if r \<noteq> 0 then test_failed src 500 (put_text fam key val) test
        else if strcasecmp val (cstr buf) \<noteq> 0 then test_failed src 504 (match_text (cstr buf) val) test
        else Some (res, test));
     (r, db) \<leftarrow> spd_db_del q fam key db;
     (res, test) \<leftarrow> (if r \<noteq> 0 then test_failed src 512 (match_text (cstr buf) val) test else Some (res, test));
     test_db_loop src q ins buf res test db
   }"

definition test_db ::
  "string \<Rightarrow> 's sqlite \<Rightarrow> spd_test_cmd \<Rightarrow> 'cb spd_test \<Rightarrow> 's spd_db option \<Rightarrow>
   spd_test_result \<times> 'cb spd_test \<times> 's spd_db option" where
  "test_db src q cmd test w =
     (case cmd of
        SPD_TEST_CMD_INIT \<Rightarrow>
          (TEST_RESULT_NOT_RUN,
           test\<lparr>t_info := \<lparr>tr_name = Some ''test_db'', tr_category = Some ''/spider/db/'',
                          tr_description = Some ''spd db get|put|del unit test''\<rparr>\<rparr>, w)
      | SPD_TEST_CMD_RUN \<Rightarrow>
          (case w \<bind> test_db_loop src q test_inputs (replicate 8 NUL) TEST_RESULT_PASS test of
             None \<Rightarrow> (TEST_RESULT_FAILED, test, None)
           | Some (res, test, db) \<Rightarrow> (res, test, Some db)))"

text \<open>
  \<open>me\<close> is the callback among those that the engine knows. The result is the code, what is written to
  the report, the database and the engine.
\<close>

definition test_spddb ::
  "('cb, 's spd_db option) spd_test_cb \<Rightarrow> 'cb \<Rightarrow> ('s spd_db option \<Rightarrow> timeval) \<Rightarrow> bool \<Rightarrow> 's spd_db option \<Rightarrow>
   'cb test_engine \<Rightarrow> (int \<times> string \<times> 's spd_db option \<times> 'cb test_engine) option" where
  "test_spddb cbs me now fopen_ok w te =
     (let (_, w, te) = spd_test_register cbs True (Some me) w te
      in do {
        (_, w, te) \<leftarrow> spd_test_run cbs now (Some ''test_db'') None w te;
        (_, out) \<leftarrow> spd_test_report fopen_ok (Some ''test_db'') None (Some ''/tmp/spddb_test'') te;
        let (_, te) = spd_test_unregister (Some me) te;
        Some (0, out, w, te)
      })"

section \<open>What the test does on a working database\<close>

lemma test_db_input:
  assumes "sqlite_ok q rows" "\<forall>k v s. fst (q_put q k v s)" "\<forall>k s. fst (q_del q k s)"
    and k: "db_key_ok (fam, key)" and v: "is_cstr val" "length val < 8"
  shows "\<exists>buf' db'. test_db_loop src q ((fam, key, val) # ins) buf res test db = test_db_loop src q ins buf' res test db' \<and>
     rows (db_sq db') = (rows (db_sq db))(row_key (fam, key) := None)"
proof -
  have len: "length fam + length key + 2 \<le> 255" using k by (simp add: db_key_ok_def)
  have fk: "full_key fam key = Some (row_key (fam, key))" using row_key_full [OF k] by simp
  obtain s1 where s1: "q_put q (row_key (fam, key)) val (db_sq db) = (True, s1)" using assms(2) by (metis prod.collapse)
  obtain s2 where s2: "q_del q (row_key (fam, key)) s1 = (True, s2)" using assms(3) by (metis prod.collapse)
  note r1 = sqlite_laws(2) [OF assms(1) s1] and r2 = sqlite_laws(3) [OF assms(1) s2]
  have "test_db_loop src q ((fam, key, val) # ins) buf res test db =
      test_db_loop src q ins (strncpy buf val 8) res test (db\<lparr>db_sq := s2\<rparr>)"
    using len by (simp add: spd_db_put_def spd_db_get_def spd_db_del_def fk s1 s2 sqlite_laws(1) [OF assms(1)] r1
      cstr_strncpy [OF v])
  then show ?thesis using r1 r2 by (intro exI [of _ "strncpy buf val 8"] exI [of _ "db\<lparr>db_sq := s2\<rparr>"]) simp
qed

abbreviation test_keys :: "(string \<times> string \<times> string) list \<Rightarrow> string set" where
  "test_keys ins \<equiv> (\<lambda>(fam, key, val). row_key (fam, key)) ` set ins"

lemma test_db_loop_passes:
  assumes "sqlite_ok q rows" "\<forall>k v s. fst (q_put q k v s)" "\<forall>k s. fst (q_del q k s)"
    and "list_all (\<lambda>(fam, key, val). db_key_ok (fam, key) \<and> is_cstr val \<and> length val < 8) ins"
  shows "\<exists>db'. test_db_loop src q ins buf res test db = Some (res, test, db') \<and>
     rows (db_sq db') = (\<lambda>x. if x \<in> test_keys ins then None else rows (db_sq db) x)"
  using assms(4)
proof (induction ins arbitrary: buf db)
  case (Cons i ins)
  obtain fam key val where i: "i = (fam, key, val)" by (cases i)
  obtain buf' db' where st: "test_db_loop src q (i # ins) buf res test db = test_db_loop src q ins buf' res test db'"
      "rows (db_sq db') = (rows (db_sq db))(row_key (fam, key) := None)"
    using test_db_input [OF assms(1-3)] Cons.prems i by fastforce
  obtain db'' where "test_db_loop src q ins buf' res test db' = Some (res, test, db'')"
      "rows (db_sq db'') = (\<lambda>x. if x \<in> test_keys ins then None else rows (db_sq db') x)"
    using Cons.IH Cons.prems by fastforce
  then show ?case using st i by (intro exI [of _ db'']) auto
qed simp

lemma test_db_runs:
  assumes "sqlite_ok q rows" "\<forall>k v s. fst (q_put q k v s)" "\<forall>k s. fst (q_del q k s)"
  shows "\<exists>db'. test_db src q SPD_TEST_CMD_RUN test (Some db) = (TEST_RESULT_PASS, test, Some db') \<and>
     rows (db_sq db') = (\<lambda>x. if x \<in> test_keys test_inputs then None else rows (db_sq db) x)"
proof -
  have "list_all (\<lambda>(fam, key, val). db_key_ok (fam, key) \<and> is_cstr val \<and> length val < 8) test_inputs"
    by (simp add: test_inputs_def db_key_ok_def is_cstr_def)
  from test_db_loop_passes [OF assms this, of src "replicate 8 NUL" TEST_RESULT_PASS test db]
  obtain db' where "test_db_loop src q test_inputs (replicate 8 NUL) TEST_RESULT_PASS test db = Some (TEST_RESULT_PASS, test, db')"
    "rows (db_sq db') = (\<lambda>x. if x \<in> test_keys test_inputs then None else rows (db_sq db) x)" by blast
  then show ?thesis by (simp add: test_db_def)
qed

lemma test_db_same:
  assumes "sqlite_ok q rows" "\<forall>k v s. fst (q_put q k v s)" "\<forall>k s. fst (q_del q k s)"
    and "test_db src q SPD_TEST_CMD_RUN t w = (r, t', w')"
  shows "t' = t"
proof (cases w)
  case (Some d)
  then show ?thesis using test_db_runs [OF assms(1-3), of src t d] assms(4) by auto
qed (use assms(4) in \<open>simp add: test_db_def\<close>)

lemma test_db_keeps:
  assumes "sqlite_ok q rows" "\<forall>k v s. fst (q_put q k v s)" "\<forall>k s. fst (q_del q k s)" "cbs_keep cbs"
  shows "cbs_keep (cbs(me := test_db src q))"
  unfolding cbs_keep_def
proof (intro allI impI, goal_cases)
  case (1 cb t w r t' w')
  show ?case
  proof (cases "cb = me")
    case True
    then have "t' = t" using 1 by (intro test_db_same [OF assms(1-3)]) simp
    then show ?thesis by simp
  next
    case False
    then have "cbs cb SPD_TEST_CMD_RUN t w = (r, t', w')" using 1 by simp
    then show ?thesis using assms(4) unfolding cbs_keep_def by blast
  qed
qed

section \<open>Property\<close>

text \<open>No other test takes the database away.\<close>

definition cbs_alive :: "('cb, 's spd_db option) spd_test_cb \<Rightarrow> bool" where
  "cbs_alive cbs \<longleftrightarrow> (\<forall>cb t w. w \<noteq> None \<longrightarrow> snd (snd (cbs cb SPD_TEST_CMD_RUN t w)) \<noteq> None)"

lemma run_all_test_db:
  assumes "sqlite_ok q rows" "\<forall>k v s. fst (q_put q k v s)" "\<forall>k s. fst (q_del q k s)" "cbs_alive cbs" "w \<noteq> None"
    and "run_loop (cbs(me := test_db src q)) now TEST_ALL name None ts rs w = Some (ts', rs', w')"
  shows "w' \<noteq> None \<and> list_all2 (\<lambda>t t'. t_callback t = me \<longrightarrow> t_result t' = TEST_RESULT_PASS) ts ts'"
  using assms(5,6)
proof (induction ts arbitrary: rs w ts')
  case (Cons t ts)
  let ?cbs = "cbs(me := test_db src q)"
  obtain r u v where u: "run_one ?cbs now t w = (r, u, v)" by (metis prod_cases3)
  obtain a b where cl: "count_last u rs = (a, b)" by (cases "count_last u rs")
  obtain ts1 where l: "run_loop ?cbs now TEST_ALL name None ts (count_total a b) v = Some (ts1, rs', w')" "ts' = a # ts1"
    using Cons.prems(2) by (auto simp: test_selected_def u cl simp del: fun_upd_apply split: option.splits)
  obtain d where d: "w = Some d" using Cons.prems(1) by blast
  let ?t = "t\<lparr>t_status := spd_str_reset (t_status t)\<rparr>"
  obtain d' where "test_db src q SPD_TEST_CMD_RUN ?t (Some d) = (TEST_RESULT_PASS, ?t, Some d')"
    using test_db_runs [OF assms(1-3)] by blast
  moreover have "snd (snd (cbs (t_callback t) SPD_TEST_CMD_RUN ?t (Some d))) \<noteq> None"
    using assms(4) by (simp add: cbs_alive_def)
  ultimately have "v \<noteq> None" "t_callback t = me \<longrightarrow> t_result a = TEST_RESULT_PASS"
    using u cl by (auto simp: run_one_def d Let_def count_last_cases split: prod.splits if_splits)
  with Cons.IH [OF _ l(1)] l(2) show ?case by simp
qed simp

text \<open>The report of a run of all tests holds what is said of each.\<close>

lemma report_all:
  "\<forall>t \<in> set ts. test_ok t \<Longrightarrow>
   report_loop TEST_ALL name category ts = Some (concat (map (\<lambda>t. the (test_report_one t)) ts))"
  by (induction ts) (auto simp: test_selected_def test_report_one_def test_ok_def)

text \<open>A run without a category: every test is executed, and the lock is given back.\<close>

lemma mode_all: "test_mode name None = TEST_ALL"
  by (simp add: test_mode_def spd_strlen_zero_def)

lemma to_run_all: "to_run name None t"
  by (simp add: to_run_def spd_strlen_zero_def)

lemma spd_test_run_all:
  assumes "cbs_keep cbs" "\<forall>t \<in> set (te_tests te). test_ok t" "length (te_tests te) < 2 ^ 31" "te_tests te \<noteq> []"
  obtains ts rs w' ret where
    "spd_test_run cbs now name None w te = Some (ret, w', te\<lparr>te_tests := ts, te_results := rs\<rparr>)"
    "run_loop cbs now TEST_ALL name None (te_tests te) no_results w = Some (ts, rs, w')"
    "list_all2 (ran cbs now) (te_tests te) ts"
proof -
  have m: "test_mode name None \<noteq> TEST_NAME \<or> name \<noteq> None" by (simp add: mode_all)
  from run_loop_correct [OF assms(1,2) m, of now no_results w] obtain ts rs w' where
    l: "run_loop cbs now TEST_ALL name None (te_tests te) no_results w = Some (ts, rs, w')"
      "list_all2 (\<lambda>t t'. if to_run name None t then ran cbs now t t' else t' = t) (te_tests te) ts"
      "last_passed rs = count_if (\<lambda>t. to_run name None t \<and> t_result t = TEST_RESULT_PASS) ts"
      "last_failed rs = count_if (\<lambda>t. to_run name None t \<and> t_result t = TEST_RESULT_FAILED) ts"
    by (auto simp: mode_all no_results_def)
  have "last_passed rs + last_failed rs \<noteq> 0"
    unfolding l(3,4) using ran_list_counts(1) [OF assms(1-3) l(2)] assms(4) to_run_all by (cases "te_tests te") auto
  with l(1,2) show ?thesis
    by (intro that) (auto simp: spd_test_run_def mode_all to_run_all Let_def)
qed

lemma spddb_unregister:
  assumes "map t_callback ts = map t_callback (xs @ v # ys)" "t_callback v = me" "me \<notin> t_callback ` set xs"
  obtains as t bs where "ts = as @ t # bs" "length as = length xs" "t_callback t = me"
    "remove_callback me ts = (Some t, as @ bs)"
proof -
  obtain as t bs where ts: "ts = as @ t # bs" "map t_callback as = map t_callback xs" "t_callback t = t_callback v"
    using assms(1) by (auto simp: map_eq_append_conv map_eq_Cons_conv Cons_eq_map_conv append_eq_map_conv)
  have "me \<notin> t_callback ` set as" using assms(3) arg_cong [OF ts(2), of set] by simp
  from remove_callback_append [OF this, of "t # bs"] have "remove_callback me ts = (Some t, as @ bs)"
    using ts(1,3) assms(2) by simp
  moreover have "length as = length xs" using arg_cong [OF ts(2), of length] by simp
  ultimately show ?thesis using that ts(1,3) assms(2) by simp
qed

text \<open>What the test of the database is called, and where the registration puts it.\<close>

abbreviation db_test_info :: "spd_test_record" where
  "db_test_info \<equiv> \<lparr>tr_name = Some ''test_db'', tr_category = Some ''/spider/db/'',
     tr_description = Some ''spd db get|put|del unit test''\<rparr>"

lemma test_db_registered:
  assumes "engine_ok te" "cbs me = test_db src q"
  obtains v xs ys where "te_tests te = xs @ ys" "t_info v = db_test_info" "t_callback v = me"
    "spd_test_register cbs True (Some me) w te = (- 1, w, te\<lparr>te_tests := xs @ v # ys\<rparr>)"
    "\<forall>t \<in> set (xs @ v # ys). test_ok t"
proof -
  obtain v where v: "spd_test_create cbs True (Some me) w = (Some v, w)" "t_info v = db_test_info" "t_callback v = me"
    using str_create_ok [of 128]
    by (auto simp: assms(2) spd_test_create_def test_db_def spd_strlen_zero_def spd_test_free_def Let_def split: option.splits)
  let ?lt = "\<lambda>t. strcmp (category_of t) (category_of v) < 0"
  let ?te = "te\<lparr>te_tests := takeWhile ?lt (te_tests te) @ v # dropWhile ?lt (te_tests te)\<rparr>"
  have ins: "spd_test_insert v te = (0, ?te)" by (simp add: spd_test_insert_def Let_def)
  then have "spd_test_register cbs True (Some me) w te = (- 1, w, ?te)" by (simp add: spd_test_register_def v(1))
  moreover have "engine_ok ?te" using engine_ok_insert [OF assms(1) test_create_ok [OF v(1)]] ins by simp
  ultimately show ?thesis using v(2,3)
    by (intro that [of "takeWhile ?lt (te_tests te)" "dropWhile ?lt (te_tests te)" v]) (simp_all add: engine_ok_def)
qed

text \<open>
  C27: registered, run, reported and removed by \<open>test_spddb\<close>, the database's test passes on
  every SQLite that keeps its table's laws and never fails, and the report says so. The name that is
  given selects nothing without a category: all other tests of the engine are executed as well.
  Afterwards the engine has its old tests in their old order, and the lock is free.
\<close>

theorem test_spddb_passes:
  fixes src :: string
  assumes "sqlite_ok q rows" "\<forall>k v s. fst (q_put q k v s)" "\<forall>k s. fst (q_del q k s)"
    and "engine_ok te" "cbs_keep cbs" "cbs_alive cbs" "me \<notin> t_callback ` set (te_tests te)" "length (te_tests te) < 2 ^ 31 - 1"
  defines "all \<equiv> cbs(me := test_db src q)"
  shows "\<exists>out db' te'. test_spddb all me now True (Some db) te = Some (0, out, Some db', te') \<and>
     (\<exists>t. t_callback t = me \<and> tr_name (t_info t) = Some ''test_db'' \<and> t_result t = TEST_RESULT_PASS \<and> sublist (the (test_report_one t)) out) \<and>
     list_all2 (ran all now) (te_tests te) (te_tests te') \<and> te_lock te' = te_lock te"
proof -
  have keep: "cbs_keep all" unfolding all_def by (rule test_db_keeps [OF assms(1-3,5)])
  obtain v xs ys where xy: "te_tests te = xs @ ys" and v: "t_info v = db_test_info" "t_callback v = me"
      and reg: "spd_test_register all True (Some me) (Some db) te = (- 1, Some db, te\<lparr>te_tests := xs @ v # ys\<rparr>)"
      and ok: "\<forall>t \<in> set (xs @ v # ys). test_ok t"
    by (rule test_db_registered [OF assms(4), of all me src q "Some db"]) (simp_all add: all_def)
  define te1 where "te1 = te\<lparr>te_tests := xs @ v # ys\<rparr>"
  have ok: "\<forall>t \<in> set (te_tests te1). test_ok t" using ok by (simp add: te1_def)
  have len: "length (te_tests te1) < 2 ^ 31" using assms(8) by (simp add: te1_def xy)
  have ne: "te_tests te1 \<noteq> []" by (simp add: te1_def)
  obtain ts rs w ret where run: "spd_test_run all now (Some ''test_db'') None (Some db) te1 =
        Some (ret, w, te1\<lparr>te_tests := ts, te_results := rs\<rparr>)"
      and l: "run_loop all now TEST_ALL (Some ''test_db'') None (te_tests te1) no_results (Some db) = Some (ts, rs, w)"
      and r: "list_all2 (ran all now) (te_tests te1) ts"
    by (rule spd_test_run_all [OF keep ok len ne, of now "Some ''test_db''" "Some db"])
  have "list_all2 (\<lambda>t t'. if to_run (Some ''test_db'') None t then ran all now t t' else t' = t) (te_tests te1) ts"
    using r by (simp add: to_run_all)
  note rk = ran_list_keeps [OF keep ok this]
  obtain db' where w: "w = Some db'"
      and pass: "list_all2 (\<lambda>t t'. t_callback t = me \<longrightarrow> t_result t' = TEST_RESULT_PASS) (te_tests te1) ts"
    using run_all_test_db [OF assms(1-3,6) _ l [unfolded all_def]] by auto
  have rep: "spd_test_report True (Some ''test_db'') None (Some ''/tmp/spddb_test'') (te1\<lparr>te_tests := ts, te_results := rs\<rparr>) =
      Some (0, report_head rs @ concat (map (\<lambda>t. the (test_report_one t)) ts))"
    using report_all [of ts] rk by (simp add: spd_test_report_def spd_strlen_zero_def mode_all)
  have nx: "me \<notin> t_callback ` set xs" using assms(7) xy by auto
  have m: "map t_callback ts = map t_callback (xs @ v # ys)" using rk by (simp add: te1_def)
  obtain as t bs where ts: "ts = as @ t # bs" "length as = length xs" "t_callback t = me"
      "remove_callback me ts = (Some t, as @ bs)"
    by (rule spddb_unregister [OF m v(2) nx])
  have un: "spd_test_unregister (Some me) (te1\<lparr>te_tests := ts, te_results := rs\<rparr>) =
      (0, te1\<lparr>te_tests := as @ bs, te_results := rs\<rparr>)"
    by (simp add: spd_test_unregister_def spd_test_remove_def ts(4))
  have "list_all2 (ran all now) (te_tests te) (as @ bs)"
    using r ts(2) by (simp add: te1_def xy ts(1) list_all2_append)
  moreover have "t_result t = TEST_RESULT_PASS" "t_info t = db_test_info"
    using pass rk ts(2) v by (simp_all add: te1_def ts(1) list_all2_append)
  moreover have "sublist (the (test_report_one t)) (report_head rs @ concat (map (\<lambda>t. the (test_report_one t)) ts))"
    using sublist_appendI [of "the (test_report_one t)" "report_head rs @ concat (map (\<lambda>t. the (test_report_one t)) as)"]
    by (simp add: ts(1))
  moreover have "test_spddb all me now True (Some db) te =
      Some (0, report_head rs @ concat (map (\<lambda>t. the (test_report_one t)) ts), Some db', te1\<lparr>te_tests := as @ bs, te_results := rs\<rparr>)"
    by (simp add: test_spddb_def reg [folded te1_def] run rep un w)
  moreover have "te_lock (te1\<lparr>te_tests := as @ bs, te_results := rs\<rparr>) = te_lock te" by (simp add: te1_def)
  ultimately show ?thesis
    by (intro exI [of _ "report_head rs @ concat (map (\<lambda>t. the (test_report_one t)) ts)"] exI [of _ db']
        exI [of _ "te1\<lparr>te_tests := as @ bs, te_results := rs\<rparr>"]) (intro conjI exI [of _ t]; simp add: ts(3))
qed

text \<open>An engine that already has a test with the number 7; the database's own gets 8.\<close>

definition other_cbs :: "(nat, (string \<times> string) list spd_db option) spd_test_cb" where
  "other_cbs cb cmd t w =
     (case cmd of
        SPD_TEST_CMD_INIT \<Rightarrow>
          (TEST_RESULT_NOT_RUN,
           t\<lparr>t_info := \<lparr>tr_name = Some ''a'', tr_category = Some ''/x/'', tr_description = Some ''d''\<rparr>\<rparr>, w)
      | SPD_TEST_CMD_RUN \<Rightarrow> (TEST_RESULT_FAILED, t, w))"

lemma other_engine:
  obtains t where "spd_test_register other_cbs True (Some 7) w \<lparr>te_tests = [], te_results = no_results, te_lock = 0\<rparr> =
    (- 1, w, \<lparr>te_tests = [t], te_results = no_results, te_lock = 0\<rparr>)" "test_ok t" "t_callback t = 7" "tr_name (t_info t) = Some ''a''"
  using str_create_ok [of 128]
  by (auto simp: spd_test_register_def spd_test_create_def spd_test_insert_def other_cbs_def test_ok_def
      spd_strlen_zero_def Let_def)

theorem test_spddb_passes_witness:
  "\<exists>te out db' te'. test_spddb (other_cbs(8 := test_db ''internal_db.c'' demo_sqlite)) 8 (\<lambda>_. TV 0 0) True
       (Some \<lparr>db_sq = [(''/cfg/a'', ''1'')], db_bound = None\<rparr>) te = Some (0, out, Some db', te') \<and>
     (\<exists>t. te_tests te = [t] \<and> tr_name (t_info t) = Some ''a'' \<and> t_result t = TEST_RESULT_NOT_RUN) \<and>
     te_lock te' = 0"
proof -
  let ?db = "\<lparr>db_sq = [(''/cfg/a'', ''1'')], db_bound = None\<rparr>"
  obtain t where "spd_test_register other_cbs True (Some 7) (Some ?db) \<lparr>te_tests = [], te_results = no_results, te_lock = 0\<rparr> =
      (- 1, Some ?db, \<lparr>te_tests = [t], te_results = no_results, te_lock = 0\<rparr>)"
    and t: "test_ok t" "t_callback t = 7" "tr_name (t_info t) = Some ''a''"
    by (rule other_engine)
  let ?te = "\<lparr>te_tests = [t\<lparr>t_result := TEST_RESULT_NOT_RUN\<rparr>], te_results = no_results, te_lock = 0\<rparr>"
  have "engine_ok ?te" using t(1) by (simp add: engine_ok_def test_ok_def)
  moreover have "cbs_keep other_cbs" "cbs_alive other_cbs" by (simp_all add: cbs_keep_def cbs_alive_def other_cbs_def)
  moreover have "\<forall>k v s. fst (q_put demo_sqlite k v s)" "\<forall>k s. fst (q_del demo_sqlite k s)" by (simp_all add: demo_sqlite_def)
  ultimately show ?thesis
    using test_spddb_passes [OF demo_sqlite_ok, of ?te other_cbs 8 "''internal_db.c''" "\<lambda>_. TV 0 0" ?db] t
    by (intro exI [of _ ?te]) fastforce
qed

end
