(* ===== verification/Spd_Console.thy ===== *)
theory Spd_Console
  imports Spd_Daemon Spd_Cli "HOL-Library.AList"
begin

text \<open>
  The threads of the daemon in \<open>spider.c\<close>: the console threads, the thread that accepts connections,
  and what they own; the start of the domain server, the attempt to connect, the standard descriptors of
  the daemon and its one command. The kernel gives the lowest free descriptor, as POSIX says; what
  other calls return is an argument.
\<close>

section \<open>Descriptors\<close>

definition next_fd :: "int list \<Rightarrow> int" where
  "next_fd fds = hd (filter (\<lambda>d. d \<notin> set fds) (map int [0..<length fds + 1]))"

lemma next_fd_fresh: "next_fd fds \<notin> set fds \<and> 0 \<le> next_fd fds"
proof -
  let ?l = "filter (\<lambda>d. d \<notin> set fds) (map int [0..<length fds + 1])"
  have "?l \<noteq> []"
  proof
    assume "?l = []"
    then have "\<forall>x \<in> set (map int [0..<length fds + 1]). x \<in> set fds" unfolding filter_empty_conv by simp
    then have "int ` {0..<length fds + 1} \<subseteq> set fds" unfolding set_map set_upt by blast
    then have "card (int ` {0..<length fds + 1}) \<le> length fds"
      by (metis (no_types, lifting) List.finite_set card_length card_mono le_trans)
    then show False by (simp add: card_image)
  qed
  then have "next_fd fds \<in> set ?l" unfolding next_fd_def by (rule list.set_sel(1))
  then show ?thesis unfolding set_filter set_map by auto
qed

text \<open>Opening and duplicating, with a name for what is behind a descriptor.\<close>

type_synonym fd_table = "(int \<times> string) list"

definition fd_open :: "string \<Rightarrow> fd_table \<Rightarrow> int \<times> fd_table" where
  "fd_open f t = (let d = next_fd (map fst t) in (d, AList.update d f t))"

definition fd_dup2 :: "int \<Rightarrow> int \<Rightarrow> fd_table \<Rightarrow> fd_table" where
  "fd_dup2 d e t = (case map_of t d of None \<Rightarrow> t | Some f \<Rightarrow> AList.update e f t)"

text \<open>One of the three openings of \<open>deamonize\<close>, which end it.\<close>

definition std_fd :: "string \<Rightarrow> int \<Rightarrow> fd_table \<Rightarrow> fd_table" where
  "std_fd f e t = (case fd_open f t of (d, t) \<Rightarrow> if d \<noteq> e then AList.delete d (fd_dup2 d e t) else t)"

definition deamonize_fds :: "fd_table \<Rightarrow> fd_table" where
  "deamonize_fds t = std_fd ''/dev/null w'' 2 (std_fd ''/dev/null w'' 1 (std_fd ''/dev/null r'' 0 t))"

lemma std_fd_map: "map_of (std_fd f e t) = (map_of t)(e \<mapsto> f)"
proof -
  obtain d t1 where o: "fd_open f t = (d, t1)" by fastforce
  have d: "map_of t d = None" "map_of t1 = (map_of t)(d \<mapsto> f)"
    using o next_fd_fresh [of "map fst t"] by (auto simp: fd_open_def Let_def update_conv' map_of_eq_None_iff)
  show ?thesis using d by (auto simp: std_fd_def o fd_dup2_def update_conv' delete_conv' fun_eq_iff)
qed

section \<open>A console thread\<close>

text \<open>
  A round of \<open>poll\<close>: an error, or what \<open>read\<close> gives for the client and for the pipe, where they are
  ready (no octets stand for the end and for errors), and the result of writing the octets of the
  pipe to the client.
\<close>

datatype poll_round = PollError | Polled "string option" "(string \<times> int) option"

datatype console_act = Greet string | Command string | Forward string

text \<open>The octets of the client are made a string in the buffer \<open>tmp\<close>; a full buffer has no room for the NUL.\<close>

definition console_client :: "string \<Rightarrow> char list \<Rightarrow> (string \<times> char list) option" where
  "console_client data tmp =
     (if length data < length tmp then
        (let tmp = data @ NUL # drop (length data + 1) tmp in Some (cstr tmp, tmp))
      else None)"

definition console_ready :: "string option \<Rightarrow> char list \<Rightarrow> (console_act list \<times> char list) option" where
  "console_ready c tmp =
     (case c of
        None \<Rightarrow> Some ([], tmp)
      | Some data \<Rightarrow> map_option (\<lambda>(s, tmp). ([Command s], tmp)) (console_client data tmp))"

text \<open>The loop of \<open>netconsole_thread\<close>: what it does, and whether it has ended.\<close>

fun netconsole_loop :: "poll_round list \<Rightarrow> char list \<Rightarrow> (console_act list \<times> bool) option" where
  "netconsole_loop [] tmp = Some ([], False)"
| "netconsole_loop (PollError # rs) tmp = netconsole_loop rs tmp"
| "netconsole_loop (Polled c p # rs) tmp =
     (if c = Some [] then Some ([], True)
      else case console_ready c tmp of
             None \<Rightarrow> None
           | Some (acts, tmp) \<Rightarrow>
               (case p of
                  None \<Rightarrow> map_option (\<lambda>(as, e). (acts @ as, e)) (netconsole_loop rs tmp)
                | Some (data, res) \<Rightarrow>
                    if data = [] then Some (acts, True)
                    else if res < 1 then Some (acts, True)
                    else map_option (\<lambda>(as, e). (acts @ Forward (take (nat res) data) # as, e))
                           (netconsole_loop rs (data @ drop (length data) tmp))))"

text \<open>The greeting is written from the same buffer; \<open>host\<close> is what \<open>gethostname\<close> gives.\<close>

definition console_greeting :: "string option \<Rightarrow> string \<Rightarrow> string \<Rightarrow> string" where
  "console_greeting host pid version =
     take 511 ((case host of None \<Rightarrow> ''<Unknown>'' | Some h \<Rightarrow> h) @ ''/'' @ pid @ ''/'' @ version @ [CHR 0x0A])"

definition netconsole_thread ::
  "string option \<Rightarrow> string \<Rightarrow> string \<Rightarrow> poll_round list \<Rightarrow> (console_act list \<times> bool) option" where
  "netconsole_thread host pid version rs =
     (let g = console_greeting host pid version
      in map_option (\<lambda>(as, e). (Greet g # as, e)) (netconsole_loop rs (g @ replicate (512 - length g) NUL)))"

definition client_data :: "poll_round \<Rightarrow> string list" where
  "client_data r = (case r of Polled (Some d) p \<Rightarrow> [d] | _ \<Rightarrow> [])"

definition pipe_data :: "poll_round \<Rightarrow> string list" where
  "pipe_data r = (case r of Polled c (Some (d, res)) \<Rightarrow> [d] | _ \<Rightarrow> [])"

text \<open>A round in which everything goes well: short reads without a NUL, and complete writes.\<close>

definition good_round :: "poll_round \<Rightarrow> bool" where
  "good_round r \<longleftrightarrow> (case r of PollError \<Rightarrow> True | Polled c p \<Rightarrow>
     (case c of None \<Rightarrow> True | Some d \<Rightarrow> d \<noteq> [] \<and> length d < 512 \<and> is_cstr d) \<and>
     (case p of None \<Rightarrow> True | Some (d, res) \<Rightarrow> d \<noteq> [] \<and> length d \<le> 512 \<and> res = int (length d)))"

definition round_acts :: "poll_round \<Rightarrow> console_act list" where
  "round_acts r = map Command (client_data r) @ map Forward (pipe_data r)"

lemma console_client_ok:
  "length d < length tmp \<Longrightarrow> is_cstr d \<Longrightarrow> console_client d tmp = Some (d, d @ NUL # drop (length d + 1) tmp)"
  by (simp add: console_client_def cstr_append_NUL)

lemma console_client_len: "console_client d tmp = Some (s, tmp') \<Longrightarrow> length tmp' = length tmp"
  by (auto simp: console_client_def Let_def split: if_splits)

lemma good_rounds:
  assumes "list_all good_round rs" "length tmp = 512"
  shows "\<exists>tmp'. length tmp' = 512 \<and> netconsole_loop (rs @ rs2) tmp =
     map_option (\<lambda>(as, e). (concat (map round_acts rs) @ as, e)) (netconsole_loop rs2 tmp')"
  using assms
proof (induction rs arbitrary: tmp)
  case Nil
  then show ?case by (intro exI [of _ tmp]) (simp add: option.map_ident case_prod_unfold)
next
  case (Cons r rs)
  show ?case
  proof (cases r)
    case PollError
    then show ?thesis using Cons by (simp add: round_acts_def client_data_def pipe_data_def)
  next
    case (Polled c p)
    obtain tmp1 where c: "console_ready c tmp = Some (map Command (client_data r), tmp1)" "length tmp1 = 512" "c \<noteq> Some []"
      using Cons.prems Polled by (cases c) (auto simp: console_ready_def client_data_def good_round_def console_client_ok)
    show ?thesis
    proof (cases p)
      case None
      from Cons.IH [OF _ c(2)] Cons.prems obtain tmp2 where "length tmp2 = 512"
        "netconsole_loop (rs @ rs2) tmp1 =
         map_option (\<lambda>(as, e). (concat (map round_acts rs) @ as, e)) (netconsole_loop rs2 tmp2)" by auto
      moreover have "round_acts r = map Command (client_data r)" using None Polled by (simp add: round_acts_def pipe_data_def)
      ultimately show ?thesis using None Polled c
        by (intro exI [of _ tmp2]) (simp add: option.map_comp comp_def case_prod_unfold)
    next
      case (Some q)
      obtain d res where q: "q = (d, res)" by fastforce
      have d: "d \<noteq> []" "length d \<le> 512" "res = int (length d)" using Cons.prems Polled Some q by (auto simp: good_round_def)
      have "length (d @ drop (length d) tmp1) = 512" using c(2) d(2) by simp
      from Cons.IH [OF _ this] Cons.prems obtain tmp2 where t2: "length tmp2 = 512"
        "netconsole_loop (rs @ rs2) (d @ drop (length d) tmp1) =
         map_option (\<lambda>(as, e). (concat (map round_acts rs) @ as, e)) (netconsole_loop rs2 tmp2)" by auto
      have "1 \<le> length d" using d(1) by (cases d) auto
      moreover have "round_acts r = map Command (client_data r) @ [Forward d]"
        using Some q Polled by (simp add: round_acts_def pipe_data_def)
      ultimately show ?thesis using t2 Polled Some q c d
        by (intro exI [of _ tmp2]) (simp add: option.map_comp comp_def case_prod_unfold)
    qed
  qed
qed

lemma loop_none:
  "512 \<le> length tmp \<Longrightarrow> netconsole_loop rs tmp = None \<Longrightarrow> \<exists>d \<in> set (concat (map client_data rs)). 512 \<le> length d"
proof (induction rs arbitrary: tmp)
  case (Cons r rs)
  show ?case
  proof (cases r)
    case PollError
    then have "netconsole_loop rs tmp = None" using Cons.prems(2) by simp
    then show ?thesis using Cons.IH [OF Cons.prems(1)] by auto
  next
    case (Polled c p)
    show ?thesis
    proof (cases "console_ready c tmp")
      case None
      then obtain d where "c = Some d" "512 \<le> length d"
        using Cons.prems(1) by (auto simp: console_ready_def console_client_def Let_def split: option.splits if_splits)
      then show ?thesis using Polled by (simp add: client_data_def)
    next
      case (Some q)
      then obtain acts tmp1 where q: "console_ready c tmp = Some (acts, tmp1)" by (cases q) auto
      then have l: "length tmp1 = length tmp"
        by (auto simp: console_ready_def dest!: console_client_len split: option.splits)
      have "\<exists>t. 512 \<le> length t \<and> netconsole_loop rs t = None"
      proof (cases p)
        case None
        then show ?thesis using Cons.prems Polled q l by (intro exI [of _ tmp1]) (auto split: if_splits)
      next
        case (Some x)
        then show ?thesis using Cons.prems Polled q l
          by (intro exI [of _ "fst x @ drop (length (fst x)) tmp1"]) (auto split: if_splits prod.splits)
      qed
      then obtain d where "d \<in> set (concat (map client_data rs))" "512 \<le> length d" using Cons.IH by blast
      then show ?thesis by auto
    qed
  qed
qed simp

section \<open>Who owns a descriptor\<close>

text \<open>
  The consoles with, for each, how many descriptors its thread has already closed (the thread of a
  console exists while its \<open>fd\<close> is not negative), and the open descriptors of the process.
\<close>

record con_world =
  cw_slots :: "(console \<times> nat) list"
  cw_open :: "int list"

text \<open>A step has no result when it closes a descriptor that is not open.\<close>

definition close_one :: "int \<Rightarrow> int list \<Rightarrow> int list option" where
  "close_one d fds = (if d \<in> set fds then Some (remove1 d fds) else None)"

fun close_all :: "fd_event list \<Rightarrow> int list \<Rightarrow> int list option" where
  "close_all [] fds = Some fds"
| "close_all (FdPrint d s # evs) fds = close_all evs fds"
| "close_all (FdClose d # evs) fds = (case close_one d fds of None \<Rightarrow> None | Some fds \<Rightarrow> close_all evs fds)"

text \<open>
  A connection: \<open>accept\<close> gives the lowest free descriptor, and \<open>socketpair\<close>, which is called when
  there is a free console, the next two.
\<close>

definition con_accept :: "bool \<Rightarrow> bool \<Rightarrow> bool \<Rightarrow> con_world \<Rightarrow> con_world option" where
  "con_accept pair thread mute w =
     (let s = next_fd (cw_open w); fds = s # cw_open w; p0 = next_fd fds; p1 = next_fd (p0 # fds);
          cs = map fst (cw_slots w);
          (cs', ev) = listener_accept s (if pair then Some (p0, p1) else None) thread mute cs;
          fds = (if pair \<and> (\<exists>c \<in> set cs. con_fd c < 0) then p1 # p0 # fds else fds)
      in map_option (\<lambda>fds. w\<lparr>cw_slots := zip cs' (map snd (cw_slots w)), cw_open := fds\<rparr>) (close_all ev fds))"

text \<open>The end of the thread of console \<open>x\<close>, one descriptor at a time; last of all the console is free.\<close>

definition con_close :: "nat \<Rightarrow> con_world \<Rightarrow> con_world option" where
  "con_close x w =
     (if length (cw_slots w) \<le> x \<or> con_fd (fst (cw_slots w ! x)) < 0 then Some w
      else
        (let (c, k) = cw_slots w ! x
         in if k < 3 then
              map_option (\<lambda>fds. w\<lparr>cw_slots := (cw_slots w)[x := (c, k + 1)], cw_open := fds\<rparr>)
                (close_one ([con_fd c, con_p0 c, con_p1 c] ! k) (cw_open w))
            else Some (w\<lparr>cw_slots := (cw_slots w)[x := (c\<lparr>con_fd := - 1\<rparr>, 0)]\<rparr>)))"

text \<open>A round of \<open>listener_thread\<close>, which ends where there is no socket.\<close>

datatype con_event = ListenPollFails | AcceptFails | Accepted bool bool bool | Closing nat

definition listener_thread :: "int \<Rightarrow> con_event \<Rightarrow> con_world \<Rightarrow> con_world option" where
  "listener_thread spd_socket e w =
     (if spd_socket < 0 then Some w
      else case e of Accepted pair thread mute \<Rightarrow> con_accept pair thread mute w | _ \<Rightarrow> Some w)"

fun con_run :: "int \<Rightarrow> con_event list \<Rightarrow> con_world \<Rightarrow> con_world option" where
  "con_run sock [] w = Some w"
| "con_run sock (e # es) w =
     (case (case e of Closing x \<Rightarrow> con_close x w | _ \<Rightarrow> listener_thread sock e w) of
        None \<Rightarrow> None
      | Some w \<Rightarrow> con_run sock es w)"

definition owned :: "console \<times> nat \<Rightarrow> int list" where
  "owned s = (if con_fd (fst s) < 0 then [] else drop (snd s) [con_fd (fst s), con_p0 (fst s), con_p1 (fst s)])"

text \<open>Nothing is open but what was before and what the consoles own, and nothing twice.\<close>

definition con_inv :: "int list \<Rightarrow> con_world \<Rightarrow> bool" where
  "con_inv others w \<longleftrightarrow>
     distinct (cw_open w) \<and> mset (cw_open w) = mset others + mset (concat (map owned (cw_slots w))) \<and>
     (\<forall>s \<in> set (cw_slots w). snd s \<le> 3 \<and> (con_fd (fst s) < 0 \<longrightarrow> snd s = 0))"

lemma concat_split: "x < length xs \<Longrightarrow> mset (concat (map f xs)) = mset (f (xs ! x)) + mset (concat (map f (take x xs))) + mset (concat (map f (drop (Suc x) xs)))"
  by (subst id_take_nth_drop [of x xs]) simp_all

lemma concat_update:
  "x < length xs \<Longrightarrow> mset (concat (map f (xs[x := y]))) + mset (f (xs ! x)) = mset (concat (map f xs)) + mset (f y)"
  by (simp add: concat_split [of x xs] upd_conv_take_nth_drop)

lemma close_inv:
  assumes "con_inv others w"
  shows "\<exists>w'. con_close x w = Some w' \<and> con_inv others w' \<and> length (cw_slots w') = length (cw_slots w)"
proof (cases "length (cw_slots w) \<le> x \<or> con_fd (fst (cw_slots w ! x)) < 0")
  case True
  then show ?thesis using assms by (simp add: con_close_def)
next
  case False
  obtain c k where ck: "cw_slots w ! x = (c, k)" by fastforce
  have x: "x < length (cw_slots w)" "0 \<le> con_fd c" "k \<le> 3"
    using False ck assms nth_mem [of x "cw_slots w"] by (force simp: con_inv_def)+
  note up = concat_update [OF x(1), of owned, unfolded ck]
  show ?thesis
  proof (cases "k < 3")
    case True
    let ?d = "[con_fd c, con_p0 c, con_p1 c] ! k"
    have o: "owned (c, k) = ?d # owned (c, k + 1)" using True x(2) by (auto simp: owned_def less_Suc_eq numeral_3_eq_3)
    have "?d \<in># mset others + mset (concat (map owned (cw_slots w)))"
      using x(1) ck o by (simp add: concat_split [of x "cw_slots w"])
    then have m: "?d \<in> set (cw_open w)" using assms unfolding con_inv_def by (metis set_mset_mset)
    have "mset (concat (map owned (cw_slots w))) = add_mset ?d (mset (concat (map owned ((cw_slots w)[x := (c, k + 1)]))))"
      using up [of "(c, k + 1)"] unfolding o by simp
    then have "mset (remove1 ?d (cw_open w)) = mset others + mset (concat (map owned ((cw_slots w)[x := (c, k + 1)])))"
      using assms unfolding con_inv_def by simp
    then show ?thesis using assms False True ck m x
      by (auto simp: con_close_def close_one_def con_inv_def dest!: set_update_subset_insert [THEN subsetD])
  next
    case False
    then have "mset (concat (map owned ((cw_slots w)[x := (c\<lparr>con_fd := - 1\<rparr>, 0)]))) = mset (concat (map owned (cw_slots w)))"
      using up [of "(c\<lparr>con_fd := - 1\<rparr>, 0)"] x by (simp add: owned_def)
    then show ?thesis using assms False ck x
      by (auto simp: con_close_def con_inv_def dest!: set_update_subset_insert [THEN subsetD])
  qed
qed

lemma accept_none:
  assumes "\<forall>s \<in> set (cw_slots w). 0 \<le> con_fd (fst s)"
  shows "con_accept pair thread mute w = Some w"
proof -
  have "take_console s pipe thread mute (map fst (cw_slots w)) = None" for s pipe
    using assms by (intro take_console_none) auto
  moreover have "\<not> (\<exists>c \<in> set (map fst (cw_slots w)). con_fd c < 0)" using assms by force
  ultimately show ?thesis by (simp add: con_accept_def Let_def listener_accept_def close_one_def zip_map_fst_snd)
qed

text \<open>The first free console \<open>c\<close>; a failure opens and closes.\<close>

lemma accept_free:
  assumes "cw_slots w = A @ (c, k) # B" "\<forall>s \<in> set A. 0 \<le> con_fd (fst s)" "con_fd c < 0"
  defines "s \<equiv> next_fd (cw_open w)"
  defines "p0 \<equiv> next_fd (s # cw_open w)"
  defines "p1 \<equiv> next_fd (p0 # s # cw_open w)"
  shows "\<exists>c'. con_accept pair thread mute w = Some (w\<lparr>cw_slots := A @ (c', k) # B,
       cw_open := (if pair \<and> thread then p1 # p0 # s # cw_open w else cw_open w)\<rparr>) \<and>
     (if pair \<and> thread then con_fd c' = s \<and> con_p0 c' = p0 \<and> con_p1 c' = p1 \<and> con_mute c' = mute else con_fd c' < 0)"
proof -
  have skip: "take_console s pipe th mute (map fst (cw_slots w)) =
      map_option (\<lambda>(cs, ev). (map fst A @ cs, ev)) (take_console s pipe th mute (c # map fst B))" for pipe th
    unfolding assms(1) map_append list.map fst_conv using assms(2) by (intro take_console_skip) auto
  have z: "zip (map fst A @ x # map fst B) (map snd (cw_slots w)) = A @ (x, k) # B" for x
    unfolding assms(1) by (simp add: zip_map_fst_snd)
  have f: "\<exists>c \<in> set (map fst (cw_slots w)). con_fd c < 0" using assms(1,3) by auto
  have fresh: "s \<notin> set (cw_open w)" "p0 \<notin> set (s # cw_open w)" "p1 \<notin> set (p0 # s # cw_open w)"
    unfolding s_def p0_def p1_def using next_fd_fresh by blast+
  show ?thesis
  proof (cases "pair \<and> thread")
    case True
    then show ?thesis using assms(3) f z
      by (intro exI [of _ "\<lparr>con_fd = s, con_p0 = p0, con_p1 = p1, con_mute = mute\<rparr>"])
        (simp add: con_accept_def Let_def listener_accept_def skip s_def [symmetric] p0_def [symmetric] p1_def [symmetric])
  next
    case False
    then show ?thesis
    proof (cases pair)
      case True
      then show ?thesis using False assms(3) f z fresh
        by (intro exI [of _ "\<lparr>con_fd = - 1, con_p0 = p0, con_p1 = p1, con_mute = mute\<rparr>"])
          (simp add: con_accept_def Let_def listener_accept_def skip close_one_def
            s_def [symmetric] p0_def [symmetric] p1_def [symmetric])
    next
      case False
      then show ?thesis using assms(3) z
        by (intro exI [of _ "c\<lparr>con_fd := - 1\<rparr>"])
          (simp add: con_accept_def Let_def listener_accept_def skip close_one_def s_def [symmetric])
    qed
  qed
qed

lemma accept_inv:
  assumes "con_inv others w"
  shows "\<exists>w'. con_accept pair thread mute w = Some w' \<and> con_inv others w' \<and> length (cw_slots w') = length (cw_slots w)"
proof (cases "\<forall>s \<in> set (cw_slots w). 0 \<le> con_fd (fst s)")
  case True
  then show ?thesis using accept_none [OF True] assms by simp
next
  case False
  then have "\<exists>s \<in> set (cw_slots w). con_fd (fst s) < 0" by force
  then obtain A c k B where sl: "cw_slots w = A @ (c, k) # B" "con_fd c < 0" "\<forall>s \<in> set A. \<not> con_fd (fst s) < 0"
    using split_list_first_prop [of "cw_slots w" "\<lambda>s. con_fd (fst s) < 0"] by (metis fst_conv surj_pair)
  let ?s = "next_fd (cw_open w)" let ?p0 = "next_fd (?s # cw_open w)" let ?p1 = "next_fd (?p0 # ?s # cw_open w)"
  obtain c' where c': "con_accept pair thread mute w = Some (w\<lparr>cw_slots := A @ (c', k) # B,
       cw_open := (if pair \<and> thread then ?p1 # ?p0 # ?s # cw_open w else cw_open w)\<rparr>)"
     "if pair \<and> thread then con_fd c' = ?s \<and> con_p0 c' = ?p0 \<and> con_p1 c' = ?p1 \<and> con_mute c' = mute else con_fd c' < 0"
    using accept_free [OF sl(1) _ sl(2)] sl(3) by (metis linorder_not_less)
  have k: "k = 0" using assms sl by (auto simp: con_inv_def)
  have fresh: "?s \<notin> set (cw_open w)" "?p0 \<notin> set (?s # cw_open w)" "?p1 \<notin> set (?p0 # ?s # cw_open w)" "0 \<le> ?s"
    using next_fd_fresh by blast+
  have "con_inv others (w\<lparr>cw_slots := A @ (c', k) # B,
       cw_open := (if pair \<and> thread then ?p1 # ?p0 # ?s # cw_open w else cw_open w)\<rparr>)"
    using assms sl c'(2) k fresh by (cases "pair \<and> thread") (auto simp: con_inv_def owned_def)
  then show ?thesis using c'(1) sl(1) by simp
qed

lemma run_inv:
  "con_inv others w \<Longrightarrow> \<exists>w'. con_run sock es w = Some w' \<and> con_inv others w' \<and> length (cw_slots w') = length (cw_slots w)"
proof (induction es arbitrary: w)
  case (Cons e es)
  have "\<exists>w1. (case e of Closing x \<Rightarrow> con_close x w | _ \<Rightarrow> listener_thread sock e w) = Some w1 \<and>
      con_inv others w1 \<and> length (cw_slots w1) = length (cw_slots w)"
    using Cons.prems by (cases e) (simp_all add: listener_thread_def close_inv accept_inv)
  then obtain w1 where w1: "(case e of Closing x \<Rightarrow> con_close x w | _ \<Rightarrow> listener_thread sock e w) = Some w1"
    "con_inv others w1" "length (cw_slots w1) = length (cw_slots w)" by blast
  then show ?case using Cons.IH [OF w1(2)] by simp
qed simp

section \<open>The start of the server, and the client\<close>

text \<open>
  What \<open>start_domainserver\<close> leaves: its result, the descriptor in \<open>spd_socket\<close>, the descriptors it
  closed, the consoles, and whether the verboser is registered and the thread started. The name of the
  socket fits its structure.
\<close>

record domainserver =
  ds_socket :: int
  ds_closed :: "int list"
  ds_consoles :: "console list"
  ds_started :: bool

definition start_domainserver ::
  "int \<Rightarrow> int \<Rightarrow> int \<Rightarrow> console list \<Rightarrow> int \<times> domainserver" where
  "start_domainserver sock bnd lst cs =
     (let cs = free_consoles cs
      in if sock < 0 then (- 1, \<lparr>ds_socket = sock, ds_closed = [], ds_consoles = cs, ds_started = False\<rparr>)
         else if bnd \<noteq> 0 then (- 1, \<lparr>ds_socket = - 1, ds_closed = [sock], ds_consoles = cs, ds_started = False\<rparr>)
         else if lst < 0 then (- 1, \<lparr>ds_socket = - 1, ds_closed = [sock], ds_consoles = cs, ds_started = False\<rparr>)
         else (0, \<lparr>ds_socket = sock, ds_closed = [], ds_consoles = cs, ds_started = True\<rparr>))"

text \<open>The result, which is - 1 for success, the descriptor in \<open>spd_consock\<close> and what is closed.\<close>

definition spd_tryconn :: "int \<Rightarrow> int \<Rightarrow> int \<times> int \<times> int list" where
  "spd_tryconn sock conn =
     (if sock < 0 then (0, sock, [])
      else if conn \<noteq> 0 then (0, - 1, [sock])
      else (- 1, sock, []))"

lemma domainserver_owns:
  "start_domainserver sock bnd lst cs = (r, ds) \<Longrightarrow>
   (r = 0 \<longleftrightarrow> ds_started ds) \<and> (ds_started ds \<longleftrightarrow> 0 \<le> ds_socket ds) \<and>
   (\<forall>c \<in> set (ds_consoles ds). con_fd c < 0) \<and> (0 \<le> sock \<longrightarrow> (ds_socket ds = sock) \<noteq> (ds_closed ds = [sock]))"
  by (auto simp: start_domainserver_def Let_def free_consoles_def split: if_splits)

text \<open>
  The one command of the daemon: the result and the output, or what it stores in its entry. No function
  registers \<open>spider_cli\<close>, so no console can run it. \<open>shown\<close> is how \<open>printf\<close> shows the version.
\<close>

datatype spd_cli_command = CLI_USAGE | CLI_COMPLETE | CLI_HANDLER

definition handle_show_version ::
  "string \<Rightarrow> spd_cli_command \<Rightarrow> nat \<Rightarrow> cli_result option \<times> string \<times> (string \<times> string) option" where
  "handle_show_version shown cmd argc =
     (case cmd of
        CLI_USAGE \<Rightarrow> (None, [], Some (''core show version'',
          '' Usage: core show version'' @ [CHR 0x0A] @ '' show spider version information.'' @ [CHR 0x0A]))
      | CLI_COMPLETE \<Rightarrow> (None, [], None)
      | CLI_HANDLER \<Rightarrow>
          if argc \<noteq> 3 then (Some CLI_SHOWUSAGE, [], None)
          else (Some CLI_SUCCESS, ''spider version '' @ shown @ [CHR 0x0A], None))"

text \<open>The copy of the arguments of \<open>main\<close>; the array has 256 places, and \<open>getopt\<close> sees as many as are copied.\<close>

definition main_args :: "string list \<Rightarrow> string option list \<Rightarrow> nat \<times> string option list" where
  "main_args argv old_argv =
     (let argc = (if length argv > length old_argv - 1 then length old_argv - 1 else length argv)
      in (argc, (map Some (take argc argv) @ drop argc old_argv)[argc := None]))"

lemma main_args_fit:
  "length old_argv = 256 \<Longrightarrow> main_args argv old_argv = (argc, old') \<Longrightarrow>
   argc \<le> 255 \<and> length old' = 256 \<and> old' ! argc = None \<and> takeWhile (\<lambda>a. a \<noteq> None) old' = map Some (take argc argv)"
proof -
  assume l: "length old_argv = 256" and m: "main_args argv old_argv = (argc, old')"
  then have a: "argc = min (length argv) 255" and o': "old' = (map Some (take argc argv) @ drop argc old_argv)[argc := None]"
    by (auto simp: main_args_def Let_def min_def)
  have "argc < length old_argv" using a l by simp
  then have d: "drop argc old_argv = old_argv ! argc # drop (argc + 1) old_argv" by (simp add: Cons_nth_drop_Suc)
  have "old' = map Some (take argc argv) @ None # drop (argc + 1) old_argv"
    unfolding o' d using a by (simp add: list_update_append)
  moreover have "takeWhile (\<lambda>a. a \<noteq> None) (map Some xs @ None # ys) = map Some xs" for xs :: "string list" and ys
    by (induction xs) simp_all
  ultimately show ?thesis using a l by (simp add: nth_append)
qed

section \<open>Properties of a console thread\<close>

lemma thread_rounds:
  assumes "list_all good_round rs"
  shows "netconsole_thread host pid ver rs =
     Some (Greet (console_greeting host pid ver) # concat (map round_acts rs), False)"
proof -
  let ?g = "console_greeting host pid ver"
  have "length (?g @ replicate (512 - length ?g) NUL) = 512" by (simp add: console_greeting_def)
  from good_rounds [OF assms this, of "[]"] show ?thesis by (auto simp: netconsole_thread_def Let_def)
qed

text \<open>
  C33: as long as every read gives less than 512 octets and no NUL, and what the
  pipe has is written in full, the thread runs each read as one command and forwards each text of the
  pipe, in order. It leaves its buffer only for a read of 512 octets or more, and then always: its first
  read of 512 octets puts the NUL behind the buffer.
\<close>

theorem console_thread_bounds:
  assumes "list_all good_round rs"
  shows "netconsole_thread host pid ver rs =
       Some (Greet (console_greeting host pid ver) # concat (map round_acts rs), False) \<and>
     (length d = 512 \<longrightarrow> netconsole_thread host pid ver (rs @ Polled (Some d) p # rs2) = None) \<and>
     (netconsole_thread host pid ver rs3 = None \<longrightarrow> (\<exists>d \<in> set (concat (map client_data rs3)). 512 \<le> length d))"
proof (intro conjI impI)
  let ?g = "console_greeting host pid ver"
  let ?tmp = "?g @ replicate (512 - length ?g) NUL"
  have l: "length ?tmp = 512" by (simp add: console_greeting_def)
  show "netconsole_thread host pid ver rs = Some (Greet ?g # concat (map round_acts rs), False)"
    by (rule thread_rounds [OF assms])
  show "netconsole_thread host pid ver (rs @ Polled (Some d) p # rs2) = None" if "length d = 512"
    using good_rounds [OF assms l, of "Polled (Some d) p # rs2"] that
    by (auto simp: netconsole_thread_def Let_def console_ready_def console_client_def)
  show "\<exists>d \<in> set (concat (map client_data rs3)). 512 \<le> length d" if "netconsole_thread host pid ver rs3 = None"
    using loop_none [of ?tmp rs3] that l by (simp add: netconsole_thread_def Let_def)
qed

theorem console_thread_bounds_witness:
  "netconsole_thread (Some ''host'') ''7'' ''0.1'' [PollError, Polled (Some ''core show version'') (Some (''log'', 3))] =
     Some ([Greet (''host/7/0.1'' @ [CHR 0x0A]), Command ''core show version'', Forward ''log''], False) \<and>
   netconsole_thread (Some ''host'') ''7'' ''0.1'' [Polled (Some ''help'') None, Polled (Some (replicate 512 (CHR ''x''))) None] = None"
proof -
  have g: "list_all good_round [PollError, Polled (Some ''core show version'') (Some (''log'', 3))]"
    "list_all good_round [Polled (Some ''help'') None]"
    by (simp_all add: good_round_def)
  show ?thesis using conjunct1 [OF console_thread_bounds [OF g(1)]]
      console_thread_bounds [OF g(2), of _ _ _ "replicate 512 (CHR ''x'')" None "[]"]
    by (simp add: round_acts_def client_data_def pipe_data_def console_greeting_def)
qed

text \<open>
  C15: in every order in which connections come and console threads close what they
  own, no descriptor is closed that is not open, what is open are the descriptors from before and those
  that the consoles own, all different, and there are at most three of these for each console: a failed
  connection leaves nothing open.
\<close>

theorem console_descriptors:
  assumes "distinct others"
  shows "\<exists>w. con_run sock es \<lparr>cw_slots = replicate n (\<lparr>con_fd = - 1, con_p0 = a, con_p1 = b, con_mute = m\<rparr>, 0), cw_open = others\<rparr> = Some w \<and>
     distinct (cw_open w) \<and> mset (cw_open w) = mset others + mset (concat (map owned (cw_slots w))) \<and>
     length (cw_open w) \<le> length others + 3 * n"
proof -
  let ?w = "\<lparr>cw_slots = replicate n (\<lparr>con_fd = - 1, con_p0 = a, con_p1 = b, con_mute = m\<rparr>, 0), cw_open = others\<rparr>"
  have "con_inv others ?w"
    using assms by (auto simp: con_inv_def owned_def map_replicate_const concat_eq_Nil_conv)
  then obtain w where w: "con_run sock es ?w = Some w" "con_inv others w" "length (cw_slots w) = n"
    using run_inv by fastforce
  have "length (concat (map owned xs)) \<le> 3 * length xs" for xs by (induction xs) (auto simp: owned_def)
  moreover have "length (cw_open w) = length others + length (concat (map owned (cw_slots w)))"
    using w(2) unfolding con_inv_def by (metis size_mset size_union)
  ultimately show ?thesis using w by (fastforce simp: con_inv_def)
qed

theorem console_descriptors_witness:
  "\<exists>w. con_run 3 [Accepted True True False, Closing 0, Accepted True False False, AcceptFails]
      \<lparr>cw_slots = replicate 2 (\<lparr>con_fd = - 1, con_p0 = 0, con_p1 = 0, con_mute = False\<rparr>, 0), cw_open = [0, 1, 2, 3]\<rparr> = Some w \<and>
    length (cw_open w) \<le> 10"
proof -
  have "distinct [0, 1, 2, 3 :: int]" by simp
  from console_descriptors [OF this, of 3 "[Accepted True True False, Closing 0, Accepted True False False, AcceptFails]" 2 0 0 False]
  show ?thesis by auto
qed

text \<open>
  A message takes no notice of the closing: between the closing of a console's descriptors and the
  moment when it is free it goes to a descriptor that may already belong to another console, which gets
  it twice.
\<close>

lemma console_message_misdirected:
  "map_option (\<lambda>w. (spd_network_puts_mutable ''x'' (map fst (cw_slots w)), map owned (cw_slots w)))
     (con_run 3 [Accepted True True False, Closing 0, Closing 0, Closing 0, Accepted True True False]
        \<lparr>cw_slots = replicate 2 (\<lparr>con_fd = - 1, con_p0 = 0, con_p1 = 0, con_mute = False\<rparr>, 0), cw_open = [0, 1, 2, 3]\<rparr>) =
   Some ([FdPrint 6 ''x'', FdPrint 6 ''x''], [[], [4, 5, 6]])"
  by code_simp

text \<open>
  whichever of its standard descriptors were closed or open, the daemon ends up with
  descriptor 0 reading \<open>/dev/null\<close> and 1 and 2 writing to it, and every other descriptor as it was.
\<close>

lemma daemon_std_fds:
  "map_of (deamonize_fds t) = (map_of t)(0 \<mapsto> ''/dev/null r'', 1 \<mapsto> ''/dev/null w'', 2 \<mapsto> ''/dev/null w'')"
  by (simp add: deamonize_fds_def std_fd_map)

end
