(* ===== verification/Spd_LockedList.thy ===== *)
theory Spd_LockedList
  imports Spd_LinkedList Spd_Lock
begin

text \<open>
  The lists of \<open>linkedlist.h\<close> with their locks: the macros that make, destroy and lock a head, and that
  threads which use them in any interleaving leave the list that some order of whole sections leaves.
\<close>

section \<open>Heads with a lock\<close>

record 'l locked_head =
  lk_head :: lhead
  lk_lock :: 'l

text \<open>The values of static heads. A static mutex is not recursive, one that is initialised is.\<close>

definition SPD_LIST_HEAD_INIT_VALUE :: "spd_mutex locked_head" where
  "SPD_LIST_HEAD_INIT_VALUE = \<lparr>lk_head = \<lparr>lh_first = None, lh_last = None\<rparr>, lk_lock = SPD_MUTEX_INIT_VALUE\<rparr>"

definition SPD_RWLOCK_INIT_VALUE ::
  spd_rwlock where
  "SPD_RWLOCK_INIT_VALUE = \<lparr>rw_writer = None, rw_readers = []\<rparr>"

definition SPD_RWLIST_HEAD_INIT_VALUE :: "spd_rwlock locked_head" where
  "SPD_RWLIST_HEAD_INIT_VALUE = \<lparr>lk_head = \<lparr>lh_first = None, lh_last = None\<rparr>, lk_lock = SPD_RWLOCK_INIT_VALUE\<rparr>"

definition SPD_LIST_HEAD_NOLOCK_INIT_VALUE ::
  lhead where
  "SPD_LIST_HEAD_NOLOCK_INIT_VALUE = \<lparr>lh_first = None, lh_last = None\<rparr>"

definition list_head_init_mutex :: "spd_mutex locked_head" where
  "list_head_init_mutex = \<lparr>lk_head = SPD_LIST_HEAD_INIT, lk_lock = spd_mutex_init\<rparr>"

definition list_head_set_mutex :: "addr option \<Rightarrow> spd_mutex locked_head" where
  "list_head_set_mutex entry = \<lparr>lk_head = SPD_LIST_HEAD_SET entry, lk_lock = spd_mutex_init\<rparr>"

definition SPD_RWLIST_HEAD_INIT :: "spd_rwlock locked_head" where
  "SPD_RWLIST_HEAD_INIT = \<lparr>lk_head = \<lparr>lh_first = None, lh_last = None\<rparr>, lk_lock = spd_rwlock_init\<rparr>"

definition SPD_RWLIST_HEAD_SET :: "addr option \<Rightarrow> spd_rwlock locked_head" where
  "SPD_RWLIST_HEAD_SET entry = \<lparr>lk_head = \<lparr>lh_first = entry, lh_last = entry\<rparr>, lk_lock = spd_rwlock_init\<rparr>"

definition SPD_LIST_HEAD_INIT_NOLOCK ::
  lhead where
  "SPD_LIST_HEAD_INIT_NOLOCK = \<lparr>lh_first = None, lh_last = None\<rparr>"

definition SPD_LIST_HEAD_SET_NOLOCK :: "addr option \<Rightarrow> lhead" where
  "SPD_LIST_HEAD_SET_NOLOCK entry = \<lparr>lh_first = entry, lh_last = entry\<rparr>"

definition on_lock :: "('l \<Rightarrow> 'l call) \<Rightarrow> 'l locked_head \<Rightarrow> 'l locked_head call" where
  "on_lock f h = (case f (lk_lock h) of Done r m \<Rightarrow> Done r (h\<lparr>lk_lock := m\<rparr>) | Waits \<Rightarrow> Waits | Undefined \<Rightarrow> Undefined)"

text \<open>The entries are forgotten, then the lock is destroyed.\<close>

definition SPD_LIST_HEAD_DESTROY :: "spd_mutex locked_head \<Rightarrow> spd_mutex locked_head call" where
  "SPD_LIST_HEAD_DESTROY h = on_lock spd_mutex_destroy (h\<lparr>lk_head := \<lparr>lh_first = None, lh_last = None\<rparr>\<rparr>)"

definition SPD_RWLIST_HEAD_DESTROY :: "spd_rwlock locked_head \<Rightarrow> spd_rwlock locked_head call" where
  "SPD_RWLIST_HEAD_DESTROY h = on_lock spd_rwlock_destroy (h\<lparr>lk_head := \<lparr>lh_first = None, lh_last = None\<rparr>\<rparr>)"

definition SPD_LIST_LOCK :: "nat \<Rightarrow> spd_mutex locked_head \<Rightarrow> spd_mutex locked_head call" where
  "SPD_LIST_LOCK t = on_lock (spd_mutex_lock t)"
definition SPD_LIST_TRYLOCK :: "nat \<Rightarrow> spd_mutex locked_head \<Rightarrow> spd_mutex locked_head call" where
  "SPD_LIST_TRYLOCK t = on_lock (spd_mutex_trylock t)"
definition SPD_LIST_UNLOCK :: "nat \<Rightarrow> spd_mutex locked_head \<Rightarrow> spd_mutex locked_head call" where
  "SPD_LIST_UNLOCK t = on_lock (spd_mutex_unlock t)"
definition SPD_RWLIST_WRLOCK :: "nat \<Rightarrow> spd_rwlock locked_head \<Rightarrow> spd_rwlock locked_head call" where
  "SPD_RWLIST_WRLOCK t = on_lock (spd_rwlock_wrlock t)"
definition SPD_RWLIST_TIMEDWRLOCK :: "nat \<Rightarrow> bool \<Rightarrow> spd_rwlock locked_head \<Rightarrow> spd_rwlock locked_head call" where
  "SPD_RWLIST_TIMEDWRLOCK t ts = on_lock (spd_rwlock_timedwrlock t ts)"
definition SPD_RWLIST_RDLOCK :: "nat \<Rightarrow> spd_rwlock locked_head \<Rightarrow> spd_rwlock locked_head call" where
  "SPD_RWLIST_RDLOCK t = on_lock (spd_rwlock_rdlock t)"
definition SPD_RWLISK_TIMEDRDLOCK :: "nat \<Rightarrow> bool \<Rightarrow> spd_rwlock locked_head \<Rightarrow> spd_rwlock locked_head call" where
  "SPD_RWLISK_TIMEDRDLOCK t ts = on_lock (spd_rwlock_timedrdlock t ts)"
definition SPD_RWLISK_TRYWRLOCK :: "nat \<Rightarrow> spd_rwlock locked_head \<Rightarrow> spd_rwlock locked_head call" where
  "SPD_RWLISK_TRYWRLOCK t = on_lock (spd_rwlock_trywrlock t)"
definition SPD_RWLIST_TRYRDLOCK :: "nat \<Rightarrow> spd_rwlock locked_head \<Rightarrow> spd_rwlock locked_head call" where
  "SPD_RWLIST_TRYRDLOCK t = on_lock (spd_rwlock_tryrdlock t)"
definition SPD_RWLIST_UNLOCK :: "nat \<Rightarrow> spd_rwlock locked_head \<Rightarrow> spd_rwlock locked_head call" where
  "SPD_RWLIST_UNLOCK t = on_lock (spd_rwlock_unlock t)"

lemma static_locks_once:
  "SPD_LIST_LOCK t SPD_LIST_HEAD_INIT_VALUE = Done 0 h \<Longrightarrow> SPD_LIST_LOCK t h = Waits"
  "SPD_LIST_LOCK t list_head_init_mutex = Done 0 h' \<Longrightarrow> \<exists>h''. SPD_LIST_LOCK t h' = Done 0 h''"
  by (auto simp: SPD_LIST_LOCK_def on_lock_def spd_mutex_lock_def SPD_LIST_HEAD_INIT_VALUE_def SPD_MUTEX_INIT_VALUE_def
      list_head_init_mutex_def spd_mutex_init_def SPD_MUTEX_KIND_def)

section \<open>Threads that share a list\<close>

datatype list_op = InsertHead addr | InsertTail addr | RemoveHead | Remove addr

text \<open>The macros between the lock and the unlock, on the head and the links.\<close>

definition list_apply :: "list_op \<Rightarrow> lhead \<times> links \<Rightarrow> (lhead \<times> links) option" where
  "list_apply a s =
     (case a of
        InsertHead x \<Rightarrow> Some (SPD_LIST_INSERT_HEAD (fst s) (snd s) x)
      | InsertTail x \<Rightarrow> SPD_LIST_INSERT_TAIL (fst s) (snd s) x
      | RemoveHead \<Rightarrow> Some (snd (SPD_LIST_REMOVE_HEAD (fst s) (snd s)))
      | Remove x \<Rightarrow> map_option snd (SPD_LIST_REMOVE (fst s) (snd s) x))"

definition list_abs :: "list_op \<Rightarrow> addr list \<Rightarrow> addr list" where
  "list_abs a xs =
     (case a of InsertHead x \<Rightarrow> x # xs | InsertTail x \<Rightarrow> xs @ [x] | RemoveHead \<Rightarrow> tl xs | Remove x \<Rightarrow> remove1 x xs)"

text \<open>An entry is only inserted when it is in no list.\<close>

definition list_valid :: "list_op \<Rightarrow> addr list \<Rightarrow> bool" where
  "list_valid a xs \<longleftrightarrow> (case a of InsertHead x \<Rightarrow> x \<notin> set xs | InsertTail x \<Rightarrow> x \<notin> set xs | _ \<Rightarrow> True)"

fun all_valid :: "list_op list \<Rightarrow> addr list \<Rightarrow> bool" where
  "all_valid [] xs \<longleftrightarrow> True"
| "all_valid (a # as) xs \<longleftrightarrow> list_valid a xs \<and> all_valid as (list_abs a xs)"

definition list_state :: "lhead \<times> links \<Rightarrow> addr list \<Rightarrow> bool" where
  "list_state s xs \<longleftrightarrow> is_list (fst s) (snd s) xs \<and> (\<forall>y. y \<notin> set xs \<longrightarrow> snd s y = None)"

lemma remove_frame:
  assumes l: "is_list h nx (us @ e # vs)" and r: "SPD_LIST_REMOVE h nx e = Some (x, h', nx')" and y: "y \<notin> set (us @ e # vs)"
  shows "nx' y = nx y"
proof (cases "lh_first h = Some e")
  case True
  then show ?thesis using r y by (auto simp: SPD_LIST_REMOVE_def Let_def)
next
  case False
  have "us \<noteq> []" using False is_list_first [OF l] by (cases us) auto
  then obtain ws c where us: "us = ws @ [c]" by (metis append_butlast_last_id)
  have "distinct (us @ e # vs)" using l by (rule is_list_distinct)
  then have "remove_scan nx e (lh_first h) = Some (Some c)"
    using l us remove_scan_path [of nx "lh_first h" ws c e vs] by (auto simp: is_list_def)
  then show ?thesis using r y False us by (auto simp: SPD_LIST_REMOVE_def Let_def)
qed

lemma list_apply_abs:
  assumes "list_state s xs" "list_valid a xs"
  shows "\<exists>s'. list_apply a s = Some s' \<and> list_state s' (list_abs a xs)"
proof -
  have l: "is_list (fst s) (snd s) xs" and f: "\<And>y. y \<notin> set xs \<Longrightarrow> snd s y = None" using assms(1) by (auto simp: list_state_def)
  show ?thesis
  proof (cases a)
    case (InsertHead x)
    then show ?thesis using assms(2) insert_head_list [OF l, of x] f
      by (auto simp: list_apply_def list_abs_def list_valid_def list_state_def SPD_LIST_INSERT_HEAD_def Let_def)
  next
    case (InsertTail x)
    then obtain h' nx' where "SPD_LIST_INSERT_TAIL (fst s) (snd s) x = Some (h', nx')" "is_list h' nx' (xs @ [x])"
        "\<forall>y. y \<notin> set xs \<longrightarrow> nx' y = snd s y"
      using assms(2) insert_tail_list [OF l, of x] f by (auto simp: list_valid_def)
    then show ?thesis using InsertTail f by (auto simp: list_apply_def list_abs_def list_state_def)
  next
    case RemoveHead
    then show ?thesis using remove_head_list [OF l] f
      by (cases xs) (auto simp: list_apply_def list_abs_def list_state_def SPD_LIST_REMOVE_HEAD_def is_list_first [OF l] Let_def)
  next
    case (Remove x)
    show ?thesis
    proof (cases "x \<in> set xs")
      case True
      then obtain us vs where xs: "xs = us @ x # vs" "x \<notin> set us" by (metis split_list_first)
      obtain h' nx' where r: "SPD_LIST_REMOVE (fst s) (snd s) x = Some (Some x, h', nx')" "is_list h' nx' (us @ vs)" "nx' x = None"
        using remove_list_present l xs by blast
      have "nx' y = None" if "y \<notin> set (us @ vs)" for y
      proof (cases "y = x")
        case False
        then show ?thesis using remove_frame [OF l [unfolded xs(1)] r(1), of y] that f [of y] xs(1) by auto
      qed (simp add: r(3))
      then show ?thesis using Remove r xs by (simp add: list_apply_def list_abs_def list_state_def remove1_append)
    next
      case False
      then show ?thesis using Remove remove_list_absent [OF l False] f is_list_frame [OF l False]
        by (simp add: list_apply_def list_abs_def list_state_def remove1_idem)
    qed
  qed
qed

lemma guarded_list_state:
  "guard_run acq rel list_apply tr m s = Some (m', s') \<Longrightarrow> list_state s xs \<Longrightarrow> all_valid (trace_acts tr) xs \<Longrightarrow>
   list_state s' (fold list_abs (trace_acts tr) xs)"
proof (induction tr arbitrary: m s xs)
  case (Cons x tr)
  obtain t e where x: "x = (t, e)" by fastforce
  show ?case
  proof (cases e)
    case (Act a)
    then have v: "list_valid a xs" "all_valid (trace_acts tr) (list_abs a xs)" using Cons.prems(3) x by simp_all
    obtain s1 where s1: "list_apply a s = Some s1" "list_state s1 (list_abs a xs)"
      using list_apply_abs [OF Cons.prems(2) v(1)] by blast
    have "guard_run acq rel list_apply tr m s1 = Some (m', s')" using Cons.prems(1) x Act s1(1) by simp
    from Cons.IH [OF this s1(2) v(2)] show ?thesis using x Act by simp
  qed (use Cons.prems Cons.IH [of _ s xs] x in \<open>auto simp: bind_Some_iff\<close>)
qed simp

text \<open>The list after whole sections, one after the other.\<close>

lemma locked_list:
  assumes "guard_run acq rel list_apply tr m s = Some (m', s')" "list_state s xs" "all_valid (trace_acts tr) xs"
    and "tr = concat (map guard_section ss)"
  shows "is_list (fst s') (snd s') (fold list_abs (concat (map snd ss)) xs)"
  using guarded_list_state [OF assms(1-3)] trace_acts_sections [of ss] assms(4) by (simp add: list_state_def)

section \<open>Properties\<close>

text \<open>
  C7: when threads insert and remove only between locking and unlocking a list,
  whether its mutex is static or initialised, then in whatever order their steps happen the sections of
  the threads do not overlap, and the links form the list that results from executing the sections one
  after the other.
\<close>

theorem locked_list_serial:
  assumes "is_list h nx xs" "\<forall>y. y \<notin> set xs \<longrightarrow> nx y = None"
    and "guard_run (\<lambda>t m. at_once (spd_mutex_lock t m)) (\<lambda>t m. at_once (spd_mutex_unlock t m)) list_apply tr
       \<lparr>mx_kind = k, mx_owner = None, mx_depth = 0\<rparr> (h, nx) = Some (m', (h', nx'))"
    and "\<forall>t. guard_inside False (events_of t tr) = Some False"
    and "all_valid (trace_acts tr) xs"
  shows "\<exists>ss. tr = concat (map guard_section ss) \<and> is_list h' nx' (fold list_abs (concat (map snd ss)) xs)"
proof -
  obtain ss where ss: "tr = concat (map guard_section ss)"
    using mx.guard_serial [OF assms(3) _ assms(4)] by (auto simp: mutex_holds_def)
  moreover have "list_state (h, nx) xs" using assms(1,2) by (simp add: list_state_def)
  ultimately show ?thesis using locked_list [OF assms(3) _ assms(5) ss] by auto
qed

theorem locked_list_serial_witness:
  "\<exists>m' h' nx' ss. guard_run (\<lambda>t m. at_once (spd_mutex_lock t m)) (\<lambda>t m. at_once (spd_mutex_unlock t m)) list_apply
       [(1, Enter), (1, Act (InsertTail 7)), (1, Act (InsertTail 8)), (1, Leave), (2, Enter), (2, Act RemoveHead), (2, Leave)]
       SPD_MUTEX_INIT_VALUE (SPD_LIST_HEAD_INIT, \<lambda>_. None) = Some (m', (h', nx')) \<and>
     is_list h' nx' (fold list_abs (concat (map snd ss)) []) \<and> length (concat (map guard_section ss)) = 7"
proof -
  let ?tr = "[(1, Enter), (1, Act (InsertTail 7)), (1, Act (InsertTail 8)), (1, Leave), (2, Enter), (2, Act RemoveHead), (2, Leave)]"
  have "guard_run (\<lambda>t m. at_once (spd_mutex_lock t m)) (\<lambda>t m. at_once (spd_mutex_unlock t m)) list_apply ?tr
       \<lparr>mx_kind = Normal, mx_owner = None, mx_depth = 0\<rparr> (SPD_LIST_HEAD_INIT, \<lambda>_. None) \<noteq> None"
    by (simp add: spd_mutex_lock_def spd_mutex_unlock_def list_apply_def SPD_LIST_INSERT_TAIL_def SPD_LIST_HEAD_INIT_def)
  then obtain m' h' nx' where r: "guard_run (\<lambda>t m. at_once (spd_mutex_lock t m)) (\<lambda>t m. at_once (spd_mutex_unlock t m)) list_apply ?tr
       \<lparr>mx_kind = Normal, mx_owner = None, mx_depth = 0\<rparr> (SPD_LIST_HEAD_INIT, \<lambda>_. None) = Some (m', (h', nx'))"
    by (auto simp del: guard_run.simps)
  have d: "\<forall>t. guard_inside False (events_of t ?tr) = Some False" by simp
  have v: "all_valid (trace_acts ?tr) []" by (simp add: list_valid_def list_abs_def)
  obtain ss where ss: "?tr = concat (map guard_section ss)" "is_list h' nx' (fold list_abs (concat (map snd ss)) [])"
    using locked_list_serial [OF list_head_init _ r d v] by (elim meta_impE exE conjE) (simp, rule that)
  have "length (concat (map guard_section ss)) = 7" unfolding ss(1) [symmetric] by simp
  then show ?thesis unfolding SPD_MUTEX_INIT_VALUE_def using r ss(2) by blast
qed

text \<open>The same for lists with a read-write lock whose users take it for writing.\<close>

lemma rwlist_serial:
  assumes "is_list h nx xs" "\<forall>y. y \<notin> set xs \<longrightarrow> nx y = None"
    and "guard_run (\<lambda>t m. at_once (spd_rwlock_wrlock t m)) (\<lambda>t m. at_once (spd_rwlock_unlock t m)) list_apply tr
       spd_rwlock_init (h, nx) = Some (m', (h', nx'))"
    and "\<forall>t. guard_inside False (events_of t tr) = Some False"
    and "all_valid (trace_acts tr) xs"
  shows "\<exists>ss. tr = concat (map guard_section ss) \<and> is_list h' nx' (fold list_abs (concat (map snd ss)) xs)"
proof -
  obtain ss where ss: "tr = concat (map guard_section ss)"
    using rw.guard_serial [OF assms(3) _ assms(4)] by (auto simp: rwlock_writes_def spd_rwlock_init_def)
  moreover have "list_state (h, nx) xs" using assms(1,2) by (simp add: list_state_def)
  ultimately show ?thesis using locked_list [OF assms(3) _ assms(5) ss] by auto
qed

end
