(* ===== verification/Spd_ConfigMem.thy ===== *)
theory Spd_ConfigMem
  imports Spd_Config "HOL-Library.Multiset"
begin

text \<open>
  The memory of \<open>config.c\<close>: the growing buffers that collect comments, which \<open>Spd_Config\<close> holds as
  strings, and what the destruction of a configuration frees.
\<close>

section \<open>Growing buffers\<close>

text \<open>
  The memory and the size that the caller's variable has. \<open>realloc\<close> keeps what there was; \<open>j\<close> is what
  the new part holds.
\<close>

record growbuf =
  gb_mem :: "char list"
  gb_size :: int

definition COBUF_LEN :: int where "COBUF_LEN = 250"

definition gb_text :: "growbuf \<Rightarrow> string" where
  "gb_text b = cstr (gb_mem b)"

definition gb_grow :: "char \<Rightarrow> int \<Rightarrow> growbuf \<Rightarrow> growbuf" where
  "gb_grow j k b = \<lparr>gb_mem = take (nat (gb_size b + k)) (gb_mem b @ replicate (nat k) j), gb_size = gb_size b + k\<rparr>"

text \<open>A write outside of the memory has no result.\<close>

definition gb_write :: "nat \<Rightarrow> char list \<Rightarrow> growbuf \<Rightarrow> growbuf option" where
  "gb_write p t b = (if p + length t \<le> length (gb_mem b) then Some (b\<lparr>gb_mem := overwrite (gb_mem b) p t\<rparr>) else None)"

definition gb_strcat :: "string \<Rightarrow> growbuf \<Rightarrow> growbuf option" where
  "gb_strcat s b = gb_write (length (gb_text b)) (s @ [NUL]) b"

definition comment_add :: "char \<Rightarrow> string \<Rightarrow> growbuf \<Rightarrow> growbuf option" where
  "comment_add j str b =
     (let rem = gb_size b - int (length (gb_text b)) - 1; siz = int (length str);
          b = (if rem < siz + 1 then gb_grow j (COBUF_LEN + siz + 1) b else b)
      in gb_strcat str b)"

definition comment_add_len :: "char \<Rightarrow> string \<Rightarrow> int \<Rightarrow> growbuf \<Rightarrow> growbuf option" where
  "comment_add_len j str len b =
     (let cbl = int (length (gb_text b)) + 1; rem = gb_size b - cbl;
          b = (if rem < len + 1 then gb_grow j (COBUF_LEN + len + 1) b else b)
      in Option.bind (gb_strcat (take (nat len) str) b) (gb_write (nat (cbl + len - 1)) [NUL]))"

definition llb_add :: "char \<Rightarrow> string \<Rightarrow> growbuf \<Rightarrow> growbuf option" where
  "llb_add j str b =
     (let rem = gb_size b - int (length (gb_text b)) - 1; siz = int (length str);
          b = (if rem < siz + 1 then gb_grow j (COBUF_LEN + siz + 1) b else b)
      in gb_strcat str b)"

text \<open>The text is copied into its own block with its NUL.\<close>

definition comment_alloc :: "string \<Rightarrow> char list" where
  "comment_alloc buf = overwrite (replicate (length buf + 1) NUL) 0 (buf @ [NUL])"

definition buf_inv :: "growbuf \<Rightarrow> bool" where
  "buf_inv b \<longleftrightarrow> gb_size b = int (length (gb_mem b)) \<and> NUL \<in> set (gb_mem b)"

lemma text_len: "buf_inv b \<Longrightarrow> int (length (gb_text b)) < gb_size b"
proof -
  assume i: "buf_inv b"
  have "length (cstr m) < length m" if "NUL \<in> set m" for m :: "char list"
    using that unfolding cstr_def by (induction m) auto
  then show ?thesis using i by (simp add: buf_inv_def gb_text_def)
qed

lemma text_split: "buf_inv b \<Longrightarrow> \<exists>r. gb_mem b = gb_text b @ NUL # r"
proof -
  assume i: "buf_inv b"
  have "\<exists>r. m = cstr m @ NUL # r" if "NUL \<in> set m" for m :: "char list"
    using that unfolding cstr_def by (induction m) auto
  then show ?thesis using i by (simp add: buf_inv_def gb_text_def)
qed

lemma grow_inv: "buf_inv b \<Longrightarrow> 0 \<le> k \<Longrightarrow> buf_inv (gb_grow j k b) \<and> gb_text (gb_grow j k b) = gb_text b \<and> gb_size (gb_grow j k b) = gb_size b + k"
proof -
  assume i: "buf_inv b" and k: "0 \<le> k"
  have m: "gb_mem (gb_grow j k b) = gb_mem b @ replicate (nat k) j" using i k by (simp add: gb_grow_def buf_inv_def nat_add_distrib)
  have "gb_text (gb_grow j k b) = gb_text b"
    using i unfolding gb_text_def m cstr_def buf_inv_def by (intro takeWhile_append1 [where x = NUL]) simp_all
  then show ?thesis using i k m by (auto simp: buf_inv_def gb_grow_def)
qed

lemma strcat_inv:
  assumes "buf_inv b" "is_cstr s" "int (length (gb_text b) + length s + 1) \<le> gb_size b"
  shows "\<exists>b'. gb_strcat s b = Some b' \<and> buf_inv b' \<and> gb_text b' = gb_text b @ s \<and> gb_size b' = gb_size b"
proof -
  obtain r where r: "gb_mem b = gb_text b @ NUL # r" using text_split [OF assms(1)] by blast
  let ?b = "b\<lparr>gb_mem := gb_text b @ s @ NUL # drop (length s) r\<rparr>"
  have "overwrite (gb_mem b) (length (gb_text b)) (s @ [NUL]) = gb_text b @ s @ NUL # drop (length s) r"
    unfolding r overwrite_def by simp
  then have "gb_strcat s b = Some ?b" using assms by (simp add: gb_strcat_def gb_write_def buf_inv_def)
  moreover have "gb_text ?b = gb_text b @ s"
    using assms(2) cstr_append_NUL [of "gb_text b @ s" "drop (length s) r"] by (simp add: gb_text_def)
  moreover have "length (gb_mem ?b) = length (gb_mem b)" using assms(1,3) unfolding buf_inv_def r by simp
  ultimately show ?thesis using assms(1) by (simp add: buf_inv_def)
qed


lemma add_inv:
  assumes "buf_inv b" "is_cstr s"
  shows "\<exists>b'. comment_add j s b = Some b' \<and> buf_inv b' \<and> gb_text b' = gb_text b @ s \<and>
     gb_size b' \<le> gb_size b + COBUF_LEN + int (length s) + 1"
proof -
  let ?b = "if gb_size b - int (length (gb_text b)) - 1 < int (length s) + 1 then gb_grow j (COBUF_LEN + int (length s) + 1) b else b"
  have b: "buf_inv ?b" "gb_text ?b = gb_text b" "int (length (gb_text b) + length s + 1) \<le> gb_size ?b"
    "gb_size ?b \<le> gb_size b + COBUF_LEN + int (length s) + 1"
    using assms(1) grow_inv [OF assms(1), of "COBUF_LEN + int (length s) + 1" j] text_len [OF assms(1)]
    by (auto simp: COBUF_LEN_def)
  obtain b' where b': "gb_strcat s ?b = Some b'" "buf_inv b'" "gb_text b' = gb_text ?b @ s" "gb_size b' = gb_size ?b"
    using strcat_inv [OF b(1) assms(2)] b(2,3) by auto
  have "comment_add j s b = gb_strcat s ?b" unfolding comment_add_def Let_def ..
  then show ?thesis using b b' by (intro exI [of _ b']) simp
qed

lemma llb_add_eq: "llb_add = comment_add"
  by (simp add: fun_eq_iff llb_add_def comment_add_def)

lemma write_NUL:
  assumes "buf_inv b" "length (gb_text b) \<le> p" "int p < gb_size b"
  shows "\<exists>b'. gb_write p [NUL] b = Some b' \<and> buf_inv b' \<and> gb_text b' = gb_text b \<and> gb_size b' = gb_size b"
proof -
  obtain r where r: "gb_mem b = gb_text b @ NUL # r" using text_split [OF assms(1)] by blast
  have l: "p < length (gb_mem b)" using assms(1,3) by (simp add: buf_inv_def)
  let ?b = "b\<lparr>gb_mem := overwrite (gb_mem b) p [NUL]\<rparr>"
  have t: "take p (gb_mem b) = gb_text b @ take (p - length (gb_text b)) (NUL # r)"
    using assms(2) unfolding r by simp
  have "gb_text ?b = gb_text b"
  proof (cases "p = length (gb_text b)")
    case True
    then show ?thesis using t cstr_append_NUL [of "gb_text b" "drop (p + 1) (gb_mem b)"]
      by (simp add: overwrite_def gb_text_def)
  next
    case False
    then obtain k where "p - length (gb_text b) = Suc k" using assms(2) by (metis Suc_diff_Suc le_neq_implies_less)
    then have "overwrite (gb_mem b) p [NUL] = gb_text b @ NUL # (take k r @ NUL # drop (p + 1) (gb_mem b))"
      using t by (simp add: overwrite_def)
    then show ?thesis using cstr_append_NUL [of "gb_text b"] by (simp add: gb_text_def)
  qed
  moreover have "length (overwrite (gb_mem b) p [NUL]) = length (gb_mem b)" using l by (simp add: overwrite_def)
  moreover have "gb_write p [NUL] b = Some ?b" using l by (simp add: gb_write_def)
  ultimately show ?thesis using assms(1) by (intro exI [of _ ?b]) (simp add: buf_inv_def overwrite_def)
qed

lemma add_len_inv:
  assumes "buf_inv b" "is_cstr s" "0 \<le> len"
  shows "\<exists>b'. comment_add_len j s len b = Some b' \<and> buf_inv b' \<and> gb_text b' = gb_text b @ take (nat len) s \<and>
     gb_size b' \<le> gb_size b + COBUF_LEN + len + 1"
proof -
  let ?b = "if gb_size b - (int (length (gb_text b)) + 1) < len + 1 then gb_grow j (COBUF_LEN + len + 1) b else b"
  let ?s = "take (nat len) s"
  have b: "buf_inv ?b" "gb_text ?b = gb_text b" "int (length (gb_text b)) + len + 1 \<le> gb_size ?b"
    "gb_size ?b \<le> gb_size b + COBUF_LEN + len + 1"
    using assms(1,3) grow_inv [OF assms(1), of "COBUF_LEN + len + 1" j] text_len [OF assms(1)]
    by (auto simp: COBUF_LEN_def)
  have "is_cstr ?s" using assms(2) by (rule is_cstr_take)
  have fit: "int (length (gb_text ?b) + length ?s + 1) \<le> gb_size ?b" using b(3) assms(3) unfolding b(2) by simp
  obtain b1 where b1: "gb_strcat ?s ?b = Some b1" "buf_inv b1" "gb_text b1 = gb_text b @ ?s" "gb_size b1 = gb_size ?b"
    using strcat_inv [OF b(1) \<open>is_cstr ?s\<close> fit] unfolding b(2) by blast
  let ?p = "nat (int (length (gb_text b)) + 1 + len - 1)"
  have q: "length (gb_text b1) \<le> ?p" "int ?p < gb_size b1" unfolding b1(3,4) using b(3) assms(3) by auto
  obtain b2 where b2: "gb_write ?p [NUL] b1 = Some b2" "buf_inv b2" "gb_text b2 = gb_text b1" "gb_size b2 = gb_size b1"
    using write_NUL [OF b1(2) q] by blast
  have "comment_add_len j s len b = Option.bind (gb_strcat ?s ?b) (gb_write ?p [NUL])"
    unfolding comment_add_len_def Let_def ..
  then show ?thesis using b b1 b2 by (intro exI [of _ b2]) simp
qed

datatype buf_op = AddText string | AddPart string int

fun buf_run :: "char \<Rightarrow> buf_op list \<Rightarrow> growbuf \<Rightarrow> growbuf option" where
  "buf_run j [] b = Some b"
| "buf_run j (AddText s # ops) b = Option.bind (comment_add j s b) (buf_run j ops)"
| "buf_run j (AddPart s n # ops) b = Option.bind (comment_add_len j s n b) (buf_run j ops)"

fun op_text :: "buf_op \<Rightarrow> string" where
  "op_text (AddText s) = s"
| "op_text (AddPart s n) = take (nat n) s"

fun op_good :: "buf_op \<Rightarrow> bool" where
  "op_good (AddText s) \<longleftrightarrow> is_cstr s"
| "op_good (AddPart s n) \<longleftrightarrow> is_cstr s \<and> 0 \<le> n"



section \<open>What is freed\<close>

text \<open>
  The blocks of a configuration: of a variable its own, the chains of its comments in front, on the line
  and behind; of a section its own, its comments, its template instances and its variables. Blocks are
  addresses.
\<close>

record var_blocks =
  vb_self :: addr
  vb_prev :: "addr list"
  vb_sameline :: "addr list"
  vb_tail :: "addr list"

record section_blocks =
  sb_self :: addr
  sb_prev :: "addr list"
  sb_sameline :: "addr list"
  sb_templates :: "addr list"
  sb_root :: "var_blocks list"

record config_blocks =
  cb_self :: addr
  cb_sections :: "section_blocks list"

text \<open>Each gives what is freed, in order, and what is left of the structure.\<close>

fun spd_variables_destroy :: "var_blocks list \<Rightarrow> addr list" where
  "spd_variables_destroy [] = []"
| "spd_variables_destroy (v # vs) = vb_self v # spd_variables_destroy vs"

fun destroy_chain :: "addr list \<Rightarrow> addr list" where
  "destroy_chain [] = []"
| "destroy_chain (p # ps) = p # destroy_chain ps"

definition spd_destroy_comment :: "addr list \<Rightarrow> addr list \<times> addr list" where
  "spd_destroy_comment cmt = (destroy_chain cmt, [])"

definition spd_destroy_comments :: "section_blocks \<Rightarrow> addr list \<times> section_blocks" where
  "spd_destroy_comments cat =
     (let (f1, p) = spd_destroy_comment (sb_prev cat); (f2, l) = spd_destroy_comment (sb_sameline cat)
      in (f1 @ f2, cat\<lparr>sb_prev := p, sb_sameline := l\<rparr>))"

text \<open>The traversal that is safe against the removal of the current entry.\<close>

fun template_loop :: "addr list \<Rightarrow> addr list \<times> addr list" where
  "template_loop [] = ([], [])"
| "template_loop (x # xs) = (case template_loop xs of (freed, rest) \<Rightarrow> (x # freed, rest))"

definition spd_destroy_template_list :: "section_blocks \<Rightarrow> addr list \<times> section_blocks" where
  "spd_destroy_template_list cat = (case template_loop (sb_templates cat) of (f, r) \<Rightarrow> (f, cat\<lparr>sb_templates := r\<rparr>))"

definition spd_section_destroy :: "section_blocks \<Rightarrow> addr list" where
  "spd_section_destroy cat =
     (let f1 = spd_variables_destroy (sb_root cat);
          (f2, cat) = spd_destroy_comments cat;
          (f3, cat) = spd_destroy_template_list cat
      in f1 @ f2 @ f3 @ [sb_self cat])"

fun destroy_sections :: "section_blocks list \<Rightarrow> addr list" where
  "destroy_sections [] = []"
| "destroy_sections (cat # cats) = spd_section_destroy cat @ destroy_sections cats"

definition spd_config_destroy :: "config_blocks option \<Rightarrow> addr list" where
  "spd_config_destroy cfg =
     (case cfg of None \<Rightarrow> [] | Some c \<Rightarrow> destroy_sections (cb_sections c) @ [cb_self c])"

definition spd_config_get_current_section :: "spd_config \<Rightarrow> addr option" where
  "spd_config_get_current_section cfg = c_current cfg"

definition spd_config_set_current_section :: "spd_config \<Rightarrow> addr option \<Rightarrow> spd_config" where
  "spd_config_set_current_section cfg cat = cfg\<lparr>c_current := cat\<rparr>"

definition var_comments :: "var_blocks \<Rightarrow> addr list" where
  "var_comments v = vb_prev v @ vb_sameline v @ vb_tail v"

definition section_all :: "section_blocks \<Rightarrow> addr list" where
  "section_all s = sb_self s # sb_prev s @ sb_sameline s @ sb_templates s @
     concat (map (\<lambda>v. vb_self v # var_comments v) (sb_root s))"

definition config_all :: "config_blocks \<Rightarrow> addr list" where
  "config_all c = cb_self c # concat (map section_all (cb_sections c))"

lemma chain_id: "destroy_chain ps = ps" "template_loop ps = (ps, [])"
  by (induction ps) simp_all

lemma variables_destroy_map: "spd_variables_destroy vs = map vb_self vs"
  by (induction vs) simp_all

lemma section_destroy_list:
  "spd_section_destroy s = map vb_self (sb_root s) @ (sb_prev s @ sb_sameline s) @ sb_templates s @ [sb_self s]"
  by (simp add: spd_section_destroy_def spd_destroy_comments_def spd_destroy_comment_def spd_destroy_template_list_def
      chain_id variables_destroy_map)

lemma section_destroy_mset:
  "mset (spd_section_destroy s) + mset (concat (map var_comments (sb_root s))) = mset (section_all s)"
proof -
  have v: "mset (concat (map (\<lambda>v. vb_self v # var_comments v) vs)) = mset (map vb_self vs) + mset (concat (map var_comments vs))" for vs
    by (induction vs) simp_all
  show ?thesis unfolding section_destroy_list section_all_def by (simp only: mset_append mset.simps v) (simp add: ac_simps)
qed

text \<open>
  Destroying a configuration frees no block twice, and all of its blocks but the
  comments of its variables; a configuration loaded with comments leaks exactly those.
\<close>

lemma config_destroy_leaks:
  assumes "distinct (config_all c)"
  shows "distinct (spd_config_destroy (Some c)) \<and>
     set (spd_config_destroy (Some c)) =
       set (config_all c) - set (concat (map var_comments (concat (map sb_root (cb_sections c)))))"
proof -
  let ?lost = "concat (map var_comments (concat (map sb_root (cb_sections c))))"
  have "mset (destroy_sections cs) + mset (concat (map var_comments (concat (map sb_root cs)))) =
      mset (concat (map section_all cs))" for cs
  proof (induction cs)
    case (Cons s cs)
    have "mset (destroy_sections (s # cs)) + mset (concat (map var_comments (concat (map sb_root (s # cs))))) =
        (mset (spd_section_destroy s) + mset (concat (map var_comments (sb_root s)))) +
        (mset (destroy_sections cs) + mset (concat (map var_comments (concat (map sb_root cs)))))"
      by (simp only: destroy_sections.simps list.map concat.simps map_append concat_append mset_append ac_simps)
    then show ?case unfolding section_destroy_mset Cons by simp
  qed simp
  then have m: "mset (spd_config_destroy (Some c)) + mset ?lost = mset (config_all c)"
    unfolding spd_config_destroy_def config_all_def option.case by (simp only: mset_append mset.simps) (simp add: ac_simps)
  then have e: "mset (spd_config_destroy (Some c) @ ?lost) = mset (config_all c)" by (simp only: mset_append)
  have d: "distinct (spd_config_destroy (Some c) @ ?lost)" using assms mset_eq_imp_distinct_iff [OF e] by blast
  have "set (spd_config_destroy (Some c)) \<union> set ?lost = set (config_all c)" using mset_eq_setD [OF e] by (simp only: set_append)
  then show ?thesis using d unfolding distinct_append by blast
qed

theorem config_destroy_leaks_witness:
  "set (spd_config_destroy (Some \<lparr>cb_self = 1, cb_sections = [\<lparr>sb_self = 2, sb_prev = [3], sb_sameline = [], sb_templates = [],
      sb_root = [\<lparr>vb_self = 4, vb_prev = [5], vb_sameline = [6], vb_tail = []\<rparr>]\<rparr>]\<rparr>)) = {1, 2, 3, 4}"
proof -
  let ?c = "\<lparr>cb_self = 1, cb_sections = [\<lparr>sb_self = 2, sb_prev = [3], sb_sameline = [], sb_templates = [],
      sb_root = [\<lparr>vb_self = 4, vb_prev = [5], vb_sameline = [6], vb_tail = []\<rparr>]\<rparr>]\<rparr>"
  have "distinct (config_all ?c)" by (simp add: config_all_def section_all_def var_comments_def)
  note d = conjunct2 [OF config_destroy_leaks [OF this]]
  show ?thesis unfolding d by code_simp
qed

end
