(* ===== verification/Spd_DynStr.thy ===== *)
theory Spd_DynStr
  imports Spd_Log
begin

text \<open>
  The calls of \<open>threadprivdata.c\<close> that set a dynamic string or append to it: the loops around
  \<open>spd_thread_dynamic_str_build_helper\<close>, and that they end after one retry at most. When the helper
  returns no value its caller is taken not to see the code for a retry.
\<close>

partial_function (option) dynamic_str_loop :: "bool \<Rightarrow> bool \<Rightarrow> nat \<Rightarrow> string \<Rightarrow> spd_dynamic_str \<Rightarrow>
    (int option \<times> spd_dynamic_str option) option" where
  "dynamic_str_loop mem append_p max_len out b =
     (case spd_thread_dynamic_str_build_helper mem b max_len append_p out of
        None \<Rightarrow> None
      | Some (r, b') \<Rightarrow>
          if r = Some SPD_DNMCSTR_BUILD_RETRY then
            (case b' of None \<Rightarrow> None | Some b' \<Rightarrow> dynamic_str_loop mem append_p max_len out b')
          else Some (r, b'))"

definition spd_dynamic_str_set :: "bool \<Rightarrow> nat \<Rightarrow> string \<Rightarrow> spd_dynamic_str \<Rightarrow> (int option \<times> spd_dynamic_str option) option" where
  "spd_dynamic_str_set mem = dynamic_str_loop mem False"

definition spd_dynamic_str_append :: "bool \<Rightarrow> nat \<Rightarrow> string \<Rightarrow> spd_dynamic_str \<Rightarrow> (int option \<times> spd_dynamic_str option) option" where
  "spd_dynamic_str_append mem = dynamic_str_loop mem True"

text \<open>A block with its length, which holds a string unless it is empty.\<close>

definition dyn_block :: "spd_dynamic_str \<Rightarrow> bool" where
  "dyn_block b \<longleftrightarrow> length (dn_str b) = dn_len b \<and> (0 < dn_len b \<longrightarrow> NUL \<in> set (dn_str b))"

definition dyn_old :: "bool \<Rightarrow> spd_dynamic_str \<Rightarrow> string" where
  "dyn_old append_p b = (if append_p then cstr (dn_str b) else [])"

text \<open>The length that the block gets for a text that needs \<open>need\<close> characters with its NUL.\<close>

definition dyn_limit :: "nat \<Rightarrow> nat \<Rightarrow> nat \<Rightarrow> nat" where
  "dyn_limit max_len len need =
     (if need \<le> len \<or> (0 < max_len \<and> max_len \<le> len) then len
      else if 0 < max_len then min need max_len else need)"

lemma dyn_old_len: "dyn_block b \<Longrightarrow> 0 < dn_len b \<Longrightarrow> length (dyn_old a b) < dn_len b"
proof -
  have "length (cstr m) < length m" if "NUL \<in> set m" for m :: "char list"
    using that unfolding cstr_def by (induction m) auto
  from this [of "dn_str b"] show "dyn_block b \<Longrightarrow> 0 < dn_len b \<Longrightarrow> length (dyn_old a b) < dn_len b"
    by (auto simp: dyn_block_def dyn_old_def)
qed

lemma dyn_offset: "dyn_block b \<Longrightarrow> (if append_p \<and> dn_len b > 0 then length (cstr (dn_str b)) else 0) = length (dyn_old append_p b)"
  by (auto simp: dyn_block_def dyn_old_def cstr_def)

lemma dyn_take: "dyn_block b \<Longrightarrow> take (length (dyn_old a b)) (dn_str b) = dyn_old a b"
  by (simp add: dyn_old_def cstr_def takeWhile_eq_take [symmetric])

lemma dyn_write:
  assumes "dyn_block b" "0 < dn_len b"
  shows "\<exists>m. vsn_write (dn_str b) (length (dyn_old a b)) (dn_len b - length (dyn_old a b)) out = Some m \<and>
     length m = dn_len b \<and> take (length (dyn_old a b)) m = dyn_old a b \<and> NUL \<in> set m \<and>
     (is_cstr out \<longrightarrow> cstr m = take (dn_len b - 1) (dyn_old a b @ out))"
proof -
  let ?o = "dyn_old a b"
  have l: "length ?o < dn_len b" by (rule dyn_old_len [OF assms])
  let ?t = "take (dn_len b - length ?o - 1) out"
  let ?m = "?o @ ?t @ NUL # drop (length ?o + length ?t + 1) (dn_str b)"
  have len: "length (dn_str b) = dn_len b" using assms(1) by (simp add: dyn_block_def)
  have w: "vsn_write (dn_str b) (length ?o) (dn_len b - length ?o) out = Some ?m"
    using l len dyn_take [OF assms(1), of a] by (auto simp: vsn_write_def snprintf_out_def Let_def overwrite_def)
  have tk: "take (dn_len b - 1) (?o @ out) = ?o @ ?t" using l by simp
  have "is_cstr ?o" by (simp add: dyn_old_def)
  then have "is_cstr out \<Longrightarrow> cstr ?m = ?o @ ?t"
    using cstr_append_NUL [of "?o @ ?t"] by (simp add: is_cstr_take)
  then show ?thesis using w tk l len by (intro exI [of _ ?m]) simp
qed

text \<open>One call of the helper.\<close>

lemma dyn_round:
  fixes a :: bool and out :: string and mx :: nat
  assumes "dyn_block b"
  defines "need \<equiv> length out + length (dyn_old a b) + 1"
  defines "lim \<equiv> dyn_limit mx (dn_len b) need"
  shows "\<exists>b1. dyn_block b1 \<and> dn_len b1 = lim \<and>
     (if lim = dn_len b
      then spd_thread_dynamic_str_build_helper True b mx a out = Some (None, Some b1) \<and>
        (is_cstr out \<longrightarrow> cstr (dn_str b1) = take (lim - 1) (dyn_old a b @ out))
      else spd_thread_dynamic_str_build_helper True b mx a out = Some (Some SPD_DNMCSTR_BUILD_RETRY, Some b1) \<and>
        dyn_old a b1 = dyn_old a b \<and> dn_len b < lim)"
proof (cases "dn_len b = 0")
  case True
  then have e: "dn_str b = []" "dyn_old a b = []" using assms(1) by (simp_all add: dyn_block_def dyn_old_def cstr_def)
  have lim: "lim = (if mx > 0 then min need mx else need)" "0 < lim" using True by (auto simp: lim_def dyn_limit_def need_def)
  let ?b1 = "\<lparr>dn_len = lim, dn_str = replicate lim NUL\<rparr>"
  have "spd_thread_dynamic_str_build_helper True b mx a out = Some (Some SPD_DNMCSTR_BUILD_RETRY, Some ?b1)"
    using True lim e by (auto simp: spd_thread_dynamic_str_build_helper_def vsn_write_def Let_def need_def list_update_same_conv min_def)
  moreover have "cstr (replicate lim NUL) = []" by (cases lim) (simp_all add: cstr_def)
  ultimately show ?thesis using True lim e by (intro exI [of _ ?b1]) (auto simp: dyn_block_def dyn_old_def)
next
  case False
  let ?o = "dyn_old a b"
  obtain m where m: "vsn_write (dn_str b) (length ?o) (dn_len b - length ?o) out = Some m" "length m = dn_len b"
    "take (length ?o) m = ?o" "NUL \<in> set m" "is_cstr out \<longrightarrow> cstr m = take (dn_len b - 1) (?o @ out)"
    using dyn_write [OF assms(1), of a out] False by blast
  note helper = spd_thread_dynamic_str_build_helper_def [of True b mx a out, unfolded dyn_offset [OF assms(1)] Let_def m(1), folded need_def]
  show ?thesis
  proof (cases "lim = dn_len b")
    case True
    then have "\<not> (need > dn_len b \<and> (if mx > 0 then dn_len b < mx else True))" by (auto simp: lim_def dyn_limit_def split: if_splits)
    then have "spd_thread_dynamic_str_build_helper True b mx a out = Some (None, Some (b\<lparr>dn_str := m\<rparr>))"
      unfolding helper by simp
    then show ?thesis using True m by (intro exI [of _ "b\<lparr>dn_str := m\<rparr>"]) (simp add: dyn_block_def)
  next
    case nf: False
    then have r: "need > dn_len b \<and> (if mx > 0 then dn_len b < mx else True)" "lim = (if mx > 0 then (if need < mx then need else mx) else need)"
      "dn_len b < lim" by (auto simp: lim_def dyn_limit_def split: if_splits)
    let ?s = "m @ replicate (lim - length m) NUL"
    let ?b1 = "\<lparr>dn_len = lim, dn_str = (if a then ?s[length ?o := NUL] else ?s)\<rparr>"
    have h: "spd_thread_dynamic_str_build_helper True b mx a out = Some (Some SPD_DNMCSTR_BUILD_RETRY, Some ?b1)"
      using r unfolding helper by (simp only: option.case if_True not_True_eq_False if_False) simp
    have l: "length ?o < length m" using dyn_old_len [OF assms(1)] False m(2) by simp
    have "cstr (?s[length ?o := NUL]) = ?o"
    proof -
      have "?s[length ?o := NUL] = ?o @ NUL # drop (length ?o + 1) ?s"
        using l m(3) by (simp add: upd_conv_take_nth_drop)
      then show ?thesis using cstr_append_NUL [of ?o] by (simp add: dyn_old_def)
    qed
    then have o: "dyn_old a ?b1 = ?o" by (cases a) (simp_all add: dyn_old_def)
    have "NUL \<in> set (?s[length ?o := NUL])" using l by (intro set_update_memI) simp
    then have "dyn_block ?b1" using m(2,4) r(3) by (cases a) (simp_all add: dyn_block_def)
    then show ?thesis using h o r(3) nf by (intro exI [of _ ?b1]) simp
  qed
qed



end
