(* ===== verification/Spec2Isabelle.thy ===== *)
theory Spec2Isabelle
  imports Spd_LinkedList Spd_Strings Spd_Utils Spd_Str Spd_Obj Spd_Config Spd_Cli Spd_TaskQueue Spd_Fsm
    Spd_Scheduler Spd_Sockaddr Spd_Db Spd_Test Spd_Log Spd_Daemon Spd_Stun Spd_Http Spd_Fdevent Spd_Io Spd_Tcp Spd_Lock Spd_DbSync Spd_DbTree Spd_DbTest Spd_Console Spd_LockedList Spd_ConfigMem Spd_DynStr
begin

text \<open>
  A verification library for the spider toolkit, a C library and daemon skeleton: intrusive lists,
  strings, dynamic strings, reference-counted objects with hash containers, configuration files, a
  command line, task queues with worker threads, state machines, a scheduler, socket addresses.
  Files named below are in \<open>src/src\<close>.

  \<^bold>\<open>Theories and the code they model.\<close>
  \<^item> \<open>Spd_Prelude\<close>, \<open>Spd_CString\<close>: generic lemmas; C strings, the parts of \<open>string.h\<close>, \<open>strings.h\<close> and
    \<open>ctype.h\<close> that the sources use.
  \<^item> \<open>Spd_Interfaces\<close>: the locales \<open>spd_fifo\<close> (a queue; provided by the list macros, used by the task
    queues), \<open>spd_keyed\<close> (keys that compare equal have equal hashes; provided by the names of task
    queues, used by their registry), \<open>spd_lock\<close> and its extension \<open>spd_try_lock\<close> (who holds a lock, and
    how often; provided by mutexes and read-write locks) and \<open>spd_store\<close> (a store that answers as a map;
    provided by the database).
  \<^item> \<open>Spd_LinkedList\<close>: the macros of \<open>linkedlist.h\<close> at the level of links, each proved to be the list
    operation it is meant to be. Later theories hold lists as HOL lists on the strength of that.
  \<^item> \<open>Spd_LockedList\<close>: the same lists with their locks, and threads that share one.
  \<^item> \<open>Spd_Strings\<close>, \<open>Spd_Times\<close>, \<open>Spd_Utils\<close>, \<open>Spd_Str\<close>: \<open>strings.c/h\<close>, \<open>times.h\<close>, \<open>utils.c/h\<close>,
    \<open>const.h\<close>, \<open>str.c/h\<close> and the dynamic strings of \<open>threadprivdata.c/h\<close>; \<open>Spd_DynStr\<close>: their loops.
  \<^item> \<open>Spd_Obj\<close>: \<open>obj.c/h\<close>. A \<open>world\<close> maps addresses to live objects; operations take the reference
    function, whose recursion (a container in a container) has fuel: \<open>Suc n\<close> is enough for objects
    that are not containers, one more for each level of nesting.
  \<^item> \<open>Spd_Config\<close>: \<open>config.c/h\<close>, from the bytes of a file to sections and variables and back.
    \<open>Spd_ConfigMem\<close>: its growing comment buffers, and what it frees.
  \<^item> \<open>Spd_Cli\<close>: \<open>cli.c/h\<close>. \<open>Spd_Fsm\<close>: \<open>fsm.c/h\<close>. \<open>Spd_Scheduler\<close>: \<open>scheduler.c/h\<close>.
    \<open>Spd_Sockaddr\<close>: \<open>socket.c/h\<close>.
  \<^item> \<open>Spd_Db\<close>: \<open>internal_db.c\<close> over an abstract SQLite, whose documented behaviour is a predicate.
    \<open>Spd_DbTree\<close>: the list in memory that a listing leaves, over an abstract allocator.
  \<^item> \<open>Spd_Lock\<close>: \<open>lock.h\<close> and the locks of objects, over the behaviour that POSIX gives mutexes,
    read-write locks and conditions.
  \<^item> \<open>Spd_DbSync\<close>: the thread of \<open>internal_db.c\<close> that commits, what is on disk in every order of its
    sections and the clients' ones, start and end of the database. \<open>Spd_DbTest\<close>: its test, run by the
    test engine.
  \<^item> \<open>Spd_Test\<close>: \<open>test_engine.c/h\<close>, with callbacks and the clock as arguments.
  \<^item> \<open>Spd_Log\<close>: \<open>logger.c/h\<close>, from the configuration to the texts that reach each channel; the names
    of \<open>syslog.c\<close>.
  \<^item> \<open>Spd_Daemon\<close>: \<open>spider.c\<close>, \<open>options.h\<close>: the start as a list of steps, the consoles, sort and search.
  \<^item> \<open>Spd_Console\<close>: the threads of \<open>spider.c\<close>: what a console thread does with its buffer, who owns which
    descriptor while connections come and go, the standard descriptors of the daemon.
  \<^item> \<open>Spd_Stun\<close>: \<open>tinyNet/stun.c\<close>: messages as octets, answers and retries.
  \<^item> \<open>Spd_Http\<close>: \<open>tinyhttp.c\<close>: requests, answers and the table of connections.
  \<^item> \<open>Spd_Fdevent\<close>, \<open>Spd_Io\<close>: \<open>fdevent.c/h\<close>, \<open>io.c/h\<close>, \<open>poll.c/h\<close>: tables of descriptors and event
    loops over an abstract kernel.
  \<^item> \<open>Spd_Tcp\<close>: \<open>tcp_engine.c/h\<close>, \<open>thread.c/h\<close>, \<open>tcpserver.c\<close>: which descriptors and threads are owned by
    whom, with the results of system calls as arguments.
  \<^item> \<open>Spd_TaskQueue\<close>: \<open>taskqueue.c/h\<close>: a queue and its worker as a step relation, where a section
    under the queue's mutex is one step, and the registry of queues on top of \<open>Spd_Obj\<close>.

  \<^bold>\<open>How the components interact.\<close> Everything rests on the lists and strings. The object containers
  keep their buckets in lists; the registry of task queues is an object container whose callbacks
  hash and compare names; the command line splits, joins and prints with the string routines and
  \<open>Spd_Str\<close>; the scheduler orders its list with the time arithmetic; the database tests itself through
  the test engine; what the logger hands to the verbosers goes through the consoles to their clients
  (the last section of this theory). A saved configuration is loaded again by its name from the file
  system it was saved to. A section under a lock is one step wherever threads meet: that this loses nothing is
  proved once for locks, queues and lists in \<open>Spd_Interfaces\<close>.

  \<^bold>\<open>Conventions.\<close> A function returns an \<open>option\<close> where the C code may have no defined result (a null
  or freed pointer, a write outside a buffer, a missing return statement that a caller relies on) or
  may not end; \<open>None\<close> is that case, and a theorem that an operation works says that the result is
  \<open>Some\<close>. Loops that may not end are \<open>partial_function (option)\<close>, all others are total. Allocations
  succeed. Handlers, callbacks, destructors, the clock and system calls are arguments. Machine words
  are words where wrap-around can matter and integers otherwise; each theory says which.

  \<^bold>\<open>What the lemmas show.\<close> Each theory first relates the definitions to simpler ones (lists for
  pointers, maximal runs for token loops, filters for deletions), then states its invariant and that
  the operations keep it, and ends with its properties, each under its id:
  round trips (configuration files, command lines, host and port, scheduling and deleting), the
  invariants of containers and registries, exact reference counting, the order and the wake-ups of
  task queues in every interleaving, that a stopped worker returns and leaves no memory behind, the refinement of a state
  machine to its transition relation, that locked sections are serial, what of a database is on disk
  after any order of steps, that no descriptor of a console is lost or closed twice, and bounds of the
  buffer routines. Where the code does not do
  what it means to, the theorem states what it does.

  \<^bold>\<open>Not modelled.\<close> The half of \<open>lock.h\<close> with \<open>DEBUG_THREADS\<close>, which does not compile; functions that only
  print or dump; functions that hand their arguments on to one call of the system; the test program in
  \<open>tests\<close>, which is not C; \<open>tinyNet/tinyhttp.c\<close>, a copy of \<open>tinyhttp.c\<close>. SQLite, the thread library, the
  resolver and the kernel are parameters, with what POSIX or their documentation says of them.
\<close>

section \<open>A verbose message on a remote console\<close>

text \<open>
  What the verboser \<open>nv\<close>, registered by \<open>start_domainserver\<close>, makes of the output of the logger; what
  is written to a descriptor; and what a console thread hands on to its client.
\<close>

definition network_sees :: "nat \<Rightarrow> console list \<Rightarrow> (sink \<times> string) list \<Rightarrow> fd_event list" where
  "network_sees nv cs out = concat (map (\<lambda>(s, t). if s = Verboser nv then network_verboser t cs else []) out)"

definition written :: "int \<Rightarrow> fd_event list \<Rightarrow> string" where
  "written d evs = concat (map (\<lambda>e. case e of FdPrint d' t \<Rightarrow> if d' = d then t else [] | FdClose _ \<Rightarrow> []) evs)"

definition forwarded :: "console_act list \<Rightarrow> string" where
  "forwarded as = concat (map (\<lambda>a. case a of Forward t \<Rightarrow> t | _ \<Rightarrow> []) as)"

lemma written_append [simp]: "written d (a @ b) = written d a @ written d b"
  by (simp add: written_def)

lemma network_sees_append [simp]: "network_sees nv cs (a @ b) = network_sees nv cs a @ network_sees nv cs b"
  by (simp add: network_sees_def)

lemma network_sees_none: "\<forall>x \<in> set out. fst x \<noteq> Verboser nv \<Longrightarrow> network_sees nv cs out = []"
  by (induction out) (auto simp: network_sees_def)

lemma network_sees_once:
  "count_list vs nv = 1 \<Longrightarrow> network_sees nv cs (map (\<lambda>v. (Verboser v, t)) vs) = network_verboser t cs"
proof (induction vs)
  case (Cons v vs)
  have "count_list vs nv = 0 \<Longrightarrow> network_sees nv cs (map (\<lambda>v. (Verboser v, t)) vs) = []"
    by (intro network_sees_none) (auto simp: count_list_0_iff)
  with Cons show ?case by (auto simp: network_sees_def split: if_splits)
qed simp

lemma forwarded_append [simp]: "forwarded (a @ b) = forwarded a @ forwarded b"
  by (simp add: forwarded_def)

lemma forwarded_rounds: "forwarded (concat (map round_acts rs)) = concat (concat (map pipe_data rs))"
proof (induction rs)
  case (Cons r rs)
  have "forwarded (round_acts r) = concat (pipe_data r)"
    by (simp add: round_acts_def forwarded_def comp_def)
  with Cons show ?case by simp
qed (simp add: forwarded_def)

text \<open>A console is written to through its own descriptor only.\<close>

lemma written_consoles:
  assumes "distinct (map con_p1 (filter (\<lambda>c. 0 \<le> con_fd c) cs))" "c \<in> set cs" "0 \<le> con_fd c"
  shows "written (con_p1 c) (network_verboser t cs) = (if con_mute c then [] else t)"
proof -
  have no: "\<forall>b \<in> set bs. 0 \<le> con_fd b \<longrightarrow> con_p1 b \<noteq> p \<Longrightarrow> written p (spd_network_puts_mutable t bs) = []" for bs p
    by (induction bs) (auto simp: written_def)
  show ?thesis using assms unfolding network_verboser_def
  proof (induction cs)
    case (Cons b bs)
    show ?case
    proof (cases "b = c")
      case True
      with Cons.prems have "con_p1 c \<notin> con_p1 ` {x \<in> set bs. 0 \<le> con_fd x}" by simp
      then have "\<forall>x \<in> set bs. 0 \<le> con_fd x \<longrightarrow> con_p1 x \<noteq> con_p1 c" by (metis (mono_tags) imageI mem_Collect_eq)
      with no [of bs "con_p1 c"] True Cons.prems(3) show ?thesis by (auto simp: written_def)
    next
      case False
      with Cons.prems have b: "c \<in> set bs" "0 \<le> con_fd b \<longrightarrow> con_p1 b \<noteq> con_p1 c" by auto
      with Cons show ?thesis by (auto simp: written_def split: if_splits)
    qed
  qed simp
qed


definition remote_consoles :: "console list" where
  "remote_consoles =
     [\<lparr>con_fd = 3, con_p0 = 4, con_p1 = 5, con_mute = True\<rparr>, \<lparr>con_fd = 6, con_p0 = 7, con_p1 = 8, con_mute = False\<rparr>]"


end
